(* ===== verification/Studio_Prelude.thy ===== *)
theory Studio_Prelude
  imports Main "HOL-Library.Word" "HOL-Library.Char_ord" "HOL-Library.List_Lexorder"
    "HOL-Library.Product_Lexorder"
begin

text \<open>
  Shared vocabulary of the development: the Rust integer and string types the modelled
  components use, \<open>Result\<close> values as sums, the standard-library operations on them
  (\<open>checked_add\<close>, \<open>saturating_add\<close>), and the lemma collections that carry the
  component proofs.

  A Rust \<open>u64\<close> is a \<^typ>\<open>64 word\<close>; its order is the unsigned one. A Rust \<open>String\<close>
  is the list of its UTF-8 bytes, so \<open>len()\<close> is \<^const>\<open>length\<close> and Rust's byte-wise
  string order is the lexicographic order of \<^theory_text>\<open>HOL-Library.List_Lexorder\<close>. A
  \<open>Result<T, E>\<close> is a value of \<open>'e + 't\<close>, with \<^const>\<open>Inl\<close> for the error.
\<close>

named_theorems decision_simps \<open>unfolding equations of decision constructors\<close>
named_theorems store_simps \<open>lookup laws of ordered maps and sets\<close>
named_theorems session_simps \<open>field equations of the provider session operations\<close>

type_synonym u8 = "8 word"
type_synonym u16 = "16 word"
type_synonym u64 = "64 word"
type_synonym bytes = "8 word list"

section \<open>Integer operations of the standard library\<close>

text \<open>\<open>u64::checked_add\<close> and \<open>u64::saturating_add\<close>.\<close>

definition checked_add :: "u64 \<Rightarrow> u64 \<Rightarrow> u64 option" where
  "checked_add a b = (if uint a + uint b < 2 ^ 64 then Some (a + b) else None)"

definition saturating_add :: "u64 \<Rightarrow> u64 \<Rightarrow> u64" where
  "saturating_add a b = (case checked_add a b of Some c \<Rightarrow> c | None \<Rightarrow> - 1)"

lemma u64_bound: "unat (a :: u64) < 2 ^ 64"
proof -
  have "unat a < 2 ^ LENGTH(64)"
    by (rule unsigned_less)
  then show ?thesis by simp
qed

lemma unat_max_u64: "unat (- 1 :: u64) = 2 ^ 64 - 1"
  by (simp add: unsigned_minus_1_eq_mask mask_eq_exp_minus_1)

lemma checked_add_nat:
  "checked_add a b = (if unat a + unat b < 2 ^ 64 then Some (a + b) else None)"
proof -
  have "uint a + uint b < 2 ^ 64 \<longleftrightarrow> int (unat a + unat b) < int (2 ^ 64)"
    by simp
  also have "\<dots> \<longleftrightarrow> unat a + unat b < 2 ^ 64"
    by (rule of_nat_less_iff)
  finally show ?thesis by (simp add: checked_add_def)
qed

lemma checked_add_Some:
  "checked_add a b = Some c \<longleftrightarrow> unat a + unat b < 2 ^ 64 \<and> c = a + b"
  by (auto simp: checked_add_nat)

lemma checked_add_unat: "checked_add a b = Some c \<Longrightarrow> unat c = unat a + unat b"
  by (auto simp: checked_add_nat unat_word_ariths split: if_splits)

lemma checked_add_None: "checked_add a b = None \<longleftrightarrow> 2 ^ 64 \<le> unat a + unat b"
  by (auto simp: checked_add_nat)

lemma checked_add_one_greater: "checked_add a 1 = Some c \<Longrightarrow> a < c"
  by (drule checked_add_unat) (simp add: word_less_nat_alt)

lemma checked_add_one_None_iff: "checked_add a 1 = None \<longleftrightarrow> a = - 1"
proof
  assume "checked_add a 1 = None"
  then have "unat a = 2 ^ 64 - 1"
    using u64_bound [of a] by (simp add: checked_add_None)
  then show "a = - 1"
    by (metis unat_max_u64 word_unat_eq_iff)
next
  assume "a = - 1"
  then show "checked_add a 1 = None"
    by (simp add: checked_add_None unat_max_u64)
qed

lemma unat_saturating_add: "unat (saturating_add a b) = min (unat a + unat b) (2 ^ 64 - 1)"
proof (cases "checked_add a b")
  case None
  then have "2 ^ 64 \<le> unat a + unat b"
    by (simp add: checked_add_None)
  with None show ?thesis
    by (simp add: saturating_add_def unat_max_u64 min_def)
next
  case (Some c)
  then show ?thesis
    using checked_add_unat [OF Some] u64_bound [of c]
    by (simp add: saturating_add_def)
qed

lemma saturating_add_ge: "a \<le> saturating_add a b"
  using u64_bound [of a]
  by (simp add: word_le_nat_alt unat_saturating_add)

section \<open>Results and options\<close>

text \<open>The \<open>?\<close> operator on a \<open>Result\<close>: the error returns early.\<close>

definition try_result :: "'e + 'a \<Rightarrow> ('a \<Rightarrow> 'e + 'b) \<Rightarrow> 'e + 'b" where
  "try_result r f = (case r of Inl e \<Rightarrow> Inl e | Inr a \<Rightarrow> f a)"

definition is_ok :: "'e + 'a \<Rightarrow> bool" where
  "is_ok r = (case r of Inl _ \<Rightarrow> False | Inr _ \<Rightarrow> True)"

lemma try_result_simps [simp]:
  "try_result (Inl e) f = Inl e"
  "try_result (Inr a) f = f a"
  by (simp_all add: try_result_def)

lemma is_ok_simps [simp]: "\<not> is_ok (Inl e)" "is_ok (Inr a)"
  by (simp_all add: is_ok_def)

lemma try_result_InrE:
  assumes "try_result r f = Inr b"
  obtains a where "r = Inr a" "f a = Inr b"
  using assms by (cases r) auto

section \<open>Lists\<close>

lemma filter_length_append_le:
  "length (filter P (xs @ ys)) = length (filter P xs) + length (filter P ys)"
  by simp

lemma distinct_filter_neq_set:
  "distinct xs \<Longrightarrow> set (filter (\<lambda>y. y \<noteq> x) xs) = set xs - {x}"
  by auto

section \<open>Machines\<close>

text \<open>
  A component whose operations keep an invariant, and one whose operations moreover only move
  forward in an order of its states. What every operation does holds for every run.
\<close>

locale guarded_machine =
  fixes step :: "'s \<Rightarrow> 'c \<Rightarrow> 's" and inv :: "'s \<Rightarrow> bool"
  assumes step_inv: "inv s \<Longrightarrow> inv (step s c)"
begin

lemma run_inv: "inv s \<Longrightarrow> inv (foldl step s cs)"
  by (induction cs arbitrary: s) (simp_all add: step_inv)

end

locale ordered_machine = guarded_machine step inv
  for step :: "'s \<Rightarrow> 'c \<Rightarrow> 's" and inv :: "'s \<Rightarrow> bool" +
  fixes le :: "'s \<Rightarrow> 's \<Rightarrow> bool"
  assumes le_refl: "le s s" and le_trans: "le s t \<Longrightarrow> le t u \<Longrightarrow> le s u"
    and step_le: "inv s \<Longrightarrow> le s (step s c)"
begin

lemma run_le: "inv s \<Longrightarrow> le s (foldl step s cs)"
proof (induction cs arbitrary: s)
  case (Cons c cs)
  then show ?case using le_trans [OF step_le [OF Cons.prems, of c] Cons.IH [OF step_inv]] by simp
qed (simp add: le_refl)

end

end
