(* ===== verification/Operation_Lifecycle.thy ===== *)
theory Operation_Lifecycle
  imports Studio_Prelude
begin

text \<open>
  The operation lifecycle of \<open>workspaces/runtime/packages/operations/src/lib.rs\<close>: one
  scoped mutating request from reservation through dispatch, uncertain outcome and
  evidence-based recovery. \<open>transition\<close> is a total function from a slot snapshot and an
  event to a decision; the caller persists the decision. The lemmas show what a decision
  may change, that a slot dispatches at most once, that settled slots never move and that
  an unknown outcome leaves only through positive evidence.
\<close>

section \<open>Data\<close>

type_synonym account_id = string
type_synonym agent_id = string
type_synonym thread_id = string
type_synonym op_request_id = string
type_synonym event_id = string
type_synonym account_thread_epoch = u64
type_synonym process_generation = u64
type_synonym state_revision = u64

text \<open>The 32 bytes of a content digest, compared for equality only.\<close>

type_synonym content_fingerprint = bytes

datatype identity_scope = ToolRequest account_id thread_id | NativeAction

record operation_identity =
  oi_scope :: identity_scope
  oi_request_id :: op_request_id

record attempt_identity =
  at_agent :: agent_id
  at_account :: account_id
  at_thread :: thread_id
  at_epoch :: account_thread_epoch
  at_generation :: "process_generation option"

text \<open>
  \<open>OperationState\<close>, \<open>Outcome\<close> and \<open>SettledOutcome\<close> share variant names in the source;
  here the prefix tells them apart.
\<close>

datatype operation_state =
    Reserved | Dispatched | CancelRequested | CancelledBeforeDispatch
  | OpNotApplied | OpApplied | OpUnknown

datatype outcome = NotApplied | Applied | Unknown

datatype settled_outcome = SettledNotApplied | SettledApplied

record operation_tombstone =
  ts_identity :: operation_identity
  ts_content :: content_fingerprint
  ts_attempt :: attempt_identity
  ts_outcome :: settled_outcome

record operation =
  op_identity :: operation_identity
  op_content :: content_fingerprint
  op_attempt :: attempt_identity
  op_state :: operation_state

record slot_state =
  st_revision :: state_revision
  st_operation :: "operation option"
  st_tombstone :: "operation_tombstone option"

definition empty_slot :: "state_revision \<Rightarrow> slot_state" where
  "empty_slot revision = \<lparr>st_revision = revision, st_operation = None, st_tombstone = None\<rparr>"

definition compacted_slot :: "state_revision \<Rightarrow> operation_tombstone \<Rightarrow> slot_state" where
  "compacted_slot revision tombstone =
     \<lparr>st_revision = revision, st_operation = None, st_tombstone = Some tombstone\<rparr>"

fun state_outcome :: "operation_state \<Rightarrow> outcome option" where
  "state_outcome CancelledBeforeDispatch = Some NotApplied"
| "state_outcome OpNotApplied = Some NotApplied"
| "state_outcome OpApplied = Some Applied"
| "state_outcome OpUnknown = Some Unknown"
| "state_outcome Reserved = None"
| "state_outcome Dispatched = None"
| "state_outcome CancelRequested = None"

fun settled_as_outcome :: "settled_outcome \<Rightarrow> outcome" where
  "settled_as_outcome SettledNotApplied = NotApplied"
| "settled_as_outcome SettledApplied = Applied"

definition slot_outcome :: "slot_state \<Rightarrow> outcome option" where
  "slot_outcome s =
     (case st_operation s of
        Some operation \<Rightarrow> state_outcome (op_state operation)
      | None \<Rightarrow> map_option (\<lambda>t. settled_as_outcome (ts_outcome t)) (st_tombstone s))"

datatype non_execution_proof =
  QueuedCancellation | ReadOnlyRejection | ExactPreWriteRejection | ReviewChildAbsent

datatype applied_proof = LateValidResponse | ExactNativeAcceptance

datatype failure_kind = Timeout | ConnectionLost | InvalidPostExecutionResponse | ProcessLost

datatype event_kind =
    Admit content_fingerprint
  | ClaimDispatch
  | Cancel
  | ServerRestarted
  | CommittedOperationReceipt
  | AppliedResponse
  | DefinitiveRejection non_execution_proof
  | Failure failure_kind
  | AppliedEvidence applied_proof
  | NonExecutionEvidence non_execution_proof
  | ReceiptMissing

record op_event =
  ev_id :: event_id
  ev_expected_revision :: state_revision
  ev_identity :: operation_identity
  ev_attempt :: attempt_identity
  ev_kind :: event_kind

datatype transition_error =
    IdentityMismatch | StaleAttemptContext | DifferentContent | StaleRevision | StaleEpoch
  | StaleGeneration | GenerationUnavailable | OperationAlreadyOccupied | OperationMissing
  | InvalidTransition | UnsupportedProof | ConflictingEvidence | RevisionExhausted

datatype effect_intent =
    Reserve event_id operation_identity content_fingerprint attempt_identity
  | Dispatch event_id operation_identity attempt_identity
  | RequestCancellation event_id operation_identity
  | PersistOutcome event_id operation_identity outcome
  | ReconcileEvidence event_id operation_identity outcome

datatype decision_kind =
    Transitioned | ReturnExisting | NoEffect | ReceiptMissingUnknown | Rejected transition_error

record op_decision =
  dc_expected_revision :: state_revision
  dc_next_state :: slot_state
  dc_kind :: decision_kind
  dc_intents :: "effect_intent list"

section \<open>The transition function\<close>

definition decision ::
  "slot_state \<Rightarrow> decision_kind \<Rightarrow> effect_intent list \<Rightarrow> bool \<Rightarrow> op_decision" where
  "decision s kind intents changed =
     (if changed then
        (case checked_add (st_revision s) 1 of
           None \<Rightarrow> \<lparr>dc_expected_revision = st_revision s, dc_next_state = s,
                    dc_kind = Rejected RevisionExhausted, dc_intents = []\<rparr>
         | Some revision \<Rightarrow>
             \<lparr>dc_expected_revision = st_revision s, dc_next_state = s\<lparr>st_revision := revision\<rparr>,
              dc_kind = kind, dc_intents = intents\<rparr>)
      else \<lparr>dc_expected_revision = st_revision s, dc_next_state = s,
            dc_kind = kind, dc_intents = intents\<rparr>)"

definition reject :: "slot_state \<Rightarrow> transition_error \<Rightarrow> op_decision" where
  "reject s error = decision s (Rejected error) [] False"

definition no_effect :: "slot_state \<Rightarrow> op_decision" where
  "no_effect s = decision s NoEffect [] False"

definition matching_attempt :: "operation \<Rightarrow> op_event \<Rightarrow> bool \<Rightarrow> transition_error + unit" where
  "matching_attempt operation event allow_generation_binding =
     (let a = op_attempt operation; b = ev_attempt event in
      if at_agent a \<noteq> at_agent b \<or> at_account a \<noteq> at_account b \<or> at_thread a \<noteq> at_thread b
      then Inl StaleAttemptContext
      else if at_epoch a \<noteq> at_epoch b then Inl StaleEpoch
      else case at_generation b of
             None \<Rightarrow> Inr ()
           | Some generation \<Rightarrow>
               (case at_generation a of
                  Some expected \<Rightarrow>
                    if expected = generation then Inr () else Inl StaleGeneration
                | None \<Rightarrow>
                    if allow_generation_binding then Inr () else Inl GenerationUnavailable))"

fun same_settled_event :: "operation_state \<Rightarrow> event_kind \<Rightarrow> bool" where
  "same_settled_event OpApplied AppliedResponse = True"
| "same_settled_event OpNotApplied (DefinitiveRejection _) = True"
| "same_settled_event CancelledBeforeDispatch (DefinitiveRejection _) = True"
| "same_settled_event OpUnknown (Failure _) = True"
| "same_settled_event OpApplied (AppliedEvidence _) = True"
| "same_settled_event OpNotApplied (NonExecutionEvidence _) = True"
| "same_settled_event _ _ = False"

text \<open>The two further \<open>matches!\<close> tables of events that a saved phase absorbs.\<close>

definition settled_phase :: "operation_state \<Rightarrow> bool" where
  "settled_phase st = (st = OpNotApplied \<or> st = OpApplied \<or> st = CancelledBeforeDispatch)"

definition not_applied_phase :: "operation_state \<Rightarrow> bool" where
  "not_applied_phase st = (st = OpNotApplied \<or> st = CancelledBeforeDispatch)"

definition contradicts_settled :: "operation_state \<Rightarrow> event_kind \<Rightarrow> bool" where
  "contradicts_settled st kind =
     (case kind of
        Failure _ \<Rightarrow> st = OpApplied \<or> not_applied_phase st
      | DefinitiveRejection _ \<Rightarrow> st = OpApplied \<or> not_applied_phase st
      | NonExecutionEvidence _ \<Rightarrow> st = OpApplied
      | AppliedResponse \<Rightarrow> not_applied_phase st
      | AppliedEvidence _ \<Rightarrow> not_applied_phase st
      | _ \<Rightarrow> False)"

definition replayed_phase :: "operation_state \<Rightarrow> event_kind \<Rightarrow> bool" where
  "replayed_phase st kind =
     (case kind of
        ClaimDispatch \<Rightarrow> st = Dispatched
      | CommittedOperationReceipt \<Rightarrow> st = OpUnknown \<or> st = OpApplied \<or> not_applied_phase st
      | Cancel \<Rightarrow> st = CancelRequested \<or> st = CancelledBeforeDispatch \<or> st = OpNotApplied
                  \<or> st = OpApplied \<or> st = OpUnknown
      | ServerRestarted \<Rightarrow> st = OpUnknown \<or> st = OpApplied \<or> st = OpNotApplied
                  \<or> st = CancelledBeforeDispatch
      | AppliedEvidence _ \<Rightarrow> not_applied_phase st
      | _ \<Rightarrow> False)"

definition absorbed :: "operation_state \<Rightarrow> event_kind \<Rightarrow> bool" where
  "absorbed st kind =
     (same_settled_event st kind \<or> contradicts_settled st kind \<or> replayed_phase st kind)"

definition transition_tombstoned :: "slot_state \<Rightarrow> operation_tombstone \<Rightarrow> op_event \<Rightarrow> op_decision"
where
  "transition_tombstoned s tombstone event =
     (case ev_kind event of
        Admit content \<Rightarrow>
          if ev_identity event = ts_identity tombstone then
            if content = ts_content tombstone then decision s ReturnExisting [] False
            else reject s DifferentContent
          else reject s IdentityMismatch
      | ReceiptMissing \<Rightarrow> reject s ConflictingEvidence
      | _ \<Rightarrow> reject s InvalidTransition)"

definition with_operation :: "op_decision \<Rightarrow> operation \<Rightarrow> op_decision" where
  "with_operation d operation =
     (if dc_kind d = Transitioned
      then d\<lparr>dc_next_state := (dc_next_state d)\<lparr>st_operation := Some operation\<rparr>\<rparr>
      else d)"

definition transition_absent :: "slot_state \<Rightarrow> op_event \<Rightarrow> op_decision" where
  "transition_absent s event =
     (case ev_kind event of
        Admit content \<Rightarrow>
          if st_revision s \<noteq> 0 then reject s OperationAlreadyOccupied
          else if ev_expected_revision event \<noteq> st_revision s then reject s StaleRevision
          else with_operation
                 (decision s Transitioned
                   [Reserve (ev_id event) (ev_identity event) content (ev_attempt event)] True)
                 \<lparr>op_identity = ev_identity event, op_content = content,
                  op_attempt = ev_attempt event, op_state = Reserved\<rparr>
      | ReceiptMissing \<Rightarrow> decision s ReceiptMissingUnknown [] False
      | _ \<Rightarrow> reject s OperationMissing)"

definition open_phase :: "operation_state \<Rightarrow> bool" where
  "open_phase st = (st = Reserved \<or> st = Dispatched \<or> st = CancelRequested)"

text \<open>
  The final \<open>match\<close> on the pair of saved phase and event: the next operation and the intent,
  or the error of an early \<open>return reject\<close>.
\<close>

definition transition_apply ::
  "operation \<Rightarrow> op_event \<Rightarrow> transition_error + operation \<times> effect_intent list" where
  "transition_apply operation event =
     (let st = op_state operation;
          persist = (\<lambda>next out. Inr (operation\<lparr>op_state := next\<rparr>,
                       [PersistOutcome (ev_id event) (op_identity operation) out]));
          reconcile = (\<lambda>next out. Inr (operation\<lparr>op_state := next\<rparr>,
                       [ReconcileEvidence (ev_id event) (op_identity operation) out]))
      in case ev_kind event of
        ClaimDispatch \<Rightarrow>
          if st = Reserved then
            (case at_generation (ev_attempt event) of
               None \<Rightarrow>
                 Inr (operation\<lparr>op_state := Dispatched\<rparr>,
                      [Dispatch (ev_id event) (op_identity operation) (op_attempt operation)])
             | Some generation \<Rightarrow>
                 if (case at_generation (op_attempt operation) of
                       Some saved \<Rightarrow> saved \<noteq> generation | None \<Rightarrow> False)
                 then Inl StaleGeneration
                 else let attempt = (op_attempt operation)\<lparr>at_generation := Some generation\<rparr>
                      in Inr (operation\<lparr>op_attempt := attempt, op_state := Dispatched\<rparr>,
                              [Dispatch (ev_id event) (op_identity operation) attempt]))
          else Inl InvalidTransition
      | Cancel \<Rightarrow>
          if st = Reserved then persist CancelledBeforeDispatch NotApplied
          else if st = Dispatched then
            Inr (operation\<lparr>op_state := CancelRequested\<rparr>,
                 [RequestCancellation (ev_id event) (op_identity operation)])
          else Inl InvalidTransition
      | ServerRestarted \<Rightarrow>
          if st = Reserved then persist CancelledBeforeDispatch NotApplied
          else if st = Dispatched \<or> st = CancelRequested then persist OpUnknown Unknown
          else Inl InvalidTransition
      | CommittedOperationReceipt \<Rightarrow>
          if open_phase st then reconcile OpUnknown Unknown else Inl InvalidTransition
      | AppliedEvidence _ \<Rightarrow>
          if open_phase st then reconcile OpApplied Applied
          else if st = OpUnknown then reconcile OpApplied Applied
          else Inl InvalidTransition
      | AppliedResponse \<Rightarrow>
          if st = Dispatched \<or> st = CancelRequested then persist OpApplied Applied
          else if st = Reserved then reconcile OpApplied Applied
          else if st = OpUnknown then reconcile OpApplied Applied
          else Inl InvalidTransition
      | DefinitiveRejection proof \<Rightarrow>
          if open_phase st then
            if proof = ReviewChildAbsent \<or> proof = QueuedCancellation \<and> st \<noteq> Reserved
            then Inl UnsupportedProof
            else persist OpNotApplied NotApplied
          else if st = OpUnknown then
            if proof = QueuedCancellation then Inl UnsupportedProof
            else reconcile OpNotApplied NotApplied
          else Inl InvalidTransition
      | Failure _ \<Rightarrow>
          if open_phase st then persist OpUnknown Unknown else Inl InvalidTransition
      | NonExecutionEvidence proof \<Rightarrow>
          if st = OpUnknown then
            if proof = QueuedCancellation then Inl UnsupportedProof
            else reconcile OpNotApplied NotApplied
          else if st = OpApplied then Inl ConflictingEvidence
          else Inl InvalidTransition
      | Admit _ \<Rightarrow> Inl InvalidTransition
      | ReceiptMissing \<Rightarrow> Inl InvalidTransition)"

definition transition_present :: "slot_state \<Rightarrow> operation \<Rightarrow> op_event \<Rightarrow> op_decision" where
  "transition_present s operation event =
     (if op_identity operation \<noteq> ev_identity event then reject s IdentityMismatch
      else case ev_kind event of
        Admit content \<Rightarrow>
          if op_content operation \<noteq> content then reject s DifferentContent
          else decision s ReturnExisting [] False
      | kind \<Rightarrow>
          (case matching_attempt operation event (kind = ClaimDispatch) of
             Inl error \<Rightarrow> reject s error
           | Inr _ \<Rightarrow>
               if kind = ReceiptMissing then
                 if settled_phase (op_state operation) then reject s ConflictingEvidence
                 else decision s ReceiptMissingUnknown [] False
               else if absorbed (op_state operation) kind then no_effect s
               else if ev_expected_revision event \<noteq> st_revision s then reject s StaleRevision
               else (case transition_apply operation event of
                       Inl error \<Rightarrow> reject s error
                     | Inr (next_operation, intents) \<Rightarrow>
                         with_operation (decision s Transitioned intents True) next_operation)))"

definition transition :: "slot_state \<Rightarrow> op_event \<Rightarrow> op_decision" where
  "transition s event =
     (case st_operation s of
        Some operation \<Rightarrow> transition_present s operation event
      | None \<Rightarrow>
          (case st_tombstone s of
             Some tombstone \<Rightarrow> transition_tombstoned s tombstone event
           | None \<Rightarrow> transition_absent s event))"

text \<open>
  The caller's loop: every decision's next state is what the next event is decided against.
  The result pairs the final slot with all decisions in order.
\<close>

fun run_events :: "slot_state \<Rightarrow> op_event list \<Rightarrow> slot_state \<times> op_decision list" where
  "run_events s [] = (s, [])"
| "run_events s (e # es) =
     (let d = transition s e; (s', ds) = run_events (dc_next_state d) es in (s', d # ds))"

section \<open>The abstract contract of a slot\<close>

text \<open>
  The phase of a slot and the contract's steps: what an accepted event may do to a phase,
  without identities, attempts, revisions or intents.
\<close>

definition slot_phase :: "slot_state \<Rightarrow> operation_state option" where
  "slot_phase s = map_option op_state (st_operation s)"

inductive phase_step :: "operation_state option \<Rightarrow> event_kind \<Rightarrow> operation_state \<Rightarrow> bool" where
  admit: "phase_step None (Admit c) Reserved"
| claim: "phase_step (Some Reserved) ClaimDispatch Dispatched"
| cancel_queued: "phase_step (Some Reserved) Cancel CancelledBeforeDispatch"
| restart_queued: "phase_step (Some Reserved) ServerRestarted CancelledBeforeDispatch"
| cancel_running: "phase_step (Some Dispatched) Cancel CancelRequested"
| restart_running: "p = Dispatched \<or> p = CancelRequested \<Longrightarrow>
    phase_step (Some p) ServerRestarted OpUnknown"
| failure: "open_phase p \<Longrightarrow> phase_step (Some p) (Failure f) OpUnknown"
| committed: "open_phase p \<Longrightarrow> phase_step (Some p) CommittedOperationReceipt OpUnknown"
| response: "open_phase p \<or> p = OpUnknown \<Longrightarrow> phase_step (Some p) AppliedResponse OpApplied"
| evidence: "open_phase p \<or> p = OpUnknown \<Longrightarrow>
    phase_step (Some p) (AppliedEvidence a) OpApplied"
| rejected_open: "open_phase p \<Longrightarrow> proof \<noteq> ReviewChildAbsent \<Longrightarrow>
    proof = QueuedCancellation \<longrightarrow> p = Reserved \<Longrightarrow>
    phase_step (Some p) (DefinitiveRejection proof) OpNotApplied"
| rejected_unknown: "proof \<noteq> QueuedCancellation \<Longrightarrow>
    phase_step (Some OpUnknown) (DefinitiveRejection proof) OpNotApplied"
| disproved: "proof \<noteq> QueuedCancellation \<Longrightarrow>
    phase_step (Some OpUnknown) (NonExecutionEvidence proof) OpNotApplied"

inductive_simps phase_step_absent [simp]: "phase_step None k p'"
inductive_simps phase_step_present: "phase_step (Some p) k p'"
inductive_cases phase_stepE: "phase_step p k p'"

text \<open>Phases only move forward: the rank of the phase after an accepted event is larger.\<close>

fun phase_rank :: "operation_state \<Rightarrow> nat" where
  "phase_rank Reserved = 1"
| "phase_rank Dispatched = 2"
| "phase_rank CancelRequested = 3"
| "phase_rank OpUnknown = 4"
| "phase_rank CancelledBeforeDispatch = 5"
| "phase_rank OpNotApplied = 5"
| "phase_rank OpApplied = 5"

definition slot_rank :: "slot_state \<Rightarrow> nat" where
  "slot_rank s = (case slot_phase s of None \<Rightarrow> 0 | Some p \<Rightarrow> phase_rank p)"

lemma phase_rank_le: "phase_rank p \<le> 5"
  by (cases p) auto

lemma open_phase_rank: "open_phase p \<Longrightarrow> phase_rank p \<le> 3"
  by (auto simp: open_phase_def)

lemma open_phase_simps [simp]:
  "open_phase Reserved" "open_phase Dispatched" "open_phase CancelRequested"
  "\<not> open_phase OpUnknown" "\<not> open_phase OpApplied" "\<not> open_phase OpNotApplied"
  "\<not> open_phase CancelledBeforeDispatch"
  by (simp_all add: open_phase_def)

lemma phase_step_rank:
  "phase_step p k p' \<Longrightarrow> (case p of None \<Rightarrow> 0 | Some q \<Rightarrow> phase_rank q) < phase_rank p'"
  by (erule phase_stepE) (auto simp: open_phase_def)

lemma phase_step_not_absorbed: "phase_step (Some p) k p' \<Longrightarrow> \<not> absorbed p k"
  by (cases p; cases k)
     (auto simp: phase_step_present absorbed_def contradicts_settled_def replayed_phase_def
        not_applied_phase_def)

lemma phase_step_kind:
  "phase_step (Some p) k p' \<Longrightarrow> k \<noteq> ReceiptMissing \<and> (\<forall>c. k \<noteq> Admit c)"
  by (auto simp: phase_step_present)

section \<open>What a decision changes\<close>

lemma decision_unchanged [simp]:
  "decision s kind intents False =
     \<lparr>dc_expected_revision = st_revision s, dc_next_state = s, dc_kind = kind,
      dc_intents = intents\<rparr>"
  by (simp add: decision_def)

lemma decision_changed:
  "decision s Transitioned intents True =
     (case checked_add (st_revision s) 1 of
        None \<Rightarrow> reject s RevisionExhausted
      | Some revision \<Rightarrow>
          \<lparr>dc_expected_revision = st_revision s, dc_next_state = s\<lparr>st_revision := revision\<rparr>,
           dc_kind = Transitioned, dc_intents = intents\<rparr>)"
  by (simp add: decision_def reject_def split: option.split)

lemma reject_simps [simp]:
  "dc_kind (reject s e) = Rejected e" "dc_next_state (reject s e) = s"
  "dc_intents (reject s e) = []" "dc_expected_revision (reject s e) = st_revision s"
  by (simp_all add: reject_def)

lemma no_effect_simps [simp]:
  "dc_kind (no_effect s) = NoEffect" "dc_next_state (no_effect s) = s"
  "dc_intents (no_effect s) = []" "dc_expected_revision (no_effect s) = st_revision s"
  by (simp_all add: no_effect_def)

text \<open>
  A decision is quiet when it leaves the slot alone and asks for no effect; every decision
  that is not an accepted transition is quiet.
\<close>

definition quiet :: "slot_state \<Rightarrow> op_decision \<Rightarrow> bool" where
  "quiet s d = (dc_kind d \<noteq> Transitioned \<and> dc_next_state d = s \<and> dc_intents d = []
     \<and> dc_expected_revision d = st_revision s)"

definition accepted :: "slot_state \<Rightarrow> operation \<Rightarrow> effect_intent \<Rightarrow> op_decision \<Rightarrow> bool" where
  "accepted s operation intent d =
     (\<exists>revision. checked_add (st_revision s) 1 = Some revision
        \<and> d = \<lparr>dc_expected_revision = st_revision s,
               dc_next_state = s\<lparr>st_revision := revision, st_operation := Some operation\<rparr>,
               dc_kind = Transitioned, dc_intents = [intent]\<rparr>)"

lemma quiet_reject [simp]: "quiet s (reject s e)"
  by (simp add: quiet_def)

lemma quiet_no_effect [simp]: "quiet s (no_effect s)"
  by (simp add: quiet_def)

lemma quiet_decision [simp]: "quiet s (decision s kind [] False) = (kind \<noteq> Transitioned)"
  by (simp add: quiet_def)

lemma with_operation_changed:
  "with_operation (decision s Transitioned [i] True) operation =
     (case checked_add (st_revision s) 1 of
        None \<Rightarrow> reject s RevisionExhausted
      | Some revision \<Rightarrow>
          \<lparr>dc_expected_revision = st_revision s,
           dc_next_state = s\<lparr>st_revision := revision, st_operation := Some operation\<rparr>,
           dc_kind = Transitioned, dc_intents = [i]\<rparr>)"
  by (simp add: decision_changed with_operation_def split: option.split)

lemma with_operation_quiet_or_accepted:
  "quiet s (with_operation (decision s Transitioned [i] True) operation)
   \<or> accepted s operation i (with_operation (decision s Transitioned [i] True) operation)"
  by (auto simp: with_operation_changed accepted_def split: option.split)

fun intent_event :: "effect_intent \<Rightarrow> event_id" where
  "intent_event (Reserve e _ _ _) = e"
| "intent_event (Dispatch e _ _) = e"
| "intent_event (RequestCancellation e _) = e"
| "intent_event (PersistOutcome e _ _) = e"
| "intent_event (ReconcileEvidence e _ _) = e"

fun intent_identity :: "effect_intent \<Rightarrow> operation_identity" where
  "intent_identity (Reserve _ i _ _) = i"
| "intent_identity (Dispatch _ i _) = i"
| "intent_identity (RequestCancellation _ i) = i"
| "intent_identity (PersistOutcome _ i _) = i"
| "intent_identity (ReconcileEvidence _ i _) = i"

fun intent_outcome :: "effect_intent \<Rightarrow> outcome option" where
  "intent_outcome (PersistOutcome _ _ out) = Some out"
| "intent_outcome (ReconcileEvidence _ _ out) = Some out"
| "intent_outcome _ = None"

fun is_dispatch :: "effect_intent \<Rightarrow> bool" where
  "is_dispatch (Dispatch _ _ _) = True"
| "is_dispatch _ = False"

text \<open>Only a missing process generation may be filled in; the rest of an attempt is fixed.\<close>

definition attempt_extends :: "attempt_identity \<Rightarrow> attempt_identity \<Rightarrow> bool" where
  "attempt_extends a b =
     (at_agent b = at_agent a \<and> at_account b = at_account a \<and> at_thread b = at_thread a
      \<and> at_epoch b = at_epoch a
      \<and> (at_generation a = None \<or> at_generation b = at_generation a))"

lemma attempt_extends_refl [simp]: "attempt_extends a a"
  by (simp add: attempt_extends_def)

lemma attempt_extends_trans:
  "attempt_extends a b \<Longrightarrow> attempt_extends b c \<Longrightarrow> attempt_extends a c"
  by (auto simp: attempt_extends_def)

text \<open>What an accepted event on a present operation produces.\<close>

definition applied_step :: "operation \<Rightarrow> op_event \<Rightarrow> operation \<Rightarrow> effect_intent \<Rightarrow> bool" where
  "applied_step operation event operation' i =
     (phase_step (Some (op_state operation)) (ev_kind event) (op_state operation')
      \<and> op_identity operation' = op_identity operation
      \<and> op_content operation' = op_content operation
      \<and> attempt_extends (op_attempt operation) (op_attempt operation')
      \<and> intent_event i = ev_id event
      \<and> intent_identity i = op_identity operation
      \<and> intent_outcome i = state_outcome (op_state operation')
      \<and> is_dispatch i = (ev_kind event = ClaimDispatch))"

lemmas apply_table = transition_apply_def Let_def phase_step_present

lemma transition_apply_sound:
  assumes "transition_apply operation event = Inr (operation', intents)"
  shows "\<exists>i. intents = [i] \<and> applied_step operation event operation' i"
proof (cases "ev_kind event")
  case ClaimDispatch
  then show ?thesis
    using assms by (auto simp: apply_table applied_step_def attempt_extends_def
        split: if_splits option.splits)
qed (use assms in \<open>cases "op_state operation",
       auto simp: apply_table applied_step_def split: if_splits\<close>)

lemma transition_apply_complete:
  assumes "phase_step (Some (op_state operation)) (ev_kind event) p'"
    and "matching_attempt operation event (ev_kind event = ClaimDispatch) = Inr ()"
  shows "\<exists>operation' i. transition_apply operation event = Inr (operation', [i])
           \<and> op_state operation' = p'"
  using assms
  by (cases "ev_kind event")
     (auto simp: apply_table open_phase_def matching_attempt_def split: option.splits if_splits)

lemma transition_present_cases:
  assumes "st_operation s = Some operation"
  shows "quiet s (transition s event) \<or>
    (\<exists>operation' i. accepted s operation' i (transition s event)
       \<and> applied_step operation event operation' i
       \<and> op_identity operation = ev_identity event
       \<and> ev_expected_revision event = st_revision s)"
proof -
  have step: "quiet s d \<or> (\<exists>operation' i. accepted s operation' i d
      \<and> applied_step operation event operation' i)"
    if "d = (case transition_apply operation event of
          Inl error \<Rightarrow> reject s error
        | Inr (next_operation, intents) \<Rightarrow>
            with_operation (decision s Transitioned intents True) next_operation)" for d
  proof (cases "transition_apply operation event")
    case (Inl error)
    with that show ?thesis by simp
  next
    case (Inr r)
    obtain operation' intents where r: "r = (operation', intents)"
      by (cases r)
    with Inr obtain i where "intents = [i]" "applied_step operation event operation' i"
      using transition_apply_sound by blast
    with that Inr r show ?thesis
      using with_operation_quiet_or_accepted [of s i operation'] by auto
  qed
  show ?thesis
    unfolding transition_def transition_present_def assms
    by (cases "ev_kind event"; cases "matching_attempt operation event (ev_kind event = ClaimDispatch)")
       (use step in \<open>auto simp: quiet_def\<close>)
qed

lemma transition_absent_cases:
  assumes "st_operation s = None"
  shows "quiet s (transition s event) \<or>
    (\<exists>content. ev_kind event = Admit content \<and> st_tombstone s = None
       \<and> st_revision s = 0 \<and> ev_expected_revision event = 0
       \<and> accepted s \<lparr>op_identity = ev_identity event, op_content = content,
                   op_attempt = ev_attempt event, op_state = Reserved\<rparr>
           (Reserve (ev_id event) (ev_identity event) content (ev_attempt event))
           (transition s event))"
proof (cases "st_tombstone s")
  case None
  show ?thesis
  proof (cases "ev_kind event")
    case (Admit content)
    with None assms show ?thesis
      using with_operation_quiet_or_accepted
      by (auto simp: transition_def transition_absent_def)
  qed (use None assms in \<open>auto simp: transition_def transition_absent_def quiet_def\<close>)
next
  case (Some t)
  with assms show ?thesis
    by (auto simp: transition_def transition_tombstoned_def quiet_def split: event_kind.split)
qed

lemma transition_quiet_or_transitioned:
  "dc_kind (transition s event) \<noteq> Transitioned \<Longrightarrow> quiet s (transition s event)"
  using transition_present_cases [of s _ event] transition_absent_cases [of s event]
  by (cases "st_operation s") (auto simp: accepted_def)

section \<open>Runs\<close>

definition run_intents :: "slot_state \<Rightarrow> op_event list \<Rightarrow> effect_intent list" where
  "run_intents s es = concat (map dc_intents (snd (run_events s es)))"

definition run_transitions :: "slot_state \<Rightarrow> op_event list \<Rightarrow> nat" where
  "run_transitions s es = length (filter (\<lambda>d. dc_kind d = Transitioned) (snd (run_events s es)))"

abbreviation run_final :: "slot_state \<Rightarrow> op_event list \<Rightarrow> slot_state" where
  "run_final s es \<equiv> fst (run_events s es)"

lemma run_final_Cons: "run_final s (e # es) = run_final (dc_next_state (transition s e)) es"
  by (simp add: Let_def split: prod.split)

lemma run_intents_simps [simp]:
  "run_intents s [] = []"
  "run_intents s (e # es) =
     dc_intents (transition s e) @ run_intents (dc_next_state (transition s e)) es"
  by (simp_all add: run_intents_def Let_def split: prod.split)

lemma run_transitions_simps [simp]:
  "run_transitions s [] = 0"
  "run_transitions s (e # es) =
     (if dc_kind (transition s e) = Transitioned then 1 else 0)
     + run_transitions (dc_next_state (transition s e)) es"
  by (simp_all add: run_transitions_def Let_def split: prod.split)

declare run_events.simps(2) [simp del]

lemma run_induct_invariant:
  assumes "I s" and "\<And>s e. I s \<Longrightarrow> I (dc_next_state (transition s e))"
  shows "I (run_final s es)"
  using assms(1)
proof (induction es arbitrary: s)
  case (Cons e es)
  then show ?case using assms(2) by (simp add: run_final_Cons)
qed simp

lemma transition_slot_rank:
  "slot_rank s + (if dc_kind (transition s e) = Transitioned then 1 else 0)
     \<le> slot_rank (dc_next_state (transition s e))"
proof (cases "st_operation s")
  case None
  with transition_absent_cases [of s e] show ?thesis
    by (auto simp: slot_rank_def slot_phase_def accepted_def quiet_def)
next
  case (Some operation)
  from transition_present_cases [OF Some, of e] show ?thesis
  proof (elim disjE exE conjE)
    fix operation' i
    assume "accepted s operation' i (transition s e)" "applied_step operation e operation' i"
    with Some show ?thesis
      using phase_step_rank [of "Some (op_state operation)" "ev_kind e" "op_state operation'"]
      by (auto simp: slot_rank_def slot_phase_def accepted_def applied_step_def)
  qed (simp add: quiet_def)
qed

lemma slot_rank_le: "slot_rank s \<le> 5"
  by (simp add: slot_rank_def phase_rank_le split: option.split)

lemma run_slot_rank: "slot_rank s + run_transitions s es \<le> slot_rank (run_final s es)"
proof (induction es arbitrary: s)
  case (Cons e es)
  show ?case
    using Cons.IH [of "dc_next_state (transition s e)"] transition_slot_rank [of s e]
    by (simp add: run_final_Cons)
qed simp

lemma transition_revision:
  "unat (st_revision (dc_next_state (transition s e)))
     = unat (st_revision s) + (if dc_kind (transition s e) = Transitioned then 1 else 0)"
proof (cases "dc_kind (transition s e) = Transitioned")
  case False
  then show ?thesis
    using transition_quiet_or_transitioned [of s e] by (simp add: quiet_def)
next
  case True
  then obtain operation' i where "accepted s operation' i (transition s e)"
    using transition_present_cases [of s _ e] transition_absent_cases [of s e]
    by (cases "st_operation s") (auto simp: quiet_def)
  with True show ?thesis
    by (auto simp: accepted_def dest: checked_add_unat)
qed

lemma run_revision:
  "unat (st_revision (run_final s es)) = unat (st_revision s) + run_transitions s es"
  by (induction es arbitrary: s) (simp_all add: run_final_Cons transition_revision)

lemma transition_settled_quiet:
  assumes "slot_phase s = Some p" "settled_phase p"
  shows "quiet s (transition s e)"
proof -
  from assms obtain operation where "st_operation s = Some operation" "op_state operation = p"
    by (auto simp: slot_phase_def)
  with assms(2) show ?thesis
    using transition_present_cases [of s operation e]
    by (auto simp: applied_step_def phase_step_present settled_phase_def)
qed

lemma transition_dispatch:
  "length (filter is_dispatch (dc_intents (transition s e)))
     \<le> slot_rank (dc_next_state (transition s e)) - max 1 (slot_rank s)
   \<and> (2 \<le> slot_rank s \<longrightarrow> filter is_dispatch (dc_intents (transition s e)) = [])"
proof (cases "st_operation s")
  case None
  with transition_absent_cases [of s e] show ?thesis
    by (auto simp: slot_rank_def slot_phase_def accepted_def quiet_def)
next
  case (Some operation)
  from transition_present_cases [OF Some, of e] show ?thesis
  proof (elim disjE exE conjE)
    fix operation' i
    assume acc: "accepted s operation' i (transition s e)"
      and step: "applied_step operation e operation' i"
    show ?thesis
    proof (cases "ev_kind e = ClaimDispatch")
      case True
      with step have "op_state operation = Reserved" "op_state operation' = Dispatched"
        by (auto simp: applied_step_def phase_step_present)
      with acc Some show ?thesis
        by (auto simp: slot_rank_def slot_phase_def accepted_def)
    next
      case False
      with acc step show ?thesis
        by (auto simp: applied_step_def accepted_def)
    qed
  qed (simp add: quiet_def)
qed

lemma run_no_dispatch: "2 \<le> slot_rank s \<Longrightarrow> filter is_dispatch (run_intents s es) = []"
proof (induction es arbitrary: s)
  case (Cons e es)
  have "2 \<le> slot_rank (dc_next_state (transition s e))"
    using Cons.prems transition_slot_rank [of s e] by (simp split: if_splits)
  then show ?case
    using Cons transition_dispatch [of s e] by simp
qed simp

text \<open>The evidence that can move a dispatched operation to \<open>NotApplied\<close>.\<close>

fun non_execution_kind :: "event_kind \<Rightarrow> bool" where
  "non_execution_kind (DefinitiveRejection p) = (p \<noteq> QueuedCancellation)"
| "non_execution_kind (NonExecutionEvidence p) = (p \<noteq> QueuedCancellation)"
| "non_execution_kind _ = False"

fun applied_kind :: "event_kind \<Rightarrow> bool" where
  "applied_kind AppliedResponse = True"
| "applied_kind (AppliedEvidence _) = True"
| "applied_kind _ = False"

definition dispatched_phase :: "operation_state \<Rightarrow> bool" where
  "dispatched_phase p = (p = Dispatched \<or> p = CancelRequested \<or> p = OpUnknown)"

lemma phase_step_from_dispatched:
  assumes "phase_step (Some p) k p'" "dispatched_phase p"
  shows "dispatched_phase p' \<or> p' = OpApplied \<and> applied_kind k
           \<or> p' = OpNotApplied \<and> non_execution_kind k"
  using assms by (auto simp: phase_step_present dispatched_phase_def)

lemma transition_phase_cases:
  "quiet s (transition s e) \<or>
   (\<exists>p'. slot_phase (dc_next_state (transition s e)) = Some p'
      \<and> phase_step (slot_phase s) (ev_kind e) p')"
proof (cases "st_operation s")
  case None
  with transition_absent_cases [of s e] show ?thesis
    by (auto simp: slot_phase_def accepted_def)
next
  case (Some operation)
  with transition_present_cases [OF Some, of e] show ?thesis
    by (auto simp: slot_phase_def accepted_def applied_step_def)
qed

lemma run_settled:
  "slot_phase s = Some p \<Longrightarrow> settled_phase p \<Longrightarrow> run_final s es = s \<and> run_intents s es = []"
proof (induction es)
  case (Cons e es)
  with transition_settled_quiet [of s p e] show ?case
    by (simp add: run_final_Cons quiet_def)
qed simp

lemma dispatched_run_phase:
  assumes "slot_phase s = Some p" "dispatched_phase p"
  shows "\<exists>p'. slot_phase (run_final s es) = Some p' \<and>
    (dispatched_phase p' \<or> p' = OpApplied \<and> (\<exists>e\<in>set es. applied_kind (ev_kind e))
     \<or> p' = OpNotApplied \<and> (\<exists>e\<in>set es. non_execution_kind (ev_kind e)))"
  using assms
proof (induction es arbitrary: s p)
  case (Cons e es)
  let ?s' = "dc_next_state (transition s e)"
  from transition_phase_cases [of s e]
  consider "quiet s (transition s e)"
    | p' where "slot_phase ?s' = Some p'" "phase_step (slot_phase s) (ev_kind e) p'"
    by blast
  then show ?case
  proof cases
    case 1
    then have "?s' = s" by (simp add: quiet_def)
    with Cons show ?thesis by (fastforce simp: run_final_Cons)
  next
    case 2
    from phase_step_from_dispatched [OF 2(2)[unfolded Cons.prems(1)] Cons.prems(2)]
    show ?thesis
    proof (elim disjE conjE)
      assume "dispatched_phase p'"
      with Cons.IH [OF 2(1)] show ?thesis by (auto simp: run_final_Cons)
    next
      assume "p' = OpApplied" "applied_kind (ev_kind e)"
      with 2(1) run_settled [of ?s' p' es] show ?thesis
        by (auto simp: run_final_Cons settled_phase_def)
    next
      assume "p' = OpNotApplied" "non_execution_kind (ev_kind e)"
      with 2(1) run_settled [of ?s' p' es] show ?thesis
        by (auto simp: run_final_Cons settled_phase_def)
    qed
  qed
qed simp

lemma transition_keeps_operation:
  assumes "st_operation s = Some operation"
  shows "\<exists>operation'. st_operation (dc_next_state (transition s e)) = Some operation'
     \<and> op_identity operation' = op_identity operation
     \<and> op_content operation' = op_content operation
     \<and> attempt_extends (op_attempt operation) (op_attempt operation')"
  using transition_present_cases [OF assms, of e] assms
  by (auto simp: quiet_def accepted_def applied_step_def)

text \<open>The guards an event has to pass before the phase decides.\<close>

definition event_fits :: "slot_state \<Rightarrow> op_event \<Rightarrow> bool" where
  "event_fits s e =
     (ev_expected_revision e = st_revision s \<and> st_revision s \<noteq> - 1 \<and>
      (case st_operation s of
         None \<Rightarrow> st_tombstone s = None \<and> st_revision s = 0
       | Some operation \<Rightarrow> op_identity operation = ev_identity e
           \<and> is_ok (matching_attempt operation e (ev_kind e = ClaimDispatch))))"

lemma is_ok_unit: "is_ok r \<longleftrightarrow> r = Inr ()"
  by (cases r) simp_all

lemma accepted_event_fits:
  assumes "st_operation s = Some operation" "dc_kind (transition s e) = Transitioned"
  shows "event_fits s e"
proof -
  have "is_ok (matching_attempt operation e (ev_kind e = ClaimDispatch))"
    using assms by (cases "ev_kind e")
      (auto simp: transition_def transition_present_def split: sum.splits if_splits)
  moreover from assms transition_present_cases [OF assms(1), of e]
  have "op_identity operation = ev_identity e" "ev_expected_revision e = st_revision s"
    "\<exists>r. checked_add (st_revision s) 1 = Some r"
    by (auto simp: quiet_def accepted_def)
  ultimately show ?thesis
    using assms(1) checked_add_one_None_iff [of "st_revision s"] by (auto simp: event_fits_def)
qed

lemma fitting_event_accepted:
  assumes "st_operation s = Some operation" "event_fits s e"
    and step: "phase_step (Some (op_state operation)) (ev_kind e) p'"
  shows "dc_kind (transition s e) = Transitioned"
    "slot_phase (dc_next_state (transition s e)) = Some p'"
proof -
  from assms have m: "matching_attempt operation e (ev_kind e = ClaimDispatch) = Inr ()"
    by (simp add: event_fits_def is_ok_unit)
  from transition_apply_complete [OF step m] obtain operation' i
    where ta: "transition_apply operation e = Inr (operation', [i])" "op_state operation' = p'"
    by blast
  obtain r where r: "checked_add (st_revision s) 1 = Some r"
    using assms checked_add_one_None_iff [of "st_revision s"] by (auto simp: event_fits_def)
  have "transition s e = with_operation (decision s Transitioned [i] True) operation'"
    using assms phase_step_kind [OF step] phase_step_not_absorbed [OF step] ta m
    by (cases "ev_kind e") (simp_all add: transition_def transition_present_def event_fits_def)
  then show "dc_kind (transition s e) = Transitioned"
    "slot_phase (dc_next_state (transition s e)) = Some p'"
    using r ta by (simp_all add: with_operation_changed slot_phase_def)
qed

section \<open>Events a caller builds from the slot itself\<close>

text \<open>
  Callers that hold a snapshot address it with its own revision, identity and attempt, so only
  the phase decides.
\<close>

definition own_event :: "event_id \<Rightarrow> slot_state \<Rightarrow> operation \<Rightarrow> event_kind \<Rightarrow> op_event" where
  "own_event eid s operation kind =
     \<lparr>ev_id = eid, ev_expected_revision = st_revision s, ev_identity = op_identity operation,
      ev_attempt = op_attempt operation, ev_kind = kind\<rparr>"

lemma own_event_simps [simp]:
  "ev_kind (own_event eid s operation kind) = kind"
  "ev_id (own_event eid s operation kind) = eid"
  "ev_identity (own_event eid s operation kind) = op_identity operation"
  "ev_attempt (own_event eid s operation kind) = op_attempt operation"
  "ev_expected_revision (own_event eid s operation kind) = st_revision s"
  by (simp_all add: own_event_def)

lemma own_attempt_matches: "matching_attempt operation (own_event eid s operation kind) b = Inr ()"
  by (simp add: matching_attempt_def Let_def split: option.split)

lemma own_event_fits:
  "st_operation s = Some operation \<Longrightarrow> st_revision s \<noteq> - 1 \<Longrightarrow>
     event_fits s (own_event eid s operation kind)"
  by (simp add: event_fits_def own_attempt_matches)

lemma own_event_absorbed:
  assumes "st_operation s = Some operation" "absorbed (op_state operation) kind"
  shows "transition s (own_event eid s operation kind) = no_effect s"
  using assms
  by (cases kind) (simp_all add: transition_def transition_present_def own_attempt_matches
      absorbed_def contradicts_settled_def replayed_phase_def)

lemma own_event_cases:
  assumes "st_operation s = Some operation" "\<forall>c. kind \<noteq> Admit c" "kind \<noteq> ReceiptMissing"
  obtains (absorbed) "absorbed (op_state operation) kind"
      "transition s (own_event eid s operation kind) = no_effect s"
  | (rejected) error where "transition s (own_event eid s operation kind) = reject s error"
      "\<And>p'. phase_step (Some (op_state operation)) kind p' \<Longrightarrow> st_revision s = - 1"
  | (step) operation' i where "accepted s operation' i (transition s (own_event eid s operation kind))"
      "applied_step operation (own_event eid s operation kind) operation' i"
proof (cases "absorbed (op_state operation) kind")
  case True
  with own_event_absorbed [OF assms(1)] absorbed show ?thesis by blast
next
  case False
  let ?e = "own_event eid s operation kind"
  have t: "transition s ?e = (case transition_apply operation ?e of
        Inl error \<Rightarrow> reject s error
      | Inr (next_operation, intents) \<Rightarrow>
          with_operation (decision s Transitioned intents True) next_operation)"
    using assms False
    by (cases kind) (simp_all add: transition_def transition_present_def own_attempt_matches)
  show ?thesis
  proof (cases "quiet s (transition s ?e)")
    case True
    then obtain error where e: "transition s ?e = reject s error"
      using t transition_apply_sound [of operation ?e]
      by (cases "transition_apply operation ?e")
         (fastforce simp: with_operation_changed quiet_def split: option.splits)+
    with True assms(1) show ?thesis
      using rejected [OF e] fitting_event_accepted(1) [OF assms(1), of ?e]
        own_event_fits [OF assms(1), of eid kind]
      by (auto simp: quiet_def)
  next
    case False
    with step transition_present_cases [OF assms(1), of ?e] show ?thesis by blast
  qed
qed

section \<open>Properties of a slot\<close>

text \<open>A sample request, used to evaluate the properties on concrete runs.\<close>

definition sample_identity :: operation_identity where
  "sample_identity = \<lparr>oi_scope = ToolRequest ''acct'' ''thread'', oi_request_id = ''call-1''\<rparr>"

definition sample_attempt :: attempt_identity where
  "sample_attempt = \<lparr>at_agent = ''agent'', at_account = ''acct'', at_thread = ''thread'',
     at_epoch = 1, at_generation = None\<rparr>"

definition sample_event :: "u64 \<Rightarrow> event_kind \<Rightarrow> op_event" where
  "sample_event revision kind = \<lparr>ev_id = ''event'', ev_expected_revision = revision,
     ev_identity = sample_identity, ev_attempt = sample_attempt, ev_kind = kind\<rparr>"

definition sample_slot :: "u64 \<Rightarrow> operation_state \<Rightarrow> slot_state" where
  "sample_slot revision p = \<lparr>st_revision = revision,
     st_operation = Some \<lparr>op_identity = sample_identity, op_content = [1, 2, 3],
       op_attempt = sample_attempt, op_state = p\<rparr>, st_tombstone = None\<rparr>"

lemma sample_slot_phase [simp]: "slot_phase (sample_slot revision p) = Some p"
  by (simp add: slot_phase_def sample_slot_def)

text \<open>C1: For one slot, any sequence of events makes the caller dispatch the request to the
  provider at most once, whatever the slot it starts from.\<close>

theorem dispatched_at_most_once: "length (filter is_dispatch (run_intents s es)) \<le> 1"
proof (induction es arbitrary: s)
  case (Cons e es)
  let ?s' = "dc_next_state (transition s e)"
  show ?case
  proof (cases "filter is_dispatch (dc_intents (transition s e)) = []")
    case True
    with Cons.IH [of ?s'] show ?thesis by simp
  next
    case False
    then have "0 < length (filter is_dispatch (dc_intents (transition s e)))" by simp
    with transition_dispatch [of s e] have "2 \<le> slot_rank ?s'" by linarith
    from run_no_dispatch [OF this]
    have "length (filter is_dispatch (run_intents s (e # es)))
        = length (filter is_dispatch (dc_intents (transition s e)))"
      by simp
    also have "\<dots> \<le> 1"
    proof (cases "quiet s (transition s e)")
      case False
      then have "length (dc_intents (transition s e)) = 1"
        using transition_present_cases [of s _ e] transition_absent_cases [of s e]
        by (cases "st_operation s") (auto simp: accepted_def)
      then show ?thesis using length_filter_le [of is_dispatch "dc_intents (transition s e)"] by simp
    qed (simp add: quiet_def)
    finally show ?thesis .
  qed
qed simp

text \<open>C2: The transition function implements the abstract contract exactly: it accepts an
  event and moves the slot to phase \<open>p'\<close> if and only if the event passes the identity,
  attempt and revision guards and the contract has a step from the slot's phase to \<open>p'\<close>
  for that event.\<close>

theorem transition_refines_contract:
  "dc_kind (transition s e) = Transitioned
     \<and> slot_phase (dc_next_state (transition s e)) = Some p'
   \<longleftrightarrow> event_fits s e \<and> phase_step (slot_phase s) (ev_kind e) p'"
proof (cases "st_operation s")
  case None
  then show ?thesis
    using checked_add_one_None_iff [of "st_revision s"] transition_absent_cases [of s e]
    by (cases "ev_kind e")
       (auto simp: quiet_def event_fits_def slot_phase_def accepted_def transition_def
          transition_absent_def with_operation_changed split: option.splits)
next
  case (Some operation)
  show ?thesis
  proof
    assume l: "dc_kind (transition s e) = Transitioned
     \<and> slot_phase (dc_next_state (transition s e)) = Some p'"
    with accepted_event_fits [OF Some] transition_phase_cases [of s e]
    show "event_fits s e \<and> phase_step (slot_phase s) (ev_kind e) p'"
      by (auto simp: quiet_def)
  next
    assume "event_fits s e \<and> phase_step (slot_phase s) (ev_kind e) p'"
    with fitting_event_accepted [OF Some, of e p'] Some
    show "dc_kind (transition s e) = Transitioned
     \<and> slot_phase (dc_next_state (transition s e)) = Some p'"
      by (simp add: slot_phase_def)
  qed
qed

text \<open>A decision either leaves the slot unchanged and asks for nothing, or it was made
  against the slot's current revision, advances the revision by exactly one, stores one
  operation for the event's identity and asks for exactly one effect, which carries the
  event's id, that identity and the outcome of the stored phase.\<close>

lemma transition_decision_shape:
  "quiet s (transition s e) \<or>
   (\<exists>operation' i. accepted s operation' i (transition s e)
      \<and> ev_expected_revision e = st_revision s
      \<and> op_identity operation' = ev_identity e
      \<and> intent_event i = ev_id e \<and> intent_identity i = ev_identity e
      \<and> intent_outcome i = state_outcome (op_state operation'))"
proof (cases "st_operation s")
  case None
  with transition_absent_cases [of s e] show ?thesis by fastforce
next
  case (Some operation)
  with transition_present_cases [OF Some, of e] show ?thesis
    by (auto simp: applied_step_def)
qed

text \<open>C6: A settled slot (applied, not applied, or cancelled before dispatch) is final: no
  sequence of events changes it or causes an effect.\<close>

theorem settled_slot_is_final:
  assumes "slot_phase s = Some p" "settled_phase p"
  shows "run_final s es = s \<and> run_intents s es = []"
  using assms by (rule run_settled)

theorem settled_slot_is_final_witness:
  "run_final (sample_slot 3 OpApplied)
     [sample_event 3 ClaimDispatch, sample_event 3 (Failure Timeout)] = sample_slot 3 OpApplied"
  using settled_slot_is_final [of "sample_slot 3 OpApplied" OpApplied]
  by (simp add: settled_phase_def)

text \<open>C7: Once a request was dispatched its slot settles only on positive evidence: it stays
  unsettled, or it becomes applied after an event that proves application, or it becomes
  not applied after an event that proves non-execution. Timeouts, lost connections, process
  loss, restarts, cancellations and missing receipts settle nothing.\<close>

theorem dispatched_settles_on_evidence_only:
  assumes "slot_phase s = Some p" "dispatched_phase p"
  shows "\<exists>p'. slot_phase (run_final s es) = Some p' \<and>
    (dispatched_phase p' \<or> p' = OpApplied \<and> (\<exists>e\<in>set es. applied_kind (ev_kind e))
     \<or> p' = OpNotApplied \<and> (\<exists>e\<in>set es. non_execution_kind (ev_kind e)))"
  using assms by (rule dispatched_run_phase)

theorem dispatched_settles_on_evidence_only_witness:
  "\<exists>p'. slot_phase (run_final (sample_slot 2 Dispatched)
      [sample_event 2 (Failure Timeout), sample_event 3 ServerRestarted]) = Some p'
     \<and> dispatched_phase p'"
  using dispatched_settles_on_evidence_only [of "sample_slot 2 Dispatched" Dispatched
      "[sample_event 2 (Failure Timeout), sample_event 3 ServerRestarted]"]
  by (auto simp: dispatched_phase_def sample_event_def)

text \<open>C8: The revision of a slot counts its accepted transitions, and there are at most five
  of them in the life of a slot; so a slot that starts empty at revision zero never runs out
  of revisions.\<close>

theorem slot_transitions_bounded:
  "unat (st_revision (run_final s es)) = unat (st_revision s) + run_transitions s es
   \<and> slot_rank s + run_transitions s es \<le> 5"
  using run_slot_rank [of s es] slot_rank_le [of "run_final s es"] by (simp add: run_revision)

text \<open>The identity and the content of an operation never change after its reservation, and
  its attempt only ever gains the process generation that claimed it.\<close>

lemma operation_identity_is_immutable:
  assumes "st_operation s = Some operation"
  shows "\<exists>operation'. st_operation (run_final s es) = Some operation'
     \<and> op_identity operation' = op_identity operation
     \<and> op_content operation' = op_content operation
     \<and> attempt_extends (op_attempt operation) (op_attempt operation')"
  (is "?I (run_final s es)")
proof (rule run_induct_invariant [of ?I])
  show "?I s" using assms by simp
next
  fix s e
  assume "?I s"
  then obtain operation' where op': "st_operation s = Some operation'"
    "op_identity operation' = op_identity operation"
    "op_content operation' = op_content operation"
    "attempt_extends (op_attempt operation) (op_attempt operation')"
    by blast
  from transition_keeps_operation [OF op'(1), of e] op'(2-)
  show "?I (dc_next_state (transition s e))"
    by (auto intro: attempt_extends_trans)
qed

definition occupant :: "slot_state \<Rightarrow> (operation_identity \<times> content_fingerprint) option" where
  "occupant s =
     (case st_operation s of
        Some operation \<Rightarrow> Some (op_identity operation, op_content operation)
      | None \<Rightarrow> map_option (\<lambda>t. (ts_identity t, ts_content t)) (st_tombstone s))"

text \<open>Admitting the same identity again never reserves twice: the same content returns the
  existing operation and different content is rejected, in any phase of the operation and
  for a compacted slot as well, and the slot stays as it is.\<close>

lemma repeated_admission:
  assumes "occupant s = Some (ev_identity e, content)" "ev_kind e = Admit content'"
  shows "dc_kind (transition s e)
           = (if content' = content then ReturnExisting else Rejected DifferentContent)
         \<and> quiet s (transition s e)"
proof (cases "st_operation s")
  case (Some operation)
  with assms show ?thesis
    by (simp add: occupant_def transition_def transition_present_def quiet_def)
next
  case None
  with assms obtain t where "st_tombstone s = Some t" "ts_identity t = ev_identity e"
    "ts_content t = content"
    by (auto simp: occupant_def)
  with None assms show ?thesis
    by (simp add: transition_def transition_tombstoned_def quiet_def)
qed

lemma transition_tombstoned_kind:
  "dc_kind (transition_tombstoned s t e) = Rejected ConflictingEvidence \<Longrightarrow> ev_kind e = ReceiptMissing"
  by (cases "ev_kind e") (auto simp: transition_tombstoned_def split: if_splits)

lemma with_operation_kind:
  "dc_kind (with_operation (decision s Transitioned intents True) operation) \<noteq> Rejected ConflictingEvidence"
  by (simp add: with_operation_def decision_changed split: option.split)

lemma transition_absent_kind:
  "dc_kind (transition_absent s e) \<noteq> Rejected ConflictingEvidence"
  by (cases "ev_kind e") (simp_all add: transition_absent_def with_operation_kind)

lemma transition_apply_conflict:
  "transition_apply operation e = Inl ConflictingEvidence \<Longrightarrow>
     op_state operation = OpApplied \<and> (\<exists>p. ev_kind e = NonExecutionEvidence p)"
  by (cases "ev_kind e")
     (auto simp: transition_apply_def Let_def split: if_splits option.splits)

lemma matching_attempt_conflict: "matching_attempt operation e b \<noteq> Inl ConflictingEvidence"
  by (simp add: matching_attempt_def Let_def split: option.split)

lemma transition_present_conflict:
  assumes "dc_kind (transition_present s operation e) = Rejected ConflictingEvidence"
    and "ev_kind e \<noteq> ReceiptMissing"
  shows "transition_apply operation e = Inl ConflictingEvidence
    \<and> \<not> absorbed (op_state operation) (ev_kind e)"
proof (cases "matching_attempt operation e (ev_kind e = ClaimDispatch)")
  case (Inl error)
  with assms show ?thesis
    using matching_attempt_conflict [of operation e "ev_kind e = ClaimDispatch"]
    by (cases "ev_kind e") (auto simp: transition_present_def split: if_splits)
next
  case (Inr u)
  then show ?thesis
    using assms with_operation_kind [of s]
    by (cases "ev_kind e"; cases "transition_apply operation e")
       (auto simp: transition_present_def split: if_splits)
qed

text \<open>Conflicting evidence is reported only for a missing receipt of a settled operation. In
  particular the arm of the final match that answers non-execution evidence on an applied
  operation with \<open>ConflictingEvidence\<close> is never reached; such evidence is absorbed.\<close>

lemma conflicting_evidence_is_missing_receipt:
  assumes "dc_kind (transition s e) = Rejected ConflictingEvidence"
  shows "ev_kind e = ReceiptMissing"
proof (cases "st_operation s")
  case None
  with assms show ?thesis
    using transition_absent_kind [of s e] transition_tombstoned_kind [of s _ e]
    by (auto simp: transition_def split: option.splits)
next
  case (Some operation)
  show ?thesis
  proof (rule ccontr)
    assume "ev_kind e \<noteq> ReceiptMissing"
    with assms Some have "transition_apply operation e = Inl ConflictingEvidence"
      and "\<not> absorbed (op_state operation) (ev_kind e)"
      using transition_present_conflict [of s operation e] by (auto simp: transition_def)
    then show False
      using transition_apply_conflict [of operation e]
      by (auto simp: absorbed_def contradicts_settled_def)
  qed
qed

end
