(* ===== verification/Request_Reservation.thy ===== *)
theory Request_Reservation
  imports Operation_Lifecycle
begin

text \<open>
  Admission of tool requests, \<open>operations/src/reservation.rs\<close>: the pure decision, the storage
  interface \<open>RequestStore\<close> as the locale \<open>request_store\<close>, and the load/decide/apply boundary
  \<open>reserve_in_store\<close>. The interface is interpreted on the in-memory store of
  \<open>operations/tests/reservation.rs\<close>, which injects failures before and after a commit.
\<close>

section \<open>The decision\<close>

record request_alias =
  ra_agent :: agent_id
  ra_alias :: string
  ra_request :: op_request_id

record reservation_input =
  ri_identity :: operation_identity
  ri_alias_target :: op_request_id
  ri_content :: content_fingerprint
  ri_attempt :: attempt_identity
  ri_call_id :: string
  ri_alias_prefix :: string
  ri_request_alias :: "string option"

definition aliases :: "reservation_input \<Rightarrow> request_alias list" where
  "aliases input =
     (let alias = (\<lambda>name. \<lparr>ra_agent = at_agent (ri_attempt input), ra_alias = name,
                           ra_request = ri_alias_target input\<rparr>)
      in [alias (ri_call_id input), alias (ri_alias_prefix input @ ri_call_id input)]
         @ (case ri_request_alias input of
              Some name \<Rightarrow> if name \<noteq> [] then [alias name] else []
            | None \<Rightarrow> []))"

record request_snapshot =
  rs_existing :: "slot_state option"

datatype request_write_intent = SaveRequest slot_state | InsertAlias request_alias

datatype reservation_decision =
    RdAdmitted slot_state "request_write_intent list"
  | RdReturnExisting slot_state "request_write_intent list"
  | RdRejected slot_state transition_error

definition reservation_event ::
  "slot_state \<Rightarrow> operation_identity \<Rightarrow> attempt_identity \<Rightarrow> content_fingerprint \<Rightarrow> op_event" where
  "reservation_event s identity attempt content =
     \<lparr>ev_id = ''tool-request-reservation'', ev_expected_revision = st_revision s,
      ev_identity = identity, ev_attempt = attempt, ev_kind = Admit content\<rparr>"

definition decide_new_reservation :: "slot_state \<Rightarrow> reservation_input \<Rightarrow> reservation_decision" where
  "decide_new_reservation s input =
     (let d = transition s (reservation_event s (ri_identity input) (ri_attempt input)
                (ri_content input))
      in case dc_kind d of
        Transitioned \<Rightarrow>
          RdAdmitted (dc_next_state d)
            (SaveRequest (dc_next_state d) # map InsertAlias (aliases input))
      | Rejected error \<Rightarrow> RdRejected (dc_next_state d) error
      | _ \<Rightarrow> RdRejected (dc_next_state d) InvalidTransition)"

definition decide_reservation :: "request_snapshot \<Rightarrow> reservation_input \<Rightarrow> reservation_decision"
where
  "decide_reservation snapshot input =
     (case rs_existing snapshot of
        None \<Rightarrow> decide_new_reservation (empty_slot 0) input
      | Some s \<Rightarrow>
          (case st_operation s of
             None \<Rightarrow> RdRejected s OperationMissing
           | Some operation \<Rightarrow>
               (case dc_kind (transition s (reservation_event s (op_identity operation)
                        (op_attempt operation) (ri_content input))) of
                  ReturnExisting \<Rightarrow> RdReturnExisting s (map InsertAlias (aliases input))
                | Rejected error \<Rightarrow> RdRejected s error
                | _ \<Rightarrow> RdRejected s InvalidTransition)))"

text \<open>\<open>reserve_in_store\<close> for a store with the two operations of the trait.\<close>

definition reserve_in_store ::
  "('s \<Rightarrow> op_request_id \<Rightarrow> ('e + request_snapshot) \<times> 's) \<Rightarrow>
   ('s \<Rightarrow> request_write_intent list \<Rightarrow> ('e + unit) \<times> 's) \<Rightarrow>
   's \<Rightarrow> reservation_input \<Rightarrow> ('e + reservation_decision) \<times> 's" where
  "reserve_in_store load_snapshot apply_intents store input =
     (case load_snapshot store (oi_request_id (ri_identity input)) of
        (Inl e, store) \<Rightarrow> (Inl e, store)
      | (Inr snapshot, store) \<Rightarrow>
          (let d = decide_reservation snapshot input;
               write = (\<lambda>intents. case apply_intents store intents of
                          (Inl e, store) \<Rightarrow> (Inl e, store)
                        | (Inr _, store) \<Rightarrow> (Inr d, store))
           in case d of
                RdAdmitted _ intents \<Rightarrow> write intents
              | RdReturnExisting _ intents \<Rightarrow> write intents
              | RdRejected _ _ \<Rightarrow> (Inr d, store)))"

text \<open>A caller that repeats the same reservation, with every result it gets.\<close>

fun retry_reserve ::
  "('s \<Rightarrow> reservation_input \<Rightarrow> ('e + reservation_decision) \<times> 's) \<Rightarrow>
   nat \<Rightarrow> 's \<Rightarrow> reservation_input \<Rightarrow> ('e + reservation_decision) list \<times> 's" where
  "retry_reserve reserve 0 store input = ([], store)"
| "retry_reserve reserve (Suc n) store input =
     (let (r, store1) = reserve store input;
          (rs, store2) = retry_reserve reserve n store1 input
      in (r # rs, store2))"

section \<open>What the decision is\<close>

fun decided_slot :: "reservation_decision \<Rightarrow> slot_state option" where
  "decided_slot (RdAdmitted s _) = Some s"
| "decided_slot (RdReturnExisting s _) = Some s"
| "decided_slot (RdRejected _ _) = None"

fun admits :: "'e + reservation_decision \<Rightarrow> bool" where
  "admits (Inr (RdAdmitted _ _)) = True"
| "admits _ = False"

text \<open>The slot a first admission saves.\<close>

definition admitted_slot :: "reservation_input \<Rightarrow> slot_state" where
  "admitted_slot input =
     \<lparr>st_revision = 1,
      st_operation = Some \<lparr>op_identity = ri_identity input, op_content = ri_content input,
                           op_attempt = ri_attempt input, op_state = Reserved\<rparr>,
      st_tombstone = None\<rparr>"

lemma checked_add_0_1 [simp]: "checked_add (0 :: u64) 1 = Some 1"
  by (simp add: checked_add_def)

lemma decide_new_reservation_empty:
  "decide_new_reservation (empty_slot 0) input =
     RdAdmitted (admitted_slot input)
       (SaveRequest (admitted_slot input) # map InsertAlias (aliases input))"
  by (simp add: decide_new_reservation_def transition_def transition_absent_def empty_slot_def
      reservation_event_def with_operation_changed admitted_slot_def)

lemma decide_reservation_existing:
  assumes "st_operation s = Some operation"
  shows "decide_reservation \<lparr>rs_existing = Some s\<rparr> input =
    (if op_content operation = ri_content input
     then RdReturnExisting s (map InsertAlias (aliases input))
     else RdRejected s DifferentContent)"
  using assms by (simp add: decide_reservation_def transition_def transition_present_def
      reservation_event_def)

section \<open>The storage interface\<close>

text \<open>What saving intents does to the requests a store holds.\<close>

fun save_intent :: "request_write_intent \<Rightarrow> (op_request_id \<rightharpoonup> slot_state) \<Rightarrow> (op_request_id \<rightharpoonup> slot_state)"
where
  "save_intent (SaveRequest s) v =
     (case st_operation s of
        Some operation \<Rightarrow> v(oi_request_id (op_identity operation) \<mapsto> s)
      | None \<Rightarrow> v)"
| "save_intent (InsertAlias _) v = v"

abbreviation saved :: "request_write_intent list \<Rightarrow> (op_request_id \<rightharpoonup> slot_state) \<Rightarrow>
  (op_request_id \<rightharpoonup> slot_state)" where
  "saved intents \<equiv> fold save_intent intents"

fun intent_storable :: "request_write_intent \<Rightarrow> bool" where
  "intent_storable (SaveRequest s) = (st_operation s \<noteq> None)"
| "intent_storable (InsertAlias _) = True"

lemma saved_aliases [simp]: "saved (map InsertAlias as) v = v"
  by (induction as arbitrary: v) simp_all

lemma storable_aliases [simp]: "list_all intent_storable (map InsertAlias as)"
  by (simp add: list_all_iff)

text \<open>
  A store loads a request without changing what it holds and applies storable intents
  atomically: after a failure either none or all of them are in effect.
\<close>

locale request_store =
  fixes load_snapshot :: "'s \<Rightarrow> op_request_id \<Rightarrow> ('e + request_snapshot) \<times> 's"
    and apply_intents :: "'s \<Rightarrow> request_write_intent list \<Rightarrow> ('e + unit) \<times> 's"
    and view :: "'s \<Rightarrow> op_request_id \<rightharpoonup> slot_state"
  assumes load_view: "load_snapshot s r = (res, s') \<Longrightarrow> view s' = view s"
    and load_result: "load_snapshot s r = (Inr snapshot, s') \<Longrightarrow> rs_existing snapshot = view s r"
    and apply_ok: "list_all intent_storable intents \<Longrightarrow>
      apply_intents s intents = (Inr u, s') \<Longrightarrow> view s' = saved intents (view s)"
    and apply_failed: "list_all intent_storable intents \<Longrightarrow>
      apply_intents s intents = (Inl e, s') \<Longrightarrow>
      view s' = view s \<or> view s' = saved intents (view s)"
begin

lemma reserve_absent:
  assumes "view s (oi_request_id (ri_identity input)) = None"
    and "reserve_in_store load_snapshot apply_intents s input = (res, s')"
  shows "(view s' = view s \<and> (\<exists>e. res = Inl e))
    \<or> (view s' = (view s)(oi_request_id (ri_identity input) \<mapsto> admitted_slot input)
       \<and> (\<forall>d. res = Inr d \<longrightarrow> d = RdAdmitted (admitted_slot input)
            (SaveRequest (admitted_slot input) # map InsertAlias (aliases input))))"
proof -
  let ?r = "oi_request_id (ri_identity input)"
  obtain lr s1 where l: "load_snapshot s ?r = (lr, s1)" by (cases "load_snapshot s ?r")
  note v = load_view [OF l]
  show ?thesis
  proof (cases lr)
    case (Inl e)
    with assms l v show ?thesis by (auto simp: reserve_in_store_def)
  next
    case (Inr snapshot)
    let ?is = "SaveRequest (admitted_slot input) # map InsertAlias (aliases input)"
    from Inr l load_result assms(1) have "rs_existing snapshot = None" by simp
    then have d: "decide_reservation snapshot input = RdAdmitted (admitted_slot input) ?is"
      by (simp add: decide_reservation_def decide_new_reservation_empty)
    have st: "list_all intent_storable ?is" by (simp add: admitted_slot_def)
    have sv: "saved ?is (view s1) = (view s)(?r \<mapsto> admitted_slot input)"
      by (simp add: v admitted_slot_def)
    obtain ar s2 where a: "apply_intents s1 ?is = (ar, s2)" by (cases "apply_intents s1 ?is")
    show ?thesis
    proof (cases ar)
      case (Inl e)
      with apply_failed [OF st, of s1 e s2] a sv v assms(2) l Inr d \<open>lr = Inr snapshot\<close>
      show ?thesis by (auto simp: reserve_in_store_def)
    next
      case (Inr u)
      with apply_ok [OF st, of s1 u s2] a sv v assms(2) l d \<open>lr = Inr snapshot\<close>
      show ?thesis by (auto simp: reserve_in_store_def)
    qed
  qed
qed

lemma reserve_present:
  assumes "view s (oi_request_id (ri_identity input)) = Some slot"
    and "st_operation slot = Some operation"
    and "reserve_in_store load_snapshot apply_intents s input = (res, s')"
  shows "view s' = view s \<and> (\<forall>d. res = Inr d \<longrightarrow>
     d = (if op_content operation = ri_content input
          then RdReturnExisting slot (map InsertAlias (aliases input))
          else RdRejected slot DifferentContent))"
proof -
  let ?r = "oi_request_id (ri_identity input)"
  obtain lr s1 where l: "load_snapshot s ?r = (lr, s1)" by (cases "load_snapshot s ?r")
  note v = load_view [OF l]
  show ?thesis
  proof (cases lr)
    case (Inl e)
    with assms l v show ?thesis by (auto simp: reserve_in_store_def)
  next
    case (Inr snapshot)
    let ?is = "map InsertAlias (aliases input)"
    from Inr l load_result assms(1) have "rs_existing snapshot = Some slot" by simp
    then have "snapshot = \<lparr>rs_existing = Some slot\<rparr>" by (cases snapshot) simp
    with decide_reservation_existing [OF assms(2), of input]
    have d: "decide_reservation snapshot input =
        (if op_content operation = ri_content input then RdReturnExisting slot ?is
         else RdRejected slot DifferentContent)"
      by simp
    obtain ar s2 where a: "apply_intents s1 ?is = (ar, s2)" by (cases "apply_intents s1 ?is")
    have "view s2 = view s"
      using a v apply_ok [OF storable_aliases, of s1] apply_failed [OF storable_aliases, of s1]
      by (cases ar) auto
    then show ?thesis
      using assms(3) l v Inr d a by (auto simp: reserve_in_store_def split: if_splits sum.splits)
  qed
qed

lemma retry_present:
  assumes "view s (oi_request_id (ri_identity input)) = Some (admitted_slot input)"
    and "retry_reserve (reserve_in_store load_snapshot apply_intents) n s input = (rs, s')"
  shows "view s' = view s \<and> (\<forall>d. Inr d \<in> set rs \<longrightarrow> decided_slot d = Some (admitted_slot input))
     \<and> filter admits rs = []"
  using assms
proof (induction n arbitrary: s rs)
  case (Suc n)
  let ?reserve = "reserve_in_store load_snapshot apply_intents"
  obtain r s1 where r: "?reserve s input = (r, s1)" by (cases "?reserve s input")
  obtain rs' where rs': "retry_reserve ?reserve n s1 input = (rs', s')" "rs = r # rs'"
    using Suc.prems(2) r by (auto split: prod.splits)
  have op: "st_operation (admitted_slot input) = Some \<lparr>op_identity = ri_identity input,
      op_content = ri_content input, op_attempt = ri_attempt input, op_state = Reserved\<rparr>"
    by (simp add: admitted_slot_def)
  from reserve_present [OF Suc.prems(1) op r]
  have "view s1 = view s" "\<forall>d. r = Inr d \<longrightarrow> decided_slot d = Some (admitted_slot input)"
    "\<not> admits r"
    by (auto, cases r, auto)
  with Suc.IH [of s1 rs'] Suc.prems(1) rs' show ?case by auto
qed simp

lemma retry_absent:
  assumes "view s (oi_request_id (ri_identity input)) = None"
    and "retry_reserve (reserve_in_store load_snapshot apply_intents) n s input = (rs, s')"
  shows "(view s' = view s \<and> (\<forall>d. Inr d \<notin> set rs)
       \<or> view s' = (view s)(oi_request_id (ri_identity input) \<mapsto> admitted_slot input))
     \<and> (\<forall>d. Inr d \<in> set rs \<longrightarrow> decided_slot d = Some (admitted_slot input))
     \<and> length (filter admits rs) \<le> 1"
  using assms
proof (induction n arbitrary: s rs)
  case (Suc n)
  let ?reserve = "reserve_in_store load_snapshot apply_intents"
  let ?r = "oi_request_id (ri_identity input)"
  obtain r s1 where r: "?reserve s input = (r, s1)" by (cases "?reserve s input")
  obtain rs' where rs': "retry_reserve ?reserve n s1 input = (rs', s')" "rs = r # rs'"
    using Suc.prems(2) r by (auto split: prod.splits)
  from reserve_absent [OF Suc.prems(1) r] show ?case
  proof (elim disjE conjE exE)
    fix e
    assume "view s1 = view s" "r = Inl e"
    with Suc.IH [of s1 rs'] Suc.prems(1) rs' show ?case by auto
  next
    assume v: "view s1 = (view s)(?r \<mapsto> admitted_slot input)"
      and d: "\<forall>d. r = Inr d \<longrightarrow> d = RdAdmitted (admitted_slot input)
            (SaveRequest (admitted_slot input) # map InsertAlias (aliases input))"
    from v have "view s1 ?r = Some (admitted_slot input)" by simp
    from retry_present [OF this rs'(1)] v d rs'(2) show ?case
      by (auto split: if_splits)
  qed
qed simp

end

section \<open>The in-memory store\<close>

datatype injected_failure = BeforeApply | AfterCommit

datatype store_failure = StoreFailure

record memory_store =
  ms_requests :: "op_request_id \<rightharpoonup> slot_state"
  ms_aliases :: "request_alias list"
  ms_next_failure :: "injected_failure option"
  ms_request_writes :: nat

definition memory_load ::
  "memory_store \<Rightarrow> op_request_id \<Rightarrow> (store_failure + request_snapshot) \<times> memory_store" where
  "memory_load store request_id = (Inr \<lparr>rs_existing = ms_requests store request_id\<rparr>, store)"

fun memory_write :: "memory_store \<Rightarrow> request_write_intent list \<Rightarrow> (store_failure + unit) \<times> memory_store"
where
  "memory_write store [] = (Inr (), store)"
| "memory_write store (SaveRequest s # intents) =
     (case st_operation s of
        None \<Rightarrow> (Inl StoreFailure, store)
      | Some operation \<Rightarrow>
          memory_write
            (store\<lparr>ms_requests := (ms_requests store)(oi_request_id (op_identity operation) \<mapsto> s),
                   ms_request_writes := ms_request_writes store + 1\<rparr>)
            intents)"
| "memory_write store (InsertAlias alias # intents) =
     memory_write
       (if alias \<in> set (ms_aliases store) then store
        else store\<lparr>ms_aliases := ms_aliases store @ [alias]\<rparr>)
       intents"

definition memory_apply ::
  "memory_store \<Rightarrow> request_write_intent list \<Rightarrow> (store_failure + unit) \<times> memory_store" where
  "memory_apply store intents =
     (if ms_next_failure store = Some BeforeApply
      then (Inl StoreFailure, store\<lparr>ms_next_failure := None\<rparr>)
      else case memory_write store intents of
             (Inl e, store) \<Rightarrow> (Inl e, store)
           | (Inr _, store) \<Rightarrow>
               if ms_next_failure store = Some AfterCommit
               then (Inl StoreFailure, store\<lparr>ms_next_failure := None\<rparr>)
               else (Inr (), store))"

lemma memory_write_storable:
  "list_all intent_storable intents \<Longrightarrow>
     \<exists>store'. memory_write store intents = (Inr (), store')
       \<and> ms_requests store' = saved intents (ms_requests store)"
  by (induction store intents rule: memory_write.induct) (auto split: option.splits)

interpretation memory: request_store memory_load memory_apply ms_requests
proof unfold_locales
  fix intents s u s'
  assume "list_all intent_storable intents" "memory_apply s intents = (Inr u, s')"
  with memory_write_storable [of intents s] show "ms_requests s' = saved intents (ms_requests s)"
    by (auto simp: memory_apply_def split: if_splits)
next
  fix intents s e s'
  assume "list_all intent_storable intents" "memory_apply s intents = (Inl e, s')"
  with memory_write_storable [of intents s]
  show "ms_requests s' = ms_requests s \<or> ms_requests s' = saved intents (ms_requests s)"
    by (auto simp: memory_apply_def split: if_splits)
qed (auto simp: memory_load_def)

abbreviation memory_reserve ::
  "memory_store \<Rightarrow> reservation_input \<Rightarrow> (store_failure + reservation_decision) \<times> memory_store" where
  "memory_reserve \<equiv> reserve_in_store memory_load memory_apply"

section \<open>Properties of admission\<close>

definition sample_input :: reservation_input where
  "sample_input = \<lparr>ri_identity = sample_identity, ri_alias_target = ''call-1'', ri_content = [1, 2, 3],
     ri_attempt = sample_attempt, ri_call_id = ''call-1'', ri_alias_prefix = ''thread:'',
     ri_request_alias = None\<rparr>"

definition empty_memory :: "injected_failure option \<Rightarrow> memory_store" where
  "empty_memory failure = \<lparr>ms_requests = Map.empty, ms_aliases = [], ms_next_failure = failure,
     ms_request_writes = 0\<rparr>"

text \<open>C9: The admission decision in full: an unknown request is admitted as one reserved
  operation at revision one, saved together with its aliases; a known request with the same
  content returns the saved operation and only adds aliases; different content is refused, and
  so is a slot without an operation.\<close>

theorem decide_reservation_cases:
  "decide_reservation snapshot input =
     (case rs_existing snapshot of
        None \<Rightarrow> RdAdmitted (admitted_slot input)
                  (SaveRequest (admitted_slot input) # map InsertAlias (aliases input))
      | Some s \<Rightarrow>
          (case st_operation s of
             None \<Rightarrow> RdRejected s OperationMissing
           | Some operation \<Rightarrow>
               if op_content operation = ri_content input
               then RdReturnExisting s (map InsertAlias (aliases input))
               else RdRejected s DifferentContent))"
proof (cases "rs_existing snapshot")
  case None
  then show ?thesis by (simp add: decide_reservation_def decide_new_reservation_empty)
next
  case (Some s)
  then have "snapshot = \<lparr>rs_existing = Some s\<rparr>" by (cases snapshot) simp
  then show ?thesis
    using decide_reservation_existing [of s _ input]
    by (cases "st_operation s") (simp_all add: decide_reservation_def)
qed

text \<open>C10: Repeating a reservation of a new request any number of times, with failures before or
  after the commit in between, reserves it at most once: at most one call reports an admission,
  every call that succeeds reports the same slot, and the store holds that slot or, when every
  call failed, is unchanged.\<close>

theorem reservation_retry_is_idempotent:
  assumes "ms_requests store (oi_request_id (ri_identity input)) = None"
    and "retry_reserve memory_reserve n store input = (rs, store')"
  shows "(ms_requests store' = ms_requests store \<and> (\<forall>d. Inr d \<notin> set rs)
       \<or> ms_requests store' =
           (ms_requests store)(oi_request_id (ri_identity input) \<mapsto> admitted_slot input))
     \<and> (\<forall>d. Inr d \<in> set rs \<longrightarrow> decided_slot d = Some (admitted_slot input))
     \<and> length (filter admits rs) \<le> 1"
  using assms by (rule memory.retry_absent)

theorem reservation_retry_is_idempotent_witness:
  "\<exists>rs store'. retry_reserve memory_reserve 3 (empty_memory (Some AfterCommit)) sample_input
       = (rs, store') \<and> length (filter admits rs) \<le> 1"
proof -
  obtain rs store' where
    r: "retry_reserve memory_reserve 3 (empty_memory (Some AfterCommit)) sample_input = (rs, store')"
    by (cases "retry_reserve memory_reserve 3 (empty_memory (Some AfterCommit)) sample_input")
  have "ms_requests (empty_memory (Some AfterCommit)) (oi_request_id (ri_identity sample_input)) = None"
    by (simp add: empty_memory_def)
  from reservation_retry_is_idempotent [OF this r] r show ?thesis by auto
qed

end
