(* ===== verification/Request_Settlement.thy ===== *)
theory Request_Settlement
  imports Request_Reservation
begin

text \<open>
  Settlement of tool requests from result evidence, \<open>operations/src/settlement.rs\<close>: how a result
  is classified, which lifecycle event it becomes, what is saved, and the load/decide/apply
  boundary \<open>settle_in_store\<close> over the interface \<open>request_store\<close>.
\<close>

section \<open>Data\<close>

datatype request_tool =
    OrchestrationServers | OrchestrationRead | OrchestrationUserTask | OrchestrationTask
  | OrchestrationMessage | OrchestrationAgentManage | OrchestrationMonitor
  | OrchestrationMonitorInput | OrchestrationWatch | OrchestrationContext
  | OrchestrationTitle | OtherTool

record result_evidence =
  re_tool :: request_tool
  re_success :: "bool option"
  re_read_only :: bool
  re_first_error :: "string option"
  re_server_outcome :: "outcome option"

record settlement_input =
  si_request_id :: op_request_id
  si_event_id :: event_id
  si_evidence :: result_evidence
  si_explicit_outcome :: "outcome option"
  si_proof :: "non_execution_proof option"
  si_operation_receipt_present :: bool
  si_result_changed :: bool

datatype settlement_kind = Persisted | NoChange

definition missing_receipt_outcome :: outcome where
  "missing_receipt_outcome = Unknown"

record settlement_decision =
  sd_state :: slot_state
  sd_event :: event_kind
  sd_kind :: settlement_kind
  sd_intents :: "request_write_intent list"

section \<open>Classification of a result\<close>

primrec exact_rejections :: "request_tool \<Rightarrow> string list" where
  "exact_rejections OrchestrationUserTask =
     [''User tasks were removed. Send a message with orchestration_message target=user.'']"
| "exact_rejections OrchestrationTask =
     [''limit must be 1 to 50'',
      ''List changed or cursor is invalid. Read the first page again.'',
      ''Unknown task in this team'',
      ''Unknown work item'',
      ''This work item changed. Reload before editing'',
      ''Only the lead can create work'',
      ''Only the lead can change work assignments'',
      ''Only the assigned worker can submit its result'',
      ''Only the lead can accept or reject a result'',
      ''This result is already accepted'',
      ''Submit a result before review'',
      ''This work item is not ready'',
      ''Supply up to 50 file paths'',
      ''Submission files exceed shared count or path-length limits'',
      ''Another agent owns this work item'',
      ''Dependencies have not been accepted'',
      ''Unknown managed agent'',
      ''The file is outside this agent workspace'',
      ''Supply a source revision with 1 to 200 characters'',
      ''Supply a result with 1 to 32000 characters'',
      ''Supply test evidence with 1 to 32000 characters'',
      ''Work under review cannot be reassigned; reject its result before editing'',
      ''Review or accepted work cannot be reassigned; reject a result before editing'',
      ''Supply a review decision with 1 to 32000 characters'',
      ''Supply result with 1 to 32000 characters for accept or reject'']"
| "exact_rejections OrchestrationMessage =
     [''A no-issue result requires the exact active review event and target'',
      ''Versioned progress requires a progress_key and nonnegative integer progress_version'',
      ''Unknown message importance'',
      ''Message must have 1 to 12000 characters'',
      ''Select another agent'',
      ''Unknown managed agent'',
      ''Recipient conversation was deleted'',
      ''Only the lead can contact the user. Send your message to your lead.'',
      ''This record belongs to another team'']"
| "exact_rejections OrchestrationAgentManage =
     [''You can manage only your own descendant workers'',
      ''Unknown managed agent'']"
| "exact_rejections OrchestrationMonitor =
     [''Command timeout must be 1 second to 24 hours'',
      ''Supply a command with 1 to 12000 characters'',
      ''success_exit_codes must list 1 to 16 exit codes from 0 to 255'',
      ''wait_timeout_ms must be 0 to 10000'',
      ''Supply exactly one of command or monitor_id'',
      ''output_patterns must contain up to 16 non-empty literal strings'',
      ''output_patterns must not contain duplicate strings'',
      ''Each output pattern must be at most 256 UTF-8 bytes'',
      ''wake_on must be exit or failure'',
      ''wait_timeout_ms expired before launch; command was not started'',
      ''Monitor wait capacity is full. No command was started.'',
      ''stall_timeout_seconds must be 0 to 31536000'',
      ''liveness_command must be 0 to 12000 characters'',
      ''Maximum 64 active command watches'',
      ''The agent turn was stopped'',
      ''Agent is stopped'']"
| "exact_rejections OrchestrationMonitorInput =
     [''This interactive monitor is not active'']"
| "exact_rejections OrchestrationWatch =
     [''The file is outside this agent workspace'',
      ''Choose a date within the next year'',
      ''Interval must be 10 seconds to one year'']"
| "exact_rejections OrchestrationContext =
     [''Unknown monitor in this team'',
      ''Unknown context topic'']"
| "exact_rejections OrchestrationTitle =
     [''Only a lead can set a title of 1 to 80 characters'']"
| "exact_rejections OrchestrationServers = []"
| "exact_rejections OrchestrationRead = []"
| "exact_rejections OtherTool = []"

definition is_exact_rejection :: "request_tool \<Rightarrow> string option \<Rightarrow> bool" where
  "is_exact_rejection tool error =
     (case error of None \<Rightarrow> False | Some e \<Rightarrow> e \<in> set (exact_rejections tool))"

definition classify_result :: "result_evidence \<Rightarrow> outcome" where
  "classify_result evidence =
     (case re_success evidence of
        Some True \<Rightarrow>
          if re_tool evidence = OrchestrationServers then
            (case re_server_outcome evidence of Some out \<Rightarrow> out | None \<Rightarrow> Applied)
          else Applied
      | Some False \<Rightarrow>
          if re_read_only evidence \<or> re_tool evidence = OrchestrationRead then NotApplied
          else if is_exact_rejection (re_tool evidence) (re_first_error evidence) then NotApplied
          else Unknown
      | None \<Rightarrow> Unknown)"

section \<open>The decision\<close>

definition settlement_outcome :: "settlement_input \<Rightarrow> outcome" where
  "settlement_outcome input =
     (case si_explicit_outcome input of Some out \<Rightarrow> out | None \<Rightarrow> classify_result (si_evidence input))"

definition settlement_event :: "settlement_input \<Rightarrow> event_kind" where
  "settlement_event input =
     (let out = settlement_outcome input in
      if out = Applied then AppliedResponse
      else if si_explicit_outcome input = None \<and> out = NotApplied
              \<and> si_operation_receipt_present input then CommittedOperationReceipt
      else if si_proof input = Some ReviewChildAbsent then DefinitiveRejection ReviewChildAbsent
      else if out = NotApplied then
        DefinitiveRejection (if re_read_only (si_evidence input) then ReadOnlyRejection
                             else ExactPreWriteRejection)
      else Failure InvalidPostExecutionResponse)"

definition decide_settlement ::
  "slot_state \<Rightarrow> settlement_input \<Rightarrow> transition_error + settlement_decision" where
  "decide_settlement s input =
     (case st_operation s of
        None \<Rightarrow> Inl OperationMissing
      | Some operation \<Rightarrow>
          (let kind = settlement_event input;
               d = transition s (own_event (si_event_id input) s operation kind)
           in case dc_kind d of
                Rejected error \<Rightarrow> Inl error
              | _ \<Rightarrow>
                  (let transitioned = (dc_kind d = Transitioned);
                       update_unknown_result =
                         (\<not> transitioned \<and> op_state operation = OpUnknown \<and> si_result_changed input);
                       skind = (if transitioned \<or> update_unknown_result then Persisted else NoChange)
                   in Inr \<lparr>sd_state = dc_next_state d, sd_event = kind, sd_kind = skind,
                           sd_intents = (if skind = Persisted then [SaveRequest (dc_next_state d)]
                                         else [])\<rparr>)))"

definition settle_in_store ::
  "('s \<Rightarrow> op_request_id \<Rightarrow> ('e + request_snapshot) \<times> 's) \<Rightarrow>
   ('s \<Rightarrow> request_write_intent list \<Rightarrow> ('e + unit) \<times> 's) \<Rightarrow> (transition_error \<Rightarrow> 'e) \<Rightarrow>
   's \<Rightarrow> settlement_input \<Rightarrow> ('e + settlement_decision) \<times> 's" where
  "settle_in_store load_snapshot apply_intents from_error store input =
     (case load_snapshot store (si_request_id input) of
        (Inl e, store) \<Rightarrow> (Inl e, store)
      | (Inr snapshot, store) \<Rightarrow>
          (case rs_existing snapshot of
             None \<Rightarrow> (Inl (from_error OperationMissing), store)
           | Some s \<Rightarrow>
               (case decide_settlement s input of
                  Inl error \<Rightarrow> (Inl (from_error error), store)
                | Inr d \<Rightarrow>
                    (case apply_intents store (sd_intents d) of
                       (Inl e, store) \<Rightarrow> (Inl e, store)
                     | (Inr _, store) \<Rightarrow> (Inr d, store)))))"

fun retry_settle ::
  "('s \<Rightarrow> settlement_input \<Rightarrow> ('e + settlement_decision) \<times> 's) \<Rightarrow>
   nat \<Rightarrow> 's \<Rightarrow> settlement_input \<Rightarrow> ('e + settlement_decision) list \<times> 's" where
  "retry_settle settle 0 store input = ([], store)"
| "retry_settle settle (Suc n) store input =
     (let (r, store1) = settle store input;
          (rs, store2) = retry_settle settle n store1 input
      in (r # rs, store2))"

section \<open>Repeated settlement\<close>

text \<open>The events a settlement can become.\<close>

lemma settlement_event_kinds:
  "settlement_event input \<in> {AppliedResponse, CommittedOperationReceipt,
     DefinitiveRejection ReviewChildAbsent, DefinitiveRejection ReadOnlyRejection,
     DefinitiveRejection ExactPreWriteRejection, Failure InvalidPostExecutionResponse}"
  by (simp add: settlement_event_def Let_def)

lemma settlement_event_not:
  "settlement_event input \<noteq> Admit c" "settlement_event input \<noteq> ReceiptMissing"
  using settlement_event_kinds [of input] by auto

lemma settled_event_absorbed:
  assumes "phase_step (Some p) (settlement_event input) p'"
  shows "absorbed p' (settlement_event input)"
  using assms settlement_event_kinds [of input]
  by (auto simp: phase_step_present absorbed_def replayed_phase_def)

lemma decide_settlement_cases:
  assumes "st_operation s = Some operation"
  obtains (absorbed) "absorbed (op_state operation) (settlement_event input)"
      "decide_settlement s input = Inr
         \<lparr>sd_state = s, sd_event = settlement_event input,
          sd_kind = (if op_state operation = OpUnknown \<and> si_result_changed input
                     then Persisted else NoChange),
          sd_intents = (if op_state operation = OpUnknown \<and> si_result_changed input
                        then [SaveRequest s] else [])\<rparr>"
  | (rejected) error where "decide_settlement s input = Inl error"
  | (step) operation' s' where "st_operation s' = Some operation'"
      "decide_settlement s input = Inr
         \<lparr>sd_state = s', sd_event = settlement_event input, sd_kind = Persisted,
          sd_intents = [SaveRequest s']\<rparr>"
      "phase_step (Some (op_state operation)) (settlement_event input) (op_state operation')"
      "op_identity operation' = op_identity operation"
proof -
  let ?k = "settlement_event input"
  have ne: "\<forall>c. ?k \<noteq> Admit c" "?k \<noteq> ReceiptMissing" by (simp_all add: settlement_event_not)
  show ?thesis
  proof (cases rule: own_event_cases [OF assms ne, of "si_event_id input"])
    case 1
    then show ?thesis
      using assms absorbed by (simp add: decide_settlement_def Let_def)
  next
    case (2 error)
    then show ?thesis
      using assms rejected by (simp add: decide_settlement_def Let_def)
  next
    case (3 operation' i)
    from 3(1) obtain revision where
      "transition s (own_event (si_event_id input) s operation ?k) =
         \<lparr>dc_expected_revision = st_revision s,
          dc_next_state = s\<lparr>st_revision := revision, st_operation := Some operation'\<rparr>,
          dc_kind = Transitioned, dc_intents = [i]\<rparr>"
      by (auto simp: accepted_def)
    with assms 3(2) show ?thesis
      using step [of "s\<lparr>st_revision := revision, st_operation := Some operation'\<rparr>" operation']
      by (simp add: decide_settlement_def Let_def applied_step_def)
  qed
qed

lemma decide_settlement_operation:
  "decide_settlement s input = Inr d \<Longrightarrow> \<exists>operation. st_operation s = Some operation"
  by (cases "st_operation s") (simp_all add: decide_settlement_def)

lemma decide_settlement_keeps:
  assumes "decide_settlement s input = Inr d" "st_operation s = Some operation"
  shows "\<exists>operation'. st_operation (sd_state d) = Some operation'
           \<and> op_identity operation' = op_identity operation
           \<and> absorbed (op_state operation') (settlement_event input)
           \<and> (sd_intents d = [] \<and> sd_state d = s \<or> sd_intents d = [SaveRequest (sd_state d)])"
  using assms(2)
proof (cases rule: decide_settlement_cases [where input = input])
  case absorbed
  with assms show ?thesis by auto
next
  case (rejected error)
  with assms show ?thesis by simp
next
  case (step operation' s')
  with assms settled_event_absorbed [OF step(3)] show ?thesis by auto
qed

lemma decide_settlement_again:
  assumes "st_operation s = Some operation" "absorbed (op_state operation) (settlement_event input)"
  shows "\<exists>d. decide_settlement s input = Inr d \<and> sd_state d = s
           \<and> sd_event d = settlement_event input
           \<and> (\<not> si_result_changed input \<or> op_state operation \<noteq> OpUnknown \<longrightarrow>
                sd_kind d = NoChange \<and> sd_intents d = [])"
  using assms own_event_absorbed [OF assms]
  by (simp add: decide_settlement_def Let_def)

section \<open>Settlement through a store\<close>

context request_store
begin

lemma settle_step:
  assumes "view s (si_request_id input) = Some slot" "decide_settlement slot input = Inr d"
    and "st_operation slot = Some operation"
    and "oi_request_id (op_identity operation) = si_request_id input"
    and "settle_in_store load_snapshot apply_intents from_error s input = (res, s')"
  shows "(view s' = view s \<or> view s' = (view s)(si_request_id input \<mapsto> sd_state d))
    \<and> (\<forall>d'. res = Inr d' \<longrightarrow> d' = d \<and> view s' = (view s)(si_request_id input \<mapsto> sd_state d))"
proof -
  let ?r = "si_request_id input"
  obtain lr s1 where l: "load_snapshot s ?r = (lr, s1)" by (cases "load_snapshot s ?r")
  note v = load_view [OF l]
  from decide_settlement_keeps [OF assms(2,3)] assms(4) obtain operation' where
    op': "st_operation (sd_state d) = Some operation'"
      "oi_request_id (op_identity operation') = ?r"
    and intents: "sd_intents d = [] \<and> sd_state d = slot \<or> sd_intents d = [SaveRequest (sd_state d)]"
    by auto
  have st: "list_all intent_storable (sd_intents d)" using intents op' by auto
  have same: "view s = (view s)(?r \<mapsto> slot)" using assms(1) by auto
  have sv: "saved (sd_intents d) (view s1) = (view s)(?r \<mapsto> sd_state d)"
    using intents op' v same by auto
  obtain ar s2 where a: "apply_intents s1 (sd_intents d) = (ar, s2)"
    by (cases "apply_intents s1 (sd_intents d)")
  have v2: "view s2 = view s \<or> view s2 = (view s)(?r \<mapsto> sd_state d)"
    "\<And>u. ar = Inr u \<Longrightarrow> view s2 = (view s)(?r \<mapsto> sd_state d)"
    using a sv v apply_ok [OF st] apply_failed [OF st] by (cases ar; fastforce)+
  show ?thesis
  proof (cases lr)
    case (Inl e)
    with assms(5) l v show ?thesis by (auto simp: settle_in_store_def)
  next
    case (Inr snapshot)
    with l load_result assms(1) have "rs_existing snapshot = Some slot" by simp
    with assms(2,5) l Inr a v2 show ?thesis
      by (cases ar) (auto simp: settle_in_store_def)
  qed
qed

lemma retry_settle_steps:
  assumes "view s (si_request_id input) = Some slot" "decide_settlement slot input = Inr d"
    and "st_operation slot = Some operation"
    and "oi_request_id (op_identity operation) = si_request_id input"
    and "retry_settle (settle_in_store load_snapshot apply_intents from_error) n s input = (rs, s')"
  shows "(view s' = view s \<and> (\<forall>d'. Inr d' \<notin> set rs)
        \<or> view s' = (view s)(si_request_id input \<mapsto> sd_state d))
    \<and> (\<forall>d'. Inr d' \<in> set rs \<longrightarrow> sd_state d' = sd_state d)"
  using assms
proof (induction n arbitrary: s slot operation d rs)
  case (Suc n)
  let ?settle = "settle_in_store load_snapshot apply_intents from_error"
  let ?r = "si_request_id input"
  obtain r s1 where r: "?settle s input = (r, s1)" by (cases "?settle s input")
  obtain rs' where rs': "retry_settle ?settle n s1 input = (rs', s')" "rs = r # rs'"
    using Suc.prems(5) r by (auto split: prod.splits)
  note st = settle_step [OF Suc.prems(1-4) r]
  show ?case
  proof (cases "view s1 = (view s)(?r \<mapsto> sd_state d)")
    case True
    from decide_settlement_keeps [OF Suc.prems(2,3)] obtain operation' where
      op': "st_operation (sd_state d) = Some operation'"
        "op_identity operation' = op_identity operation"
        "absorbed (op_state operation') (settlement_event input)"
      by auto
    from decide_settlement_again [OF op'(1,3)] obtain d2 where
      d2: "decide_settlement (sd_state d) input = Inr d2" "sd_state d2 = sd_state d"
      by auto
    have "view s1 ?r = Some (sd_state d)" using True by simp
    from Suc.IH [OF this d2(1) op'(1) _ rs'(1)] op'(2) Suc.prems(4) d2(2) True st rs'(2)
    show ?thesis by auto
  next
    case False
    with st have v: "view s1 = view s" "\<forall>d'. r \<noteq> Inr d'" by auto
    with Suc.prems(1) have "view s1 ?r = Some slot" by simp
    from Suc.IH [OF this Suc.prems(2-4) rs'(1)] v rs'(2) show ?thesis by auto
  qed
qed simp

end

section \<open>The in-memory store with receipts\<close>

datatype settlement_store_error = Injected | InvalidStore

definition from_transition_error :: "transition_error \<Rightarrow> settlement_store_error" where
  "from_transition_error _ = InvalidStore"

datatype failure_window = BeforeReceipt | AfterReceipt

record receipt_store =
  rc_requests :: "op_request_id \<rightharpoonup> slot_state"
  rc_results :: "op_request_id \<rightharpoonup> result_evidence"
  rc_operation_receipts :: "op_request_id \<rightharpoonup> bool"
  rc_fail_next :: "failure_window option"
  rc_writes :: nat

definition receipt_load ::
  "receipt_store \<Rightarrow> op_request_id \<Rightarrow> (settlement_store_error + request_snapshot) \<times> receipt_store" where
  "receipt_load store request_id = (Inr \<lparr>rs_existing = rc_requests store request_id\<rparr>, store)"

fun receipt_write ::
  "receipt_store \<Rightarrow> request_write_intent list \<Rightarrow> (settlement_store_error + unit) \<times> receipt_store" where
  "receipt_write store [] = (Inr (), store)"
| "receipt_write store (SaveRequest s # intents) =
     (case st_operation s of
        None \<Rightarrow> (Inl InvalidStore, store)
      | Some operation \<Rightarrow>
          receipt_write
            (store\<lparr>rc_requests := (rc_requests store)(oi_request_id (op_identity operation) \<mapsto> s),
                   rc_writes := rc_writes store + 1\<rparr>)
            intents)"
| "receipt_write store (InsertAlias _ # intents) = receipt_write store intents"

definition receipt_apply ::
  "receipt_store \<Rightarrow> request_write_intent list \<Rightarrow> (settlement_store_error + unit) \<times> receipt_store" where
  "receipt_apply store intents =
     (if rc_fail_next store = Some BeforeReceipt
      then (Inl Injected, store\<lparr>rc_fail_next := None\<rparr>)
      else case receipt_write store intents of
             (Inl e, store) \<Rightarrow> (Inl e, store)
           | (Inr _, store) \<Rightarrow>
               if rc_fail_next store = Some AfterReceipt
               then (Inl Injected, store\<lparr>rc_fail_next := None\<rparr>)
               else (Inr (), store))"

lemma receipt_write_storable:
  "list_all intent_storable intents \<Longrightarrow>
     \<exists>store'. receipt_write store intents = (Inr (), store')
       \<and> rc_requests store' = saved intents (rc_requests store)"
  by (induction store intents rule: receipt_write.induct) (auto split: option.splits)

interpretation receipts: request_store receipt_load receipt_apply rc_requests
proof unfold_locales
  fix intents s u s'
  assume "list_all intent_storable intents" "receipt_apply s intents = (Inr u, s')"
  with receipt_write_storable [of intents s] show "rc_requests s' = saved intents (rc_requests s)"
    by (auto simp: receipt_apply_def split: if_splits)
next
  fix intents s e s'
  assume "list_all intent_storable intents" "receipt_apply s intents = (Inl e, s')"
  with receipt_write_storable [of intents s]
  show "rc_requests s' = rc_requests s \<or> rc_requests s' = saved intents (rc_requests s)"
    by (auto simp: receipt_apply_def split: if_splits)
qed (auto simp: receipt_load_def)

abbreviation receipt_settle ::
  "receipt_store \<Rightarrow> settlement_input \<Rightarrow> (settlement_store_error + settlement_decision) \<times> receipt_store"
where
  "receipt_settle \<equiv> settle_in_store receipt_load receipt_apply from_transition_error"

section \<open>Properties of settlement\<close>

definition sample_settlement :: "request_tool \<Rightarrow> bool option \<Rightarrow> bool \<Rightarrow> settlement_input" where
  "sample_settlement tool success receipt =
     \<lparr>si_request_id = ''call-1'', si_event_id = ''settle'',
      si_evidence = \<lparr>re_tool = tool, re_success = success, re_read_only = False,
                     re_first_error = Some ''Unknown work item'', re_server_outcome = None\<rparr>,
      si_explicit_outcome = None, si_proof = None, si_operation_receipt_present = receipt,
      si_result_changed = True\<rparr>"

text \<open>The evidence from which a result alone is read as a refusal.\<close>

definition proven_refusal :: "result_evidence \<Rightarrow> bool" where
  "proven_refusal ev =
     (re_success ev = Some False
        \<and> (re_read_only ev \<or> re_tool ev = OrchestrationRead
           \<or> (\<exists>e \<in> set (exact_rejections (re_tool ev)). re_first_error ev = Some e))
      \<or> re_success ev = Some True \<and> re_tool ev = OrchestrationServers
        \<and> re_server_outcome ev = Some NotApplied)"

lemma classify_result_refusal: "classify_result ev = NotApplied \<longleftrightarrow> proven_refusal ev"
  by (auto simp: classify_result_def proven_refusal_def is_exact_rejection_def
      split: option.splits bool.splits)

text \<open>C11: A settlement newly records a request as not applied only for one of three reasons: the
  caller says so explicitly, the caller proved that the review child does not exist and the
  result is not an application, or the result itself is a proven refusal (a refused read-only
  call, an exact refusal message of its tool, or a server that reported non-application) and
  no receipt of the operation was committed.\<close>

theorem not_applied_needs_reason:
  assumes "decide_settlement s input = Inr d"
    and "slot_phase (sd_state d) = Some OpNotApplied" "slot_phase s \<noteq> Some OpNotApplied"
  shows "si_explicit_outcome input = Some NotApplied
    \<or> si_proof input = Some ReviewChildAbsent \<and> settlement_outcome input \<noteq> Applied
    \<or> si_explicit_outcome input = None \<and> proven_refusal (si_evidence input)
      \<and> \<not> si_operation_receipt_present input"
proof -
  from assms(1) obtain operation where op: "st_operation s = Some operation"
    using decide_settlement_operation by blast
  then have "\<exists>p. phase_step (Some p) (settlement_event input) OpNotApplied"
  proof (cases rule: decide_settlement_cases [where input = input])
    case (step operation' s')
    with assms show ?thesis by (auto simp: slot_phase_def)
  qed (use assms in auto)
  then obtain pr where ev: "settlement_event input = DefinitiveRejection pr"
    using settlement_event_kinds [of input] by (auto simp: phase_step_present)
  then show ?thesis
    using classify_result_refusal [of "si_evidence input"]
    by (auto simp: settlement_event_def settlement_outcome_def Let_def
        split: if_splits option.splits)
qed

theorem not_applied_needs_reason_witness:
  "proven_refusal (si_evidence (sample_settlement OrchestrationTask (Some False) False))"
proof -
  let ?input = "sample_settlement OrchestrationTask (Some False) False"
  have d: "decide_settlement (sample_slot 2 Dispatched) ?input
      = Inr (projr (decide_settlement (sample_slot 2 Dispatched) ?input))"
    by code_simp
  have p: "slot_phase (sd_state (projr (decide_settlement (sample_slot 2 Dispatched) ?input)))
      = Some OpNotApplied"
    by code_simp
  show ?thesis
    using not_applied_needs_reason [OF d p] by (simp add: sample_settlement_def)
qed

text \<open>Settling again with the same evidence changes nothing: the decision keeps the slot the
  first one saved, and once the result is stored it reports no change and writes nothing.\<close>

lemma settlement_is_idempotent:
  assumes "decide_settlement s input = Inr d"
  shows "decide_settlement (sd_state d) (input\<lparr>si_result_changed := False\<rparr>)
    = Inr \<lparr>sd_state = sd_state d, sd_event = sd_event d, sd_kind = NoChange, sd_intents = []\<rparr>"
proof -
  let ?input = "input\<lparr>si_result_changed := False\<rparr>"
  have "settlement_outcome ?input = settlement_outcome input"
    by (simp add: settlement_outcome_def split: option.split)
  then have ev: "settlement_event ?input = settlement_event input"
    by (simp add: settlement_event_def Let_def)
  obtain operation where op: "st_operation s = Some operation"
    using decide_settlement_operation [OF assms] by blast
  have "sd_event d = settlement_event input"
    using assms op by (auto simp: decide_settlement_def Let_def split: decision_kind.splits)
  moreover obtain operation' where "st_operation (sd_state d) = Some operation'"
    "absorbed (op_state operation') (settlement_event ?input)"
    using decide_settlement_keeps [OF assms op] ev by auto
  from decide_settlement_again [OF this] obtain d2 where
    "decide_settlement (sd_state d) ?input = Inr d2" "sd_state d2 = sd_state d"
    "sd_event d2 = settlement_event ?input" "sd_kind d2 = NoChange" "sd_intents d2 = []"
    by auto
  ultimately show ?thesis using ev by (cases d2) simp
qed

text \<open>C12: Settling a stored request any number of times, with store failures before or after the
  commit in between, has one result: every call that succeeds reports the slot that the first
  decision computed, and the store holds that slot or, when every call failed, is unchanged.\<close>

theorem settlement_retry_is_idempotent:
  assumes "rc_requests store (si_request_id input) = Some slot"
    and "decide_settlement slot input = Inr d"
    and "st_operation slot = Some operation"
    and "oi_request_id (op_identity operation) = si_request_id input"
    and "retry_settle receipt_settle n store input = (rs, store')"
  shows "(rc_requests store' = rc_requests store \<and> (\<forall>d'. Inr d' \<notin> set rs)
        \<or> rc_requests store' = (rc_requests store)(si_request_id input \<mapsto> sd_state d))
    \<and> (\<forall>d'. Inr d' \<in> set rs \<longrightarrow> sd_state d' = sd_state d)"
  using assms by (rule receipts.retry_settle_steps)

theorem settlement_retry_is_idempotent_witness:
  "\<exists>rs store'. retry_settle receipt_settle 2
       \<lparr>rc_requests = [''call-1'' \<mapsto> sample_slot 2 Dispatched], rc_results = Map.empty,
        rc_operation_receipts = Map.empty, rc_fail_next = Some AfterReceipt, rc_writes = 0\<rparr>
       (sample_settlement OtherTool (Some True) False) = (rs, store')
     \<and> (\<forall>d'. Inr d' \<in> set rs \<longrightarrow> sd_state d'
          = sd_state (projr (decide_settlement (sample_slot 2 Dispatched)
              (sample_settlement OtherTool (Some True) False))))"
proof -
  let ?input = "sample_settlement OtherTool (Some True) False"
  let ?slot = "sample_slot 2 Dispatched"
  let ?d = "projr (decide_settlement ?slot ?input)"
  let ?store = "\<lparr>rc_requests = [''call-1'' \<mapsto> ?slot], rc_results = Map.empty,
        rc_operation_receipts = Map.empty, rc_fail_next = Some AfterReceipt, rc_writes = 0\<rparr>"
  have d: "decide_settlement ?slot ?input = Inr ?d" by code_simp
  have s: "rc_requests ?store (si_request_id ?input) = Some ?slot"
    by (simp add: sample_settlement_def)
  have o1: "st_operation ?slot = Some \<lparr>op_identity = sample_identity, op_content = [1, 2, 3],
       op_attempt = sample_attempt, op_state = Dispatched\<rparr>"
    by (simp add: sample_slot_def)
  obtain rs store' where r: "retry_settle receipt_settle 2 ?store ?input = (rs, store')"
    by (cases "retry_settle receipt_settle 2 ?store ?input")
  from settlement_retry_is_idempotent [OF s d o1 _ r] r show ?thesis
    by (auto simp: sample_identity_def sample_settlement_def)
qed

end
