(* ===== verification/Ordered_Store.thy ===== *)
theory Ordered_Store
  imports Studio_Prelude
begin

text \<open>
  The ordered collections of the Rust standard library as the sources use them. A \<open>BTreeMap\<close>
  is an association list with strictly increasing keys, a \<open>BTreeSet\<close> a strictly increasing
  list. The laws of lookup after an update hold for every list; the order of the keys is
  the invariant \<open>om_wf\<close> (\<open>os_wf\<close>), which every update keeps and which makes the first entry
  the least one.
\<close>

type_synonym ('k, 'v) omap = "('k \<times> 'v) list"
type_synonym 'k oset = "'k list"

section \<open>Maps\<close>

fun om_insert :: "'k::linorder \<Rightarrow> 'v \<Rightarrow> ('k, 'v) omap \<Rightarrow> ('k, 'v) omap" where
  "om_insert k v [] = [(k, v)]"
| "om_insert k v ((a, b) # m) =
     (if k < a then (k, v) # (a, b) # m
      else if k = a then (k, v) # m
      else (a, b) # om_insert k v m)"

abbreviation om_get :: "('k, 'v) omap \<Rightarrow> 'k \<Rightarrow> 'v option" where
  "om_get \<equiv> map_of"

definition om_remove :: "'k \<Rightarrow> ('k, 'v) omap \<Rightarrow> ('k, 'v) omap" where
  "om_remove k m = filter (\<lambda>e. fst e \<noteq> k) m"

definition om_has :: "('k, 'v) omap \<Rightarrow> 'k \<Rightarrow> bool" where
  "om_has m k = (map_of m k \<noteq> None)"

abbreviation om_keys :: "('k, 'v) omap \<Rightarrow> 'k list" where
  "om_keys m \<equiv> map fst m"

definition om_wf :: "('k::linorder, 'v) omap \<Rightarrow> bool" where
  "om_wf m = sorted_wrt (<) (om_keys m)"

lemma om_get_insert [simp]: "om_get (om_insert k v m) = (om_get m)(k \<mapsto> v)"
  by (induction k v m rule: om_insert.induct) auto

lemma om_get_remove [simp]: "om_get (om_remove k m) = (om_get m)(k := None)"
  by (induction m) (auto simp: om_remove_def)

lemma om_has_simps [simp]:
  "om_has (om_insert k v m) j = (j = k \<or> om_has m j)"
  "om_has (om_remove k m) j = (j \<noteq> k \<and> om_has m j)"
  "\<not> om_has [] j"
  by (auto simp: om_has_def)

lemma om_has_keys: "om_has m k \<longleftrightarrow> k \<in> set (om_keys m)"
  by (auto simp: om_has_def map_of_eq_None_iff image_iff)

lemma om_key_iff: "k \<in> fst ` set m \<longleftrightarrow> om_get m k \<noteq> None"
  by (simp add: map_of_eq_None_iff)

lemma om_keys_insert [simp]: "set (om_keys (om_insert k v m)) = insert k (set (om_keys m))"
  by (induction k v m rule: om_insert.induct) auto

lemma om_keys_remove [simp]: "set (om_keys (om_remove k m)) = set (om_keys m) - {k}"
  by (auto simp: om_remove_def)

lemma om_wf_Nil [simp]: "om_wf []"
  by (simp add: om_wf_def)

lemma om_wf_Cons: "om_wf ((k, v) # m) \<longleftrightarrow> om_wf m \<and> (\<forall>j \<in> set (om_keys m). k < j)"
  by (auto simp: om_wf_def)

lemma om_wf_insert [simp]: "om_wf m \<Longrightarrow> om_wf (om_insert k v m)"
proof (induction k v m rule: om_insert.induct)
  case (2 k v a b m)
  then have "om_wf m" "\<forall>j \<in> set (om_keys m). a < j" by (simp_all add: om_wf_Cons)
  with 2 show ?case
    using om_keys_insert [of k v m] by (auto simp: om_wf_Cons simp del: om_keys_insert)
qed (simp add: om_wf_def)

lemma om_wf_remove [simp]: "om_wf m \<Longrightarrow> om_wf (om_remove k m)"
  unfolding om_wf_def om_remove_def sorted_wrt_map by (rule sorted_wrt_filter)

lemma om_wf_distinct: "om_wf m \<Longrightarrow> distinct (om_keys m)"
  unfolding om_wf_def by (induction m) auto

lemma om_get_in: "om_wf m \<Longrightarrow> om_get m k = Some v \<longleftrightarrow> (k, v) \<in> set m"
  by (rule map_of_eq_Some_iff) (rule om_wf_distinct)

lemma om_length_insert:
  "length (om_insert k v m) \<le> Suc (length m)"
  by (induction k v m rule: om_insert.induct) auto

lemma om_insert_member:
  "e \<in> set (om_insert k v m) \<Longrightarrow> e = (k, v) \<or> e \<in> set m"
  by (induction k v m rule: om_insert.induct) (auto split: if_splits)

lemma om_remove_member: "e \<in> set (om_remove k m) \<longleftrightarrow> e \<in> set m \<and> fst e \<noteq> k"
  by (simp add: om_remove_def)

lemma om_insert_get_same:
  "om_wf m \<Longrightarrow> om_get m k = Some v \<Longrightarrow> om_insert k v m = m"
proof (induction k v m rule: om_insert.induct)
  case (2 k v a b m)
  then show ?case
    by (auto simp: om_wf_Cons split: if_splits dest!: map_of_SomeD dest: order.asym)
qed simp

text \<open>Two ordered maps with the same lookups are the same map.\<close>

lemma om_of_keys: "om_wf m \<Longrightarrow> map (\<lambda>k. (k, the (om_get m k))) (om_keys m) = m"
  using om_get_in [of m] by (auto simp: comp_def intro!: map_idI) (metis option.sel)

lemma om_wf_ext:
  assumes "om_wf m" "om_wf n" "om_get m = om_get n"
  shows "m = n"
proof -
  have "set (om_keys m) = set (om_keys n)"
    using dom_map_of_conv_image_fst [of m] dom_map_of_conv_image_fst [of n] assms(3) by simp
  then have "om_keys m = om_keys n"
    using assms by (auto simp: om_wf_def strict_sorted_iff intro: sorted_distinct_set_unique)
  then show ?thesis
    using om_of_keys [OF assms(1)] om_of_keys [OF assms(2)] assms(3) by simp
qed

section \<open>Sets\<close>

definition os_insert :: "'k::linorder \<Rightarrow> 'k oset \<Rightarrow> 'k oset" where
  "os_insert k s = map fst (om_insert k () (map (\<lambda>j. (j, ())) s))"

definition os_remove :: "'k \<Rightarrow> 'k oset \<Rightarrow> 'k oset" where
  "os_remove k s = filter (\<lambda>j. j \<noteq> k) s"

definition os_wf :: "'k::linorder oset \<Rightarrow> bool" where
  "os_wf s = sorted_wrt (<) s"

lemma os_set_insert [simp]: "set (os_insert k s) = insert k (set s)"
  unfolding os_insert_def using om_keys_insert [of k "()" "map (\<lambda>j. (j, ())) s"]
  by (simp add: image_comp comp_def)

lemma os_set_remove [simp]: "set (os_remove k s) = set s - {k}"
  by (auto simp: os_remove_def)

lemma os_wf_Nil [simp]: "os_wf []"
  by (simp add: os_wf_def)

lemma os_wf_insert [simp]: "os_wf s \<Longrightarrow> os_wf (os_insert k s)"
  using om_wf_insert [of "map (\<lambda>j. (j, ())) s" k "()"]
  by (simp add: os_wf_def om_wf_def os_insert_def comp_def)

lemma os_wf_remove [simp]: "os_wf s \<Longrightarrow> os_wf (os_remove k s)"
  unfolding os_wf_def os_remove_def by (rule sorted_wrt_filter)

lemma os_wf_hd_le: "os_wf s \<Longrightarrow> k \<in> set s \<Longrightarrow> hd s \<le> k"
  by (cases s) (auto simp: os_wf_def)

lemma os_wf_distinct: "os_wf s \<Longrightarrow> distinct s"
  unfolding os_wf_def by (induction s) auto

end
