(* ===== verification/Rust_Float.thy ===== *)
theory Rust_Float
  imports Studio_Prelude
begin

text \<open>
  The type \<open>f64\<close> of the language. A finite number is the integer it is in units of the least
  positive number, \<open>2\<^sup>-\<^sup>1\<^sup>0\<^sup>7\<^sup>4\<close>, so comparison is comparison of integers and every operation
  is the exact one followed by one rounding, to nearest with ties to even. The two zeros are
  one number here: they compare equal, and no operation the sources apply tells them apart
  but the printing of a negative zero.
\<close>

datatype f64 = NaN | Infinite bool | Finite int

section \<open>Rounding\<close>

fun bits :: "nat \<Rightarrow> nat" where
  "bits n = (if n = 0 then 0 else Suc (bits (n div 2)))"

declare bits.simps [simp del]

lemma bits_0 [simp]: "bits 0 = 0"
  by (simp add: bits.simps)

text \<open>The quotient of two numbers to nearest, ties to even.\<close>

definition half_even :: "nat \<Rightarrow> nat \<Rightarrow> nat" where
  "half_even q n = (if q < 2 * (n mod q) \<or> q = 2 * (n mod q) \<and> odd (n div q)
     then Suc (n div q) else n div q)"

text \<open>A magnitude \<open>n / d\<close> rounded to 53 significant bits, or to the unit when it is small.\<close>

definition round_bits :: "nat \<Rightarrow> nat \<Rightarrow> nat" where
  "round_bits d n = half_even (d * 2 ^ (bits (n div d) - 53)) n * 2 ^ (bits (n div d) - 53)"

definition f64_limit :: int where
  "f64_limit = 2 ^ 2098"

definition round_ratio :: "int \<Rightarrow> nat \<Rightarrow> int" where
  "round_ratio n d = (if 0 \<le> n then int (round_bits d (nat n)) else - int (round_bits d (nat (- n))))"

definition f64_of_ratio :: "int \<Rightarrow> nat \<Rightarrow> f64" where
  "f64_of_ratio n d =
     (let r = round_ratio n d in if \<bar>r\<bar> < f64_limit then Finite r else Infinite (r < 0))"

lemma bits_less: "n < 2 ^ bits n"
proof (induction n rule: bits.induct)
  case (1 n)
  show ?case
  proof (cases "n = 0")
    case False
    with 1 have "n div 2 < 2 ^ bits (n div 2)" by blast
    then have "n < 2 * 2 ^ bits (n div 2)" by linarith
    with False show ?thesis by (subst bits.simps) simp
  qed simp
qed

lemma bits_ge: "n \<noteq> 0 \<Longrightarrow> 2 ^ (bits n - 1) \<le> n"
proof (induction n rule: bits.induct)
  case (1 n)
  show ?case
  proof (cases "n div 2 = 0")
    case True
    with 1 show ?thesis by (simp add: bits.simps[of n] bits.simps[of 0])
  next
    case False
    with 1 have "2 ^ (bits (n div 2) - 1) \<le> n div 2" by blast
    moreover have "bits (n div 2) = Suc (bits (n div 2) - 1)" using False by (subst (1 2) bits.simps) simp
    then have "(2 :: nat) ^ bits (n div 2) = 2 * 2 ^ (bits (n div 2) - 1)" by (metis power_Suc)
    ultimately have "(2 :: nat) ^ bits (n div 2) \<le> n" by linarith
    with 1(2) show ?thesis by (simp add: bits.simps[of n])
  qed
qed

lemma bits_le: "n < 2 ^ k \<Longrightarrow> bits n \<le> k"
proof (rule ccontr)
  assume n: "n < 2 ^ k" and k: "\<not> bits n \<le> k"
  then have "n \<noteq> 0" by (intro notI) simp
  then have "2 ^ (bits n - 1) \<le> n" by (rule bits_ge)
  moreover have "(2 :: nat) ^ k \<le> 2 ^ (bits n - 1)" using k by (intro power_increasing) auto
  ultimately show False using n by linarith
qed

lemma bits_mono: "m \<le> n \<Longrightarrow> bits m \<le> bits n"
  by (rule bits_le) (rule le_less_trans[OF _ bits_less])

lemma half_even_bounds: "n div q \<le> half_even q n" "half_even q n \<le> Suc (n div q)"
  by (simp_all add: half_even_def)

lemma half_even_mono:
  assumes "m \<le> n"
  shows "half_even q m \<le> half_even q n"
proof (cases "m div q = n div q")
  case True
  have "m mod q \<le> n mod q" using assms True by (metis add_le_cancel_left div_mult_mod_eq)
  with True show ?thesis unfolding half_even_def by auto
next
  case False
  have "m div q \<le> n div q" using assms by (rule div_le_mono)
  with False have "Suc (m div q) \<le> n div q" by simp
  with half_even_bounds(2)[of q m] half_even_bounds(1)[of n q] show ?thesis by linarith
qed

lemma half_even_exact: "0 < q \<Longrightarrow> half_even q (q * m) = m"
  by (simp add: half_even_def)

text \<open>What a magnitude of \<open>b\<close> bits is rounded to lies within the powers of two around it.\<close>

lemma round_bits_le:
  assumes d: "0 < d" and n: "n \<le> d * 2 ^ k"
  shows "round_bits d n \<le> 2 ^ k"
proof -
  define e where "e = bits (n div d) - 53"
  have "n div d \<le> 2 ^ k" using n d by (metis div_le_mono nonzero_mult_div_cancel_left not_gr_zero)
  then have "n div d < 2 ^ Suc k" by (simp add: le_less_trans)
  then have "bits (n div d) \<le> Suc k" by (rule bits_le)
  then have e: "e \<le> k" by (simp add: e_def)
  then have k: "(2 :: nat) ^ k = 2 ^ e * 2 ^ (k - e)" by (simp flip: power_add)
  have "half_even (d * 2 ^ e) n \<le> half_even (d * 2 ^ e) (d * 2 ^ e * 2 ^ (k - e))"
    using n k by (intro half_even_mono) (simp add: mult.assoc)
  also have "\<dots> = 2 ^ (k - e)" using d by (intro half_even_exact) simp
  finally show ?thesis using k by (simp add: round_bits_def flip: e_def)
qed

lemma round_bits_ge:
  assumes d: "0 < d" and n: "d * 2 ^ k \<le> n" and e: "bits (n div d) - 53 \<le> k"
  shows "2 ^ k \<le> round_bits d n"
proof -
  define e where "e = bits (n div d) - 53"
  have k: "(2 :: nat) ^ k = 2 ^ e * 2 ^ (k - e)" using e by (simp add: e_def flip: power_add)
  have "2 ^ (k - e) = half_even (d * 2 ^ e) (d * 2 ^ e * 2 ^ (k - e))"
    using d by (intro half_even_exact[symmetric]) simp
  also have "\<dots> \<le> half_even (d * 2 ^ e) n" using n k by (intro half_even_mono) (simp add: mult.assoc)
  finally show ?thesis using k by (simp add: round_bits_def flip: e_def)
qed

lemma round_bits_mono:
  assumes d: "0 < d" and mn: "m \<le> n"
  shows "round_bits d m \<le> round_bits d n"
proof (cases "bits (m div d) - 53 = bits (n div d) - 53")
  case True
  then show ?thesis using mn by (simp add: round_bits_def half_even_mono)
next
  case False
  define k where "k = bits (n div d) - 1"
  have le: "bits (m div d) \<le> bits (n div d)" using mn by (intro bits_mono div_le_mono)
  with False have lt: "bits (m div d) < bits (n div d)" "53 < bits (n div d)" by auto
  then have "n div d \<noteq> 0" by (intro notI) simp
  then have "2 ^ k \<le> n div d" unfolding k_def by (rule bits_ge)
  then have "d * 2 ^ k \<le> n" using d by (metis div_times_less_eq_dividend le_trans mult.commute mult_le_mono1)
  then have "2 ^ k \<le> round_bits d n" using d lt by (intro round_bits_ge) (auto simp: k_def)
  moreover have "m div d < 2 ^ k"
    by (rule less_le_trans[OF bits_less]) (use lt in \<open>auto simp: k_def intro!: power_increasing\<close>)
  then have "m \<le> d * 2 ^ k" using d by (metis div_less_iff_less_mult less_imp_le mult.commute)
  then have "round_bits d m \<le> 2 ^ k" using d by (intro round_bits_le)
  ultimately show ?thesis by linarith
qed

text \<open>Numbers of at most 53 bits are exact.\<close>

lemma round_bits_exact:
  assumes "n < 2 ^ 53"
  shows "round_bits 1 (n * 2 ^ k) = n * 2 ^ k"
proof -
  define e where "e = bits (n * 2 ^ k) - 53"
  have "n * 2 ^ k < 2 ^ (53 + k)" using assms by (simp add: power_add)
  then have "bits (n * 2 ^ k) \<le> 53 + k" by (rule bits_le)
  then have "e \<le> k" by (simp add: e_def)
  then have k: "n * 2 ^ k = 2 ^ e * (n * 2 ^ (k - e))" by (simp flip: power_add)
  have "half_even (2 ^ e) (2 ^ e * (n * 2 ^ (k - e))) = n * 2 ^ (k - e)" by (rule half_even_exact) simp
  then have "half_even (2 ^ e) (n * 2 ^ k) * 2 ^ e = n * 2 ^ k" unfolding k by (simp only: mult.commute)
  then show ?thesis by (simp add: round_bits_def flip: e_def)
qed

lemma round_ratio_mono:
  assumes "0 < d" and "m \<le> n"
  shows "round_ratio m d \<le> round_ratio n d"
proof -
  have "nat (- n) \<le> nat (- m)" "nat m \<le> nat n" using assms by simp_all
  then show ?thesis
    using round_bits_mono[OF assms(1)] by (auto simp: round_ratio_def)
qed

section \<open>Operations\<close>

text \<open>\<open>n as f64\<close> for an integer, \<open>x + y\<close>, \<open>x - y\<close>, and \<open>x / n\<close> by a positive integer.\<close>

definition f64_unit :: int where
  "f64_unit = 2 ^ 1074"

definition f64_of_int :: "int \<Rightarrow> f64" where
  "f64_of_int n = f64_of_ratio (n * f64_unit) 1"

fun f64_neg :: "f64 \<Rightarrow> f64" where
  "f64_neg (Finite a) = Finite (- a)"
| "f64_neg (Infinite s) = Infinite (\<not> s)"
| "f64_neg NaN = NaN"

fun f64_add :: "f64 \<Rightarrow> f64 \<Rightarrow> f64" where
  "f64_add (Finite a) (Finite b) = f64_of_ratio (a + b) 1"
| "f64_add (Infinite s) (Finite b) = Infinite s"
| "f64_add (Finite a) (Infinite t) = Infinite t"
| "f64_add (Infinite s) (Infinite t) = (if s = t then Infinite s else NaN)"
| "f64_add NaN y = NaN"
| "f64_add x NaN = NaN"

definition f64_sub :: "f64 \<Rightarrow> f64 \<Rightarrow> f64" where
  "f64_sub x y = f64_add x (f64_neg y)"

fun f64_div_int :: "f64 \<Rightarrow> nat \<Rightarrow> f64" where
  "f64_div_int (Finite a) n = f64_of_ratio a n"
| "f64_div_int x n = x"

fun is_finite :: "f64 \<Rightarrow> bool" where
  "is_finite (Finite a) = True"
| "is_finite x = False"

fun f64_less :: "f64 \<Rightarrow> f64 \<Rightarrow> bool" where
  "f64_less (Finite a) (Finite b) = (a < b)"
| "f64_less (Finite a) (Infinite t) = (\<not> t)"
| "f64_less (Infinite s) (Finite b) = s"
| "f64_less (Infinite s) (Infinite t) = (s \<and> \<not> t)"
| "f64_less NaN y = False"
| "f64_less x NaN = False"

fun f64_le :: "f64 \<Rightarrow> f64 \<Rightarrow> bool" where
  "f64_le NaN y = False"
| "f64_le x NaN = False"
| "f64_le x y = (\<not> f64_less y x)"

definition f64_eq :: "f64 \<Rightarrow> f64 \<Rightarrow> bool" where
  "f64_eq x y = (x = y \<and> x \<noteq> NaN)"

text \<open>\<open>x as i64\<close>, which truncates and saturates, and \<open>x.fract() == 0.0\<close>.\<close>

fun f64_as_i64 :: "f64 \<Rightarrow> int" where
  "f64_as_i64 (Finite a) =
     max (- (2 ^ 63)) (min (2 ^ 63 - 1) (if 0 \<le> a then a div f64_unit else - ((- a) div f64_unit)))"
| "f64_as_i64 (Infinite s) = (if s then - (2 ^ 63) else 2 ^ 63 - 1)"
| "f64_as_i64 NaN = 0"

fun fract_is_zero :: "f64 \<Rightarrow> bool" where
  "fract_is_zero (Finite a) = (a mod f64_unit = 0)"
| "fract_is_zero x = False"

section \<open>Integers as floats\<close>

lemma round_ratio_exact:
  assumes "\<bar>n\<bar> < 2 ^ 53"
  shows "round_ratio (n * 2 ^ k) 1 = n * 2 ^ k"
proof -
  have r: "int (round_bits 1 (nat (m * 2 ^ k))) = m * 2 ^ k" if "0 \<le> m" "m < 2 ^ 53" for m :: int
  proof -
    have "nat m < 2 ^ 53" using that by (simp add: nat_less_iff)
    moreover have "nat (m * 2 ^ k) = nat m * 2 ^ k" using that by (simp add: nat_mult_distrib nat_power_eq)
    ultimately show ?thesis using that(1) by (simp only: round_bits_exact) simp
  qed
  show ?thesis
  proof (cases "0 \<le> n")
    case True
    with assms r[of n] show ?thesis by (simp add: round_ratio_def)
  next
    case False
    with assms r[of "- n"] show ?thesis by (simp add: round_ratio_def zero_le_mult_iff)
  qed
qed

lemma f64_exact:
  assumes "\<bar>n\<bar> < 2 ^ 53"
  shows "f64_of_ratio (n * f64_unit) 1 = Finite (n * f64_unit)"
proof -
  have "\<bar>n * f64_unit\<bar> < 2 ^ 53 * 2 ^ 1074"
    unfolding f64_unit_def abs_mult power_abs using assms by (subst abs_numeral) (rule mult_strict_right_mono, simp_all del: power_numeral)
  also have "\<dots> \<le> (2 :: int) ^ 2098" by (simp flip: power_add del: power_numeral)
  finally show ?thesis
    using round_ratio_exact[OF assms, of 1074] by (simp add: f64_of_ratio_def f64_limit_def f64_unit_def Let_def del: power_numeral)
qed

lemma f64_of_int_exact: "\<bar>n\<bar> < 2 ^ 53 \<Longrightarrow> f64_of_int n = Finite (n * f64_unit)"
  unfolding f64_of_int_def by (rule f64_exact)

lemma f64_unit_pos: "0 < f64_unit"
  by (simp add: f64_unit_def del: power_numeral)

lemma f64_of_int_less:
  "\<bar>a\<bar> < 2 ^ 53 \<Longrightarrow> \<bar>b\<bar> < 2 ^ 53 \<Longrightarrow> f64_less (f64_of_int a) (f64_of_int b) = (a < b)"
  using f64_unit_pos by (simp add: f64_of_int_exact del: power_numeral)

lemma f64_of_int_le:
  "\<bar>a\<bar> < 2 ^ 53 \<Longrightarrow> \<bar>b\<bar> < 2 ^ 53 \<Longrightarrow> f64_le (f64_of_int a) (f64_of_int b) = (a \<le> b)"
  using f64_unit_pos by (simp add: f64_of_int_exact not_less del: power_numeral)

lemma f64_of_int_sub:
  assumes "\<bar>a\<bar> < 2 ^ 53" "\<bar>b\<bar> < 2 ^ 53" "\<bar>a - b\<bar> < 2 ^ 53"
  shows "f64_sub (f64_of_int a) (f64_of_int b) = f64_of_int (a - b)"
  using assms f64_exact[of "a - b"]
  by (simp add: f64_of_int_exact f64_sub_def left_diff_distrib del: power_numeral)

lemma f64_of_int_add:
  assumes "\<bar>a\<bar> < 2 ^ 53" "\<bar>b\<bar> < 2 ^ 53" "\<bar>a + b\<bar> < 2 ^ 53"
  shows "f64_add (f64_of_int a) (f64_of_int b) = f64_of_int (a + b)"
  using assms f64_exact[of "a + b"]
  by (simp add: f64_of_int_exact distrib_right del: power_numeral)

text \<open>A rounded difference exceeds a whole number only if the exact difference does.\<close>

lemma f64_sub_exceeds:
  assumes c: "\<bar>c\<bar> < 2 ^ 53" and less: "f64_less (f64_of_int c) (f64_sub (Finite a) (Finite b))"
  shows "c * f64_unit < a - b"
proof (rule ccontr)
  have "c * f64_unit < f64_limit" using f64_exact[OF c] round_ratio_exact[OF c, of 1074]
    by (simp add: f64_of_ratio_def f64_unit_def Let_def split: if_splits del: power_numeral)
  moreover assume "\<not> c * f64_unit < a - b"
  then have "round_ratio (a - b) 1 \<le> c * f64_unit"
    using round_ratio_mono[of 1 "a - b" "c * f64_unit"] round_ratio_exact[OF c, of 1074]
    by (simp add: f64_unit_def del: power_numeral)
  ultimately show False using less c
    by (simp add: f64_of_int_exact f64_sub_def f64_of_ratio_def Let_def split: if_splits del: power_numeral)
qed

end
