(* ===== verification/Json_Value.thy ===== *)
theory Json_Value
  imports Ordered_Store Rust_Float
begin

text \<open>
  The JSON values of \<open>serde_json\<close> as data, with the accessors the sources use. Objects are
  ordered maps (the crate is built without \<open>preserve_order\<close>), numbers keep the crate's three
  representations, and the crate compares floats numerically. Parsing and printing of text is not part of
  the model.
\<close>

datatype json_number = PosInt u64 | NegInt int | Float f64

datatype json =
    JNull
  | JBool bool
  | JNumber json_number
  | JString string
  | JArray "json list"
  | JObject "(string, json) omap"

text \<open>\<open>Value::get\<close> with a string key, and \<open>value[key]\<close>, which reads a missing key as null.\<close>

fun json_get :: "json \<Rightarrow> string \<Rightarrow> json option" where
  "json_get (JObject m) k = om_get m k"
| "json_get _ k = None"

definition json_index :: "json \<Rightarrow> string \<Rightarrow> json" where
  "json_index v k = (case json_get v k of Some x \<Rightarrow> x | None \<Rightarrow> JNull)"

text \<open>\<open>value[key] = x\<close>: null becomes an object, any other non-object panics (\<open>None\<close>).\<close>

fun json_set :: "json \<Rightarrow> string \<Rightarrow> json \<Rightarrow> json option" where
  "json_set (JObject m) k x = Some (JObject (om_insert k x m))"
| "json_set JNull k x = Some (JObject [(k, x)])"
| "json_set _ k x = None"

fun as_str :: "json \<Rightarrow> string option" where
  "as_str (JString s) = Some s"
| "as_str _ = None"

fun as_bool :: "json \<Rightarrow> bool option" where
  "as_bool (JBool b) = Some b"
| "as_bool _ = None"

fun as_u64 :: "json \<Rightarrow> u64 option" where
  "as_u64 (JNumber (PosInt n)) = Some n"
| "as_u64 _ = None"

text \<open>\<open>Number::as_f64\<close>, which always answers, and \<open>Number::from_f64\<close>, which refuses what is not finite.\<close>

fun number_f64 :: "json_number \<Rightarrow> f64" where
  "number_f64 (PosInt n) = f64_of_int (uint n)"
| "number_f64 (NegInt n) = f64_of_int n"
| "number_f64 (Float x) = x"

definition number_from_f64 :: "f64 \<Rightarrow> json_number option" where
  "number_from_f64 x = (if is_finite x then Some (Float x) else None)"

fun as_array :: "json \<Rightarrow> json list option" where
  "as_array (JArray xs) = Some xs"
| "as_array _ = None"

fun as_object :: "json \<Rightarrow> (string, json) omap option" where
  "as_object (JObject m) = Some m"
| "as_object _ = None"

definition is_object :: "json \<Rightarrow> bool" where
  "is_object v = (as_object v \<noteq> None)"

lemma is_object_simps [simp]: "is_object (JObject m)"
  "\<not> is_object JNull" "\<not> is_object (JBool b)" "\<not> is_object (JNumber n)"
  "\<not> is_object (JString s)" "\<not> is_object (JArray xs)"
  by (simp_all add: is_object_def)

lemma is_object_cases: "is_object v \<longleftrightarrow> (\<exists>m. v = JObject m)"
  by (cases v) simp_all

lemma as_str_index_object: "as_str (json_index v k) \<noteq> None \<Longrightarrow> is_object v"
  by (cases v) (simp_all add: json_index_def)

lemma json_index_JObject [simp]:
  "json_index (JObject (om_insert k x m)) j = (if j = k then x else json_index (JObject m) j)"
  by (simp add: json_index_def)

text \<open>Every object occurring in a value has ordered keys.\<close>

fun json_wf :: "json \<Rightarrow> bool" where
  "json_wf (JArray xs) = (\<forall>x \<in> set xs. json_wf x)"
| "json_wf (JObject m) = (om_wf m \<and> (\<forall>e \<in> set m. json_wf (snd e)))"
| "json_wf _ = True"

lemma json_wf_insert:
  "json_wf (JObject m) \<Longrightarrow> json_wf x \<Longrightarrow> json_wf (JObject (om_insert k x m))"
  by (auto dest!: om_insert_member)

lemma json_wf_set: "json_wf v \<Longrightarrow> json_wf x \<Longrightarrow> json_set v k x = Some v' \<Longrightarrow> json_wf v'"
  by (cases v) (auto simp del: json_wf.simps(2) intro: json_wf_insert simp: om_wf_Cons
      json_wf.simps(2)[of "[(k, x)]"])

lemma json_wf_get: "json_wf v \<Longrightarrow> json_get v k = Some x \<Longrightarrow> json_wf x"
  by (cases v) (auto dest!: map_of_SomeD)

end
