(* ===== verification/Receipt_Adapter.thy ===== *)
theory Receipt_Adapter
  imports Request_Settlement Json_Value
begin

text \<open>
  Durable tool receipts, \<open>runtime-services/src/tool_requests/lifecycle.rs\<close> and
  \<open>admission.rs\<close>: persisted JSON records are classified into operation states, every action
  runs the operation lifecycle on the state read from the record, and the result is written
  back. The digest of a request's content, the parser of JSON text, the request-result
  admission and the record validator are parameters.
\<close>

section \<open>Persisted domains\<close>

datatype tool_request_status =
  TsQueued | TsRunning | TsCancelled | TsInterrupted | TsFailed | TsUnknown | TsCompleted

datatype tool_request_outcome = ToPending | ToApplied | ToNotApplied | ToUnknown

primrec status_str :: "tool_request_status \<Rightarrow> string" where
  "status_str TsQueued = ''queued''"
| "status_str TsRunning = ''running''"
| "status_str TsCancelled = ''cancelled''"
| "status_str TsInterrupted = ''interrupted''"
| "status_str TsFailed = ''failed''"
| "status_str TsUnknown = ''unknown''"
| "status_str TsCompleted = ''completed''"

primrec outcome_str :: "tool_request_outcome \<Rightarrow> string" where
  "outcome_str ToPending = ''pending''"
| "outcome_str ToApplied = ''applied''"
| "outcome_str ToNotApplied = ''not_applied''"
| "outcome_str ToUnknown = ''unknown''"

definition status_from_str :: "string \<Rightarrow> tool_request_status option" where
  "status_from_str s =
     find (\<lambda>v. status_str v = s)
       [TsQueued, TsRunning, TsCancelled, TsInterrupted, TsFailed, TsUnknown, TsCompleted]"

definition outcome_from_str :: "string \<Rightarrow> tool_request_outcome option" where
  "outcome_from_str s =
     find (\<lambda>v. outcome_str v = s) [ToPending, ToApplied, ToNotApplied, ToUnknown]"

lemma status_from_str_str [simp]: "status_from_str (status_str v) = Some v"
  by (cases v) (simp_all add: status_from_str_def)

lemma outcome_from_str_str [simp]: "outcome_from_str (outcome_str v) = Some v"
  by (cases v) (simp_all add: outcome_from_str_def)

section \<open>Reading and writing a receipt\<close>

datatype tool_request_error = InvalidRecord string | InvalidRequest string | IndexPanic

definition text_field :: "json \<Rightarrow> string \<Rightarrow> string" where
  "text_field record key =
     (case json_get record key of Some v \<Rightarrow> (case as_str v of Some s \<Rightarrow> s | None \<Rightarrow> []) | None \<Rightarrow> [])"

definition flag :: "json \<Rightarrow> string \<Rightarrow> bool" where
  "flag record key = (json_index record key = JBool True)"

fun receipt_phase ::
  "tool_request_status \<Rightarrow> tool_request_outcome \<Rightarrow> bool \<Rightarrow> operation_state option" where
  "receipt_phase TsQueued ToPending _ = Some Reserved"
| "receipt_phase TsRunning ToPending cancel = Some (if cancel then CancelRequested else Dispatched)"
| "receipt_phase TsCancelled ToNotApplied _ = Some CancelledBeforeDispatch"
| "receipt_phase TsQueued ToUnknown _ = Some OpUnknown"
| "receipt_phase TsRunning ToUnknown _ = Some OpUnknown"
| "receipt_phase TsInterrupted ToUnknown _ = Some OpUnknown"
| "receipt_phase TsFailed ToUnknown _ = Some OpUnknown"
| "receipt_phase TsUnknown ToUnknown _ = Some OpUnknown"
| "receipt_phase TsCompleted ToApplied _ = Some OpApplied"
| "receipt_phase TsCompleted ToNotApplied _ = Some OpNotApplied"
| "receipt_phase TsFailed ToNotApplied _ = Some OpNotApplied"
| "receipt_phase _ _ _ = None"

definition classify :: "json \<Rightarrow> tool_request_error + operation_state" where
  "classify record =
     (let invalid = InvalidRecord (text_field record ''id'') in
      case Option.bind (as_str (json_index record ''stage'')) status_from_str of
        None \<Rightarrow> Inl invalid
      | Some status \<Rightarrow>
          (case Option.bind (as_str (json_index record ''outcome'')) outcome_from_str of
             None \<Rightarrow> Inl invalid
           | Some out \<Rightarrow>
               (case receipt_phase status out (flag record ''cancelRequested'') of
                  None \<Rightarrow> Inl invalid
                | Some p \<Rightarrow> Inr p)))"

definition terminal :: "json \<Rightarrow> tool_request_error + bool" where
  "terminal record =
     try_result (classify record)
       (\<lambda>p. Inr (p = OpApplied \<or> p = OpNotApplied \<or> p = CancelledBeforeDispatch))"

fun phase_revision :: "operation_state \<Rightarrow> u64" where
  "phase_revision Reserved = 0"
| "phase_revision Dispatched = 1"
| "phase_revision CancelRequested = 2"
| "phase_revision _ = 3"

text \<open>The digest is a parameter: it maps the record's signature and agent values to 32 bytes.\<close>

type_synonym digest = "json \<Rightarrow> json \<Rightarrow> content_fingerprint"

definition receipt_account :: "json \<Rightarrow> account_id" where
  "receipt_account record =
     (case as_str (json_index record ''accountKey'') of Some s \<Rightarrow> s | None \<Rightarrow> ''default'')"

definition receipt_identity :: "json \<Rightarrow> operation_identity" where
  "receipt_identity record =
     \<lparr>oi_scope = ToolRequest (receipt_account record) (text_field record ''threadId''),
      oi_request_id = text_field record ''id''\<rparr>"

definition receipt_content :: "digest \<Rightarrow> json \<Rightarrow> content_fingerprint" where
  "receipt_content digest record =
     digest (json_index record ''signature'') (json_index record ''agent'')"

definition receipt_attempt :: "json \<Rightarrow> attempt_identity" where
  "receipt_attempt record =
     \<lparr>at_agent = text_field record ''agent'', at_account = receipt_account record,
      at_thread = text_field record ''threadId'',
      at_epoch = (case as_u64 (json_index record ''epoch'') of Some n \<Rightarrow> n | None \<Rightarrow> 0),
      at_generation =
        Option.bind (json_get record ''supervisor'')
          (\<lambda>v. Option.bind (json_get v ''generation'') as_u64)\<rparr>"

definition receipt_operation :: "digest \<Rightarrow> json \<Rightarrow> operation_state \<Rightarrow> operation" where
  "receipt_operation digest record lifecycle =
     \<lparr>op_identity = receipt_identity record, op_content = receipt_content digest record,
      op_attempt = receipt_attempt record, op_state = lifecycle\<rparr>"

definition receipt_state :: "digest \<Rightarrow> json \<Rightarrow> tool_request_error + slot_state" where
  "receipt_state digest record =
     try_result (classify record)
       (\<lambda>lifecycle. Inr \<lparr>st_revision = phase_revision lifecycle,
          st_operation = Some (receipt_operation digest record lifecycle),
          st_tombstone = None\<rparr>)"

fun receipt_columns ::
  "operation_state \<Rightarrow> bool \<Rightarrow> tool_request_status \<times> tool_request_outcome \<times> bool" where
  "receipt_columns Reserved _ = (TsQueued, ToPending, False)"
| "receipt_columns Dispatched _ = (TsRunning, ToPending, False)"
| "receipt_columns CancelRequested _ = (TsRunning, ToPending, True)"
| "receipt_columns CancelledBeforeDispatch _ = (TsCancelled, ToNotApplied, True)"
| "receipt_columns OpNotApplied requested = (TsFailed, ToNotApplied, requested)"
| "receipt_columns OpApplied requested = (TsCompleted, ToApplied, requested)"
| "receipt_columns OpUnknown requested = (TsFailed, ToUnknown, requested)"

text \<open>Field assignments \<open>record[key] = value\<close> in sequence; assigning into a scalar panics.\<close>

fun json_sets :: "json \<Rightarrow> (string \<times> json) list \<Rightarrow> tool_request_error + json" where
  "json_sets record [] = Inr record"
| "json_sets record ((k, x) # kvs) =
     (case json_set record k x of None \<Rightarrow> Inl IndexPanic | Some r \<Rightarrow> json_sets r kvs)"

definition apply_state :: "json \<Rightarrow> slot_state \<Rightarrow> tool_request_error + (bool \<times> json)" where
  "apply_state record s =
     (case st_operation s of
        None \<Rightarrow> Inl (InvalidRequest ''Invalid request lifecycle'')
      | Some operation \<Rightarrow>
          try_result (classify record) (\<lambda>p.
            if p = op_state operation then Inr (False, record)
            else case receipt_columns (op_state operation) (flag record ''cancelRequested'') of
              (stage, out, cancel) \<Rightarrow>
                try_result
                  (json_sets record [(''stage'', JString (status_str stage)),
                                     (''outcome'', JString (outcome_str out)),
                                     (''cancelRequested'', JBool cancel)])
                  (\<lambda>r. Inr (True, r))))"

section \<open>Actions on a receipt\<close>

text \<open>
  \<open>cancel\<close>, \<open>claim\<close>, \<open>reject\<close> and \<open>restart\<close> decide one lifecycle event on the state read from
  the record, addressed with the state's own revision, identity and attempt.
\<close>

definition receipt_decision ::
  "digest \<Rightarrow> json \<Rightarrow> event_id \<Rightarrow> event_kind \<Rightarrow> tool_request_error + op_decision" where
  "receipt_decision digest record eid kind =
     try_result (receipt_state digest record) (\<lambda>s.
       case st_operation s of
         None \<Rightarrow> Inl (InvalidRequest ''Invalid request lifecycle'')
       | Some operation \<Rightarrow> Inr (transition s (own_event eid s operation kind)))"

definition conflicting :: tool_request_error where
  "conflicting = InvalidRequest ''Conflicting request lifecycle evidence''"

definition cancel_receipt :: "digest \<Rightarrow> json \<Rightarrow> tool_request_error + (bool \<times> json)" where
  "cancel_receipt digest record =
     try_result (receipt_decision digest record ''cancel'' Cancel) (\<lambda>d.
       case dc_kind d of
         Rejected _ \<Rightarrow> Inl conflicting
       | Transitioned \<Rightarrow> apply_state record (dc_next_state d)
       | _ \<Rightarrow> Inr (False, record))"

definition restart_receipt :: "digest \<Rightarrow> json \<Rightarrow> tool_request_error + (bool \<times> json)" where
  "restart_receipt digest record =
     try_result (receipt_decision digest record ''restart'' ServerRestarted) (\<lambda>d.
       case dc_kind d of
         Rejected _ \<Rightarrow> Inl conflicting
       | Transitioned \<Rightarrow> apply_state record (dc_next_state d)
       | _ \<Rightarrow> Inr (False, record))"

text \<open>\<open>now\<close> is the JSON number of the claim's clock reading.\<close>

definition claim_receipt :: "digest \<Rightarrow> json \<Rightarrow> json \<Rightarrow> tool_request_error + (bool \<times> json)" where
  "claim_receipt digest record now =
     try_result (receipt_decision digest record ''claim'' ClaimDispatch) (\<lambda>d.
       if dc_kind d \<noteq> Transitioned then Inr (False, record)
       else try_result (apply_state record (dc_next_state d)) (\<lambda>(_, r).
              try_result (json_sets r [(''updated'', now), (''started'', now)])
                (\<lambda>r. Inr (True, r))))"

definition reject_receipt :: "digest \<Rightarrow> json \<Rightarrow> tool_request_error + json" where
  "reject_receipt digest record =
     try_result
       (receipt_decision digest record ''refused'' (DefinitiveRejection ExactPreWriteRejection))
       (\<lambda>d. case dc_kind d of
          Rejected _ \<Rightarrow> Inl conflicting
        | _ \<Rightarrow> try_result (apply_state record (dc_next_state d)) (\<lambda>(_, r). Inr r))"

definition request_tool_of_name :: "string \<Rightarrow> request_tool" where
  "request_tool_of_name s =
     (case map_of
        [(''orchestration_servers'', OrchestrationServers),
         (''orchestration_read'', OrchestrationRead),
         (''orchestration_peers'', OrchestrationRead),
         (''orchestration_search'', OrchestrationRead),
         (''orchestration_chat_read'', OrchestrationRead),
         (''orchestration_user_task'', OrchestrationUserTask),
         (''orchestration_task'', OrchestrationTask),
         (''orchestration_message'', OrchestrationMessage),
         (''orchestration_agent_manage'', OrchestrationAgentManage),
         (''orchestration_monitor'', OrchestrationMonitor),
         (''orchestration_monitor_input'', OrchestrationMonitorInput),
         (''orchestration_watch'', OrchestrationWatch),
         (''orchestration_context'', OrchestrationContext),
         (''orchestration_title'', OrchestrationTitle)] s of
        Some t \<Rightarrow> t | None \<Rightarrow> OtherTool)"

text \<open>
  An enum of unit variants is read from its name, or from an object with the name as its only
  key and null as the value.
\<close>

fun request_tool_of :: "json \<Rightarrow> request_tool" where
  "request_tool_of (JString s) = request_tool_of_name s"
| "request_tool_of (JObject [(k, JNull)]) = request_tool_of_name k"
| "request_tool_of _ = OtherTool"

definition first_input_text :: "json \<Rightarrow> string option" where
  "first_input_text result =
     Option.bind
       (find (\<lambda>item. json_index item ''type'' = JString ''inputText'')
          (case as_array (json_index result ''contentItems'') of Some xs \<Rightarrow> xs | None \<Rightarrow> []))
       (\<lambda>item. as_str (json_index item ''text''))"

definition server_outcome_of :: "json \<Rightarrow> outcome option" where
  "server_outcome_of v =
     (case as_str (json_index v ''outcome'') of
        None \<Rightarrow> None
      | Some s \<Rightarrow>
          if s = ''applied'' then Some Applied
          else if s = ''not_applied'' then Some NotApplied
          else if s = ''unknown'' then Some Unknown
          else None)"

definition receipt_settlement ::
  "(string \<Rightarrow> json option) \<Rightarrow> json \<Rightarrow> json \<Rightarrow> bool \<Rightarrow> settlement_input" where
  "receipt_settlement parse record result committed =
     (let first = first_input_text result;
          tool = request_tool_of (json_index record ''tool'')
      in \<lparr>si_request_id = text_field record ''id'', si_event_id = ''settle'',
          si_evidence =
            \<lparr>re_tool = tool, re_success = as_bool (json_index result ''success''),
             re_read_only = flag record ''readOnly'', re_first_error = first,
             re_server_outcome =
               (if tool = OrchestrationServers
                then Option.bind (Option.bind first parse) server_outcome_of else None)\<rparr>,
          si_explicit_outcome = None, si_proof = None,
          si_operation_receipt_present = committed,
          si_result_changed = (json_get record ''result'' \<noteq> Some result)\<rparr>)"

definition settle_receipt ::
  "digest \<Rightarrow> (string \<Rightarrow> json option) \<Rightarrow> json \<Rightarrow> json \<Rightarrow> bool \<Rightarrow> tool_request_error + (bool \<times> json)" where
  "settle_receipt digest parse record result committed =
     try_result (receipt_state digest record) (\<lambda>s.
       case decide_settlement s (receipt_settlement parse record result committed) of
         Inl _ \<Rightarrow> Inl conflicting
       | Inr d \<Rightarrow>
           if sd_kind d = NoChange then Inr (False, record)
           else apply_state record (sd_state d))"

section \<open>Reserving a receipt\<close>

text \<open>
  \<open>begin\<close> stands for the request-result admission (\<open>event_write::begin_request\<close>) of the candidate
  under its id, \<open>validate\<close> for the record validator. The table maps request ids to records.
\<close>

datatype caller_admission = Fresh json | Replay

definition add_alias :: "request_write_intent \<Rightarrow> json list \<Rightarrow> json list" where
  "add_alias intent xs =
     (case intent of
        InsertAlias alias \<Rightarrow>
          (let x = JString (ra_alias alias) in if x \<in> set xs then xs else xs @ [x])
      | SaveRequest _ \<Rightarrow> xs)"

definition array_or_empty :: "json \<Rightarrow> json list" where
  "array_or_empty v = (case as_array v of Some xs \<Rightarrow> xs | None \<Rightarrow> [])"

definition finish_reserve ::
  "(string \<Rightarrow> json \<Rightarrow> tool_request_error + unit) \<Rightarrow> (string \<rightharpoonup> json) \<Rightarrow> string \<Rightarrow>
   json \<Rightarrow> slot_state \<Rightarrow> request_write_intent list \<Rightarrow>
   tool_request_error + (json \<times> (string \<rightharpoonup> json))" where
  "finish_reserve validate table rid record s intents =
     try_result (apply_state record s) (\<lambda>(_, r).
       try_result (json_sets r [(''aliases'',
           JArray (fold add_alias intents (array_or_empty (json_index r ''aliases''))))]) (\<lambda>r.
         try_result (validate rid r) (\<lambda>_. Inr (r, table(rid \<mapsto> r)))))"

definition admit_candidate ::
  "(json \<Rightarrow> string \<Rightarrow> tool_request_error + caller_admission) \<Rightarrow> json option \<Rightarrow> json \<Rightarrow> string \<Rightarrow>
   tool_request_error + json" where
  "admit_candidate begin_request existing candidate rid =
     (case existing of
        Some _ \<Rightarrow> Inr candidate
      | None \<Rightarrow>
          try_result (begin_request candidate rid) (\<lambda>admission.
            case admission of
              Fresh admitted \<Rightarrow>
                json_sets candidate [(''admitted'', admitted), (''kind'', JString ''managed_tool'')]
            | Replay \<Rightarrow>
                Inl (InvalidRequest ''Request already completed; recover its original receipt'')))"

definition other_actor :: "json \<Rightarrow> json \<Rightarrow> bool" where
  "other_actor old candidate =
     (json_index old ''agent'' \<noteq> json_index candidate ''agent''
      \<or> json_index old ''epoch'' \<noteq> json_index candidate ''epoch''
      \<or> json_index old ''accountKey'' \<noteq> json_index candidate ''accountKey''
      \<or> json_index old ''threadId'' \<noteq> json_index candidate ''threadId'')"

definition reserve_receipt ::
  "digest \<Rightarrow> (json \<Rightarrow> string \<Rightarrow> tool_request_error + caller_admission) \<Rightarrow>
   (string \<Rightarrow> json \<Rightarrow> tool_request_error + unit) \<Rightarrow> (string \<rightharpoonup> json) \<Rightarrow>
   json \<Rightarrow> string \<Rightarrow> string \<Rightarrow> string option \<Rightarrow>
   tool_request_error + (json \<times> (string \<rightharpoonup> json))" where
  "reserve_receipt digest begin_request validate table candidate0 call prefix alias =
     (case as_str (json_index candidate0 ''id'') of
        None \<Rightarrow> Inl (InvalidRequest ''Invalid request identity'')
      | Some rid \<Rightarrow>
          (let existing = table rid in
           try_result (admit_candidate begin_request existing candidate0 rid) (\<lambda>candidate.
             if (case existing of Some old \<Rightarrow> other_actor old candidate | None \<Rightarrow> False)
             then Inl (InvalidRequest ''Tool receipt belongs to another actor or turn'')
             else try_result (receipt_state digest candidate) (\<lambda>s.
               case st_operation s of
                 None \<Rightarrow> Inl (InvalidRequest ''Invalid request lifecycle'')
               | Some operation \<Rightarrow>
                   try_result
                     (case existing of
                        None \<Rightarrow> Inr None
                      | Some old \<Rightarrow> try_result (receipt_state digest old) (\<lambda>t. Inr (Some t)))
                     (\<lambda>snapshot.
                       case decide_reservation \<lparr>rs_existing = snapshot\<rparr>
                              \<lparr>ri_identity = op_identity operation, ri_alias_target = rid,
                               ri_content = op_content operation,
                               ri_attempt = op_attempt operation, ri_call_id = call,
                               ri_alias_prefix = prefix, ri_request_alias = alias\<rparr> of
                         RdAdmitted s intents \<Rightarrow>
                           finish_reserve validate table rid candidate s intents
                       | RdReturnExisting s intents \<Rightarrow>
                           (case existing of
                              None \<Rightarrow> Inl (InvalidRequest ''Missing request'')
                            | Some old \<Rightarrow> finish_reserve validate table rid old s intents)
                       | RdRejected _ _ \<Rightarrow>
                           Inl (InvalidRequest ''Request identity already has different content'')))
             )))"

section \<open>Writing back what was decided\<close>

lemma classify_object: "classify record = Inr p \<Longrightarrow> is_object record"
  by (rule as_str_index_object [where k = "''stage''"])
     (auto simp: classify_def Let_def bind_eq_Some_conv split: option.splits)

lemma text_field_insert:
  "text_field (JObject (om_insert k x m)) j =
     (if j = k then (case as_str x of Some s \<Rightarrow> s | None \<Rightarrow> []) else text_field (JObject m) j)"
  by (simp add: text_field_def)

lemma classify_insert_other:
  assumes "k \<notin> {''id'', ''stage'', ''outcome'', ''cancelRequested''}"
  shows "classify (JObject (om_insert k x m)) = classify (JObject m)"
proof -
  let ?r = "JObject (om_insert k x m)"
  have "json_index ?r j = json_index (JObject m) j \<and> text_field ?r j = text_field (JObject m) j"
    if "j \<in> {''id'', ''stage'', ''outcome'', ''cancelRequested''}" for j
    using that assms by (auto simp: text_field_insert)
  then show ?thesis by (simp only: classify_def flag_def insert_iff simp_thms)
qed

lemma receipt_phase_columns:
  "receipt_columns p requested = (stage, out, cancel) \<Longrightarrow> receipt_phase stage out cancel = Some p"
  by (cases p) auto

lemma apply_state_result:
  assumes "classify record = Inr p" "st_operation s = Some operation"
  shows "\<exists>r. apply_state record s = Inr (p \<noteq> op_state operation, r)
           \<and> classify r = Inr (op_state operation) \<and> (p = op_state operation \<longrightarrow> r = record)
           \<and> is_object r"
proof (cases "p = op_state operation")
  case True
  with assms classify_object [OF assms(1)] show ?thesis by (simp add: apply_state_def)
next
  case False
  from classify_object [OF assms(1)] obtain m where m: "record = JObject m"
    by (auto simp: is_object_cases)
  obtain stage out cancel where
    c: "receipt_columns (op_state operation) (flag record ''cancelRequested'') = (stage, out, cancel)"
    by (metis prod_cases3)
  let ?r = "JObject (om_insert ''cancelRequested'' (JBool cancel)
      (om_insert ''outcome'' (JString (outcome_str out))
        (om_insert ''stage'' (JString (status_str stage)) m)))"
  have "classify ?r = Inr (op_state operation)"
    using receipt_phase_columns [OF c] by (simp add: classify_def flag_def)
  with False assms c m show ?thesis by (simp add: apply_state_def)
qed

section \<open>Actions follow the lifecycle\<close>

lemma receipt_state_Inr:
  "classify record = Inr p \<Longrightarrow>
     receipt_state digest record = Inr \<lparr>st_revision = phase_revision p,
       st_operation = Some (receipt_operation digest record p), st_tombstone = None\<rparr>"
  by (simp add: receipt_state_def)

lemma receipt_operation_simps [simp]:
  "op_state (receipt_operation digest record p) = p"
  "op_identity (receipt_operation digest record p) = receipt_identity record"
  "op_content (receipt_operation digest record p) = receipt_content digest record"
  "op_attempt (receipt_operation digest record p) = receipt_attempt record"
  by (simp_all add: receipt_operation_def)

lemma phase_revision_max: "phase_revision p \<noteq> - 1"
  by (cases p) simp_all

text \<open>
  The decision on a receipt: absorbed, or rejected where the contract has no step, or the step
  of the contract.
\<close>

lemma receipt_decision_cases:
  assumes "classify record = Inr p" "\<forall>c. kind \<noteq> Admit c" "kind \<noteq> ReceiptMissing"
  obtains (absorbed) s operation where "absorbed p kind"
      "receipt_decision digest record eid kind = Inr (no_effect s)"
      "st_operation s = Some operation" "op_state operation = p"
  | (rejected) s error where "\<And>p'. \<not> phase_step (Some p) kind p'" "\<not> absorbed p kind"
      "receipt_decision digest record eid kind = Inr (reject s error)"
  | (step) d operation' where "receipt_decision digest record eid kind = Inr d"
      "dc_kind d = Transitioned" "st_operation (dc_next_state d) = Some operation'"
      "phase_step (Some p) kind (op_state operation')"
proof -
  let ?s = "\<lparr>st_revision = phase_revision p,
    st_operation = Some (receipt_operation digest record p), st_tombstone = None\<rparr>"
  let ?o = "receipt_operation digest record p"
  have o: "st_operation ?s = Some ?o" by simp
  have d: "receipt_decision digest record eid kind = Inr (transition ?s (own_event eid ?s ?o kind))"
    by (simp add: receipt_decision_def receipt_state_Inr [OF assms(1)])
  show ?thesis
  proof (cases rule: own_event_cases [OF o assms(2,3), of eid])
    case 1
    with d absorbed [of ?s ?o] show ?thesis by simp
  next
    case (2 error)
    show ?thesis
    proof (cases "absorbed p kind")
      case True
      with own_event_absorbed [OF o, of kind eid] d absorbed [of ?s ?o] show ?thesis by simp
    next
      case False
      with 2 d rejected [of ?s error] phase_revision_max [of p] show ?thesis by fastforce
    qed
  next
    case (3 operation' i)
    with d step [of "transition ?s (own_event eid ?s ?o kind)" operation'] show ?thesis
      by (auto simp: accepted_def applied_step_def)
  qed
qed

section \<open>Properties of receipts\<close>

definition sample_receipt :: "tool_request_status \<Rightarrow> tool_request_outcome \<Rightarrow> json" where
  "sample_receipt status out =
     JObject [(''agent'', JString ''agent''), (''id'', JString ''call-1''),
              (''outcome'', JString (outcome_str out)), (''stage'', JString (status_str status))]"

lemma classify_sample [simp]:
  "classify (sample_receipt status out) =
     (case receipt_phase status out False of
        None \<Rightarrow> Inl (InvalidRecord ''call-1'') | Some p \<Rightarrow> Inr p)"
  by (simp add: classify_def sample_receipt_def json_index_def flag_def text_field_def)

text \<open>C13: Writing a decided state into a valid receipt and reading it back gives that state; the
  write never panics and reports a change exactly when the receipt stood for another state.\<close>

theorem receipt_round_trip:
  assumes "classify record = Inr p" "st_operation s = Some operation"
  shows "\<exists>r. apply_state record s = Inr (p \<noteq> op_state operation, r)
           \<and> classify r = Inr (op_state operation) \<and> (p = op_state operation \<longrightarrow> r = record)"
  using apply_state_result [OF assms] by blast

theorem receipt_round_trip_witness:
  "\<exists>r. apply_state (sample_receipt TsRunning ToPending) (sample_slot 3 OpApplied) = Inr (True, r)
     \<and> classify r = Inr OpApplied"
  using receipt_round_trip [of "sample_receipt TsRunning ToPending" Dispatched
      "sample_slot 3 OpApplied" "\<lparr>op_identity = sample_identity, op_content = [1, 2, 3],
         op_attempt = sample_attempt, op_state = OpApplied\<rparr>"]
  by (simp add: sample_slot_def)

text \<open>C14: A receipt that stands for a settled operation is final: cancelling, restarting, claiming,
  rejecting and settling it succeed without changing it.\<close>

theorem terminal_receipt_is_final:
  assumes "classify record = Inr p" "settled_phase p"
  shows "cancel_receipt digest record = Inr (False, record)
    \<and> restart_receipt digest record = Inr (False, record)
    \<and> claim_receipt digest record now = Inr (False, record)
    \<and> reject_receipt digest record = Inr record
    \<and> settle_receipt digest parse record result committed = Inr (False, record)"
proof (intro conjI)
  note p = assms(2)[unfolded settled_phase_def]
  have no: "\<not> phase_step (Some p) k p'" for k p'
    using p by (auto simp: phase_step_present)
  show "cancel_receipt digest record = Inr (False, record)"
    by (rule receipt_decision_cases [OF assms(1), of Cancel digest "''cancel''"])
       (use p no in \<open>auto simp: cancel_receipt_def absorbed_def replayed_phase_def\<close>)
  show "restart_receipt digest record = Inr (False, record)"
    by (rule receipt_decision_cases [OF assms(1), of ServerRestarted digest "''restart''"])
       (use p no in \<open>auto simp: restart_receipt_def absorbed_def replayed_phase_def\<close>)
  show "claim_receipt digest record now = Inr (False, record)"
    by (rule receipt_decision_cases [OF assms(1), of ClaimDispatch digest "''claim''"])
       (use no in \<open>auto simp: claim_receipt_def\<close>)
  show "reject_receipt digest record = Inr record"
  proof (rule receipt_decision_cases [OF assms(1),
        of "DefinitiveRejection ExactPreWriteRejection" digest "''refused''"])
    fix s operation
    assume "receipt_decision digest record ''refused'' (DefinitiveRejection ExactPreWriteRejection)
        = Inr (no_effect s)" "st_operation s = Some operation" "op_state operation = p"
    then show ?thesis
      using apply_state_result [OF assms(1), of s operation] by (auto simp: reject_receipt_def)
  qed (use p no in \<open>auto simp: absorbed_def contradicts_settled_def\<close>)
  let ?s = "\<lparr>st_revision = phase_revision p,
    st_operation = Some (receipt_operation digest record p), st_tombstone = None\<rparr>"
  let ?input = "receipt_settlement parse record result committed"
  have "absorbed p (settlement_event ?input)"
    using p settlement_event_kinds [of ?input]
    by (auto simp: absorbed_def contradicts_settled_def replayed_phase_def not_applied_phase_def)
  then obtain d where "decide_settlement ?s ?input = Inr d" "sd_kind d = NoChange"
    using decide_settlement_again [of ?s "receipt_operation digest record p" ?input] p by auto
  then show "settle_receipt digest parse record result committed = Inr (False, record)"
    by (simp add: settle_receipt_def receipt_state_Inr [OF assms(1)])
qed

theorem terminal_receipt_is_final_witness:
  "claim_receipt (\<lambda>_ _. []) (sample_receipt TsCompleted ToNotApplied) JNull
     = Inr (False, sample_receipt TsCompleted ToNotApplied)"
  using terminal_receipt_is_final [of "sample_receipt TsCompleted ToNotApplied" OpNotApplied]
  by (simp add: settled_phase_def)

text \<open>A receipt can be claimed for execution exactly when it is queued; the claim makes it
  running, so no second claim succeeds.\<close>

lemma claim_receipt_once:
  assumes "classify record = Inr p"
  shows "\<exists>r. claim_receipt digest record now = Inr (p = Reserved, r)
     \<and> classify r = Inr (if p = Reserved then Dispatched else p)
     \<and> (\<exists>r'. claim_receipt digest' r now' = Inr (False, r'))"
proof -
  have claim: "\<exists>r. claim_receipt dg rec' nw = Inr (q = Reserved, r)
     \<and> classify r = Inr (if q = Reserved then Dispatched else q)"
    if q: "classify rec' = Inr q" for dg rec' nw q
  proof (cases rule: receipt_decision_cases [OF q, of ClaimDispatch dg "''claim''"])
    case (3 s operation)
    then show ?thesis
      using q by (auto simp: claim_receipt_def absorbed_def contradicts_settled_def
          replayed_phase_def)
  next
    case (4 s error)
    then show ?thesis
      using q phase_step.claim by (auto simp: claim_receipt_def)
  next
    case (5 d operation')
    then have ph: "q = Reserved" "op_state operation' = Dispatched"
      by (auto simp: phase_step_present)
    from apply_state_result [OF q 5(3)] ph obtain m where
      "apply_state rec' (dc_next_state d) = Inr (True, JObject m)"
      "classify (JObject m) = Inr Dispatched"
      by (auto simp: is_object_cases)
    with 5 ph show ?thesis by (simp add: claim_receipt_def classify_insert_other)
  qed simp_all
  from claim [OF assms, of digest now] obtain r where
    r: "claim_receipt digest record now = Inr (p = Reserved, r)"
      "classify r = Inr (if p = Reserved then Dispatched else p)"
    by blast
  with claim [OF r(2), of digest' now'] show ?thesis
    by (auto split: if_splits)
qed

text \<open>C15: A receipt with an unknown outcome whose new result still proves nothing is decided as
  \<open>Persisted\<close> when the result changed, but the adapter reports it as unchanged, so a caller
  that saves the record only on a reported change drops the new result.\<close>

theorem changed_unknown_result_is_dropped:
  assumes "classify record = Inr OpUnknown"
    and "settlement_event (receipt_settlement parse record result committed)
           \<in> {Failure InvalidPostExecutionResponse, CommittedOperationReceipt}"
    and "json_get record ''result'' \<noteq> Some result"
  shows "\<exists>s d. receipt_state digest record = Inr s
     \<and> decide_settlement s (receipt_settlement parse record result committed) = Inr d
     \<and> sd_kind d = Persisted
     \<and> settle_receipt digest parse record result committed = Inr (False, record)"
proof -
  let ?o = "receipt_operation digest record OpUnknown"
  let ?s = "\<lparr>st_revision = phase_revision OpUnknown, st_operation = Some ?o, st_tombstone = None\<rparr>"
  let ?input = "receipt_settlement parse record result committed"
  have s: "receipt_state digest record = Inr ?s" by (simp add: receipt_state_Inr [OF assms(1)])
  have "absorbed OpUnknown (settlement_event ?input)"
    using assms(2) by (auto simp: absorbed_def replayed_phase_def)
  then have "transition ?s (own_event ''settle'' ?s ?o (settlement_event ?input)) = no_effect ?s"
    using own_event_absorbed [of ?s ?o] by simp
  moreover have "si_event_id ?input = ''settle''" "si_result_changed ?input"
    using assms(3) by (simp_all add: receipt_settlement_def Let_def)
  ultimately obtain d where d: "decide_settlement ?s ?input = Inr d" "sd_kind d = Persisted"
    "sd_state d = ?s"
    by (simp add: decide_settlement_def Let_def)
  have "apply_state record ?s = Inr (False, record)"
    using apply_state_result [OF assms(1), of ?s ?o] by auto
  with s d show ?thesis by (auto simp: settle_receipt_def)
qed

theorem changed_unknown_result_is_dropped_witness:
  "settle_receipt (\<lambda>_ _. []) (\<lambda>_. None) (sample_receipt TsFailed ToUnknown)
     (JObject [(''success'', JBool False)]) False = Inr (False, sample_receipt TsFailed ToUnknown)"
proof -
  have e: "settlement_event (receipt_settlement (\<lambda>_. None) (sample_receipt TsFailed ToUnknown)
      (JObject [(''success'', JBool False)]) False) = Failure InvalidPostExecutionResponse"
    by code_simp
  have g: "json_get (sample_receipt TsFailed ToUnknown) ''result'' = None"
    by (simp add: sample_receipt_def)
  have c: "classify (sample_receipt TsFailed ToUnknown) = Inr OpUnknown" by simp
  from changed_unknown_result_is_dropped [OF c, of "\<lambda>_. None"
      "JObject [(''success'', JBool False)]" False "\<lambda>_ _. []"] e g
  show ?thesis by auto
qed

section \<open>Reserving twice\<close>

lemma fold_add_alias_keeps: "set xs \<subseteq> set (fold add_alias intents xs)"
proof (induction intents arbitrary: xs)
  case (Cons i intents)
  have "set xs \<subseteq> set (add_alias i xs)"
    by (auto simp: add_alias_def Let_def split: request_write_intent.split)
  with Cons [of "add_alias i xs"] show ?case by auto
qed simp

lemma fold_add_alias_has:
  "InsertAlias a \<in> set intents \<Longrightarrow> JString (ra_alias a) \<in> set (fold add_alias intents xs)"
proof (induction intents arbitrary: xs)
  case (Cons i intents)
  show ?case
  proof (cases "i = InsertAlias a")
    case True
    then have "JString (ra_alias a) \<in> set (add_alias i xs)" by (simp add: add_alias_def Let_def)
    with fold_add_alias_keeps [of "add_alias i xs" intents] show ?thesis by auto
  qed (use Cons in auto)
qed simp

lemma fold_add_alias_same:
  "(\<And>a. InsertAlias a \<in> set intents \<Longrightarrow> JString (ra_alias a) \<in> set xs) \<Longrightarrow>
     fold add_alias intents xs = xs"
proof (induction intents)
  case (Cons i intents)
  then have "add_alias i xs = xs"
    by (cases i) (simp_all add: add_alias_def Let_def)
  with Cons show ?case by simp
qed simp

lemma fold_add_alias_twice:
  assumes "set js \<subseteq> set intents"
  shows "fold add_alias js (fold add_alias intents xs) = fold add_alias intents xs"
  using assms by (intro fold_add_alias_same fold_add_alias_has) auto

text \<open>The keys a reservation reads from a receipt, none of which it writes except the phase.\<close>

definition receipt_keys :: "string set" where
  "receipt_keys = {''id'', ''agent'', ''epoch'', ''accountKey'', ''threadId'', ''signature'',
     ''supervisor''}"

definition same_request :: "json \<Rightarrow> json \<Rightarrow> bool" where
  "same_request a b = (\<forall>k \<in> receipt_keys. json_get a k = json_get b k)"

lemma same_request_refl [simp]: "same_request a a"
  by (simp add: same_request_def)

lemma same_request_trans: "same_request a b \<Longrightarrow> same_request b c \<Longrightarrow> same_request a c"
  by (simp add: same_request_def)

lemma same_request_set:
  "json_set a k x = Some b \<Longrightarrow> k \<notin> receipt_keys \<Longrightarrow> same_request a b"
  by (cases a) (auto simp: same_request_def)

lemma same_request_sets:
  "json_sets a kvs = Inr b \<Longrightarrow> fst ` set kvs \<inter> receipt_keys = {} \<Longrightarrow> same_request a b"
proof (induction a kvs rule: json_sets.induct)
  case (2 a k x kvs)
  then show ?case
    by (auto split: option.splits intro: same_request_trans dest: same_request_set)
qed simp

lemma same_request_operation:
  assumes "same_request a b"
  shows "receipt_content digest a = receipt_content digest b"
    "receipt_identity a = receipt_identity b" "receipt_attempt a = receipt_attempt b"
    "other_actor b c = other_actor a c"
proof -
  have "json_get a k = json_get b k"
    if "k \<in> receipt_keys" for k using that assms by (simp add: same_request_def)
  then show "receipt_content digest a = receipt_content digest b"
    "receipt_identity a = receipt_identity b" "receipt_attempt a = receipt_attempt b"
    "other_actor b c = other_actor a c"
    by (simp_all add: receipt_content_def receipt_identity_def receipt_attempt_def other_actor_def
        receipt_account_def json_index_def text_field_def receipt_keys_def)
qed

definition reservation_of ::
  "digest \<Rightarrow> json \<Rightarrow> string \<Rightarrow> string \<Rightarrow> string \<Rightarrow> string option \<Rightarrow> reservation_input" where
  "reservation_of digest candidate rid call prefix alias =
     \<lparr>ri_identity = receipt_identity candidate, ri_alias_target = rid,
      ri_content = receipt_content digest candidate, ri_attempt = receipt_attempt candidate,
      ri_call_id = call, ri_alias_prefix = prefix, ri_request_alias = alias\<rparr>"

lemma reserve_receipt_new:
  assumes "as_str (json_index c0 ''id'') = Some rid" "table rid = None"
  shows "reserve_receipt digest begin_request validate table c0 call prefix alias =
    try_result (admit_candidate begin_request None c0 rid) (\<lambda>c.
      try_result (classify c) (\<lambda>_.
        let input = reservation_of digest c rid call prefix alias in
        finish_reserve validate table rid c (admitted_slot input)
          (SaveRequest (admitted_slot input) # map InsertAlias (aliases input))))"
  using assms
  by (simp add: reserve_receipt_def receipt_state_def try_result_def decide_reservation_def
      decide_new_reservation_empty reservation_of_def Let_def
      split: sum.split)

lemma reserve_receipt_existing:
  assumes "as_str (json_index c ''id'') = Some rid" "table rid = Some old"
  shows "reserve_receipt digest begin_request validate table c call prefix alias =
    (if other_actor old c
     then Inl (InvalidRequest ''Tool receipt belongs to another actor or turn'')
     else try_result (classify c) (\<lambda>_. try_result (receipt_state digest old) (\<lambda>s.
       if receipt_content digest old = receipt_content digest c
       then finish_reserve validate table rid old s
              (map InsertAlias (aliases (reservation_of digest c rid call prefix alias)))
       else Inl (InvalidRequest ''Request identity already has different content''))))"
proof (cases "classify old")
  case (Inl e)
  with assms show ?thesis
    by (simp add: reserve_receipt_def admit_candidate_def receipt_state_def try_result_def Let_def
        split: sum.split)
next
  case (Inr p)
  let ?s = "\<lparr>st_revision = phase_revision p,
    st_operation = Some (receipt_operation digest old p), st_tombstone = None\<rparr>"
  from assms Inr decide_reservation_existing [of ?s "receipt_operation digest old p"]
  show ?thesis
    by (simp add: reserve_receipt_def admit_candidate_def receipt_state_def try_result_def
        reservation_of_def Let_def split: sum.split)
qed

text \<open>An object with ordered keys, as the JSON library keeps it.\<close>

definition obj_wf :: "json \<Rightarrow> bool" where
  "obj_wf v = (case v of JObject m \<Rightarrow> om_wf m | _ \<Rightarrow> False)"

lemma obj_wf_cases: "obj_wf v \<longleftrightarrow> (\<exists>m. v = JObject m \<and> om_wf m)"
  by (cases v) (simp_all add: obj_wf_def)

definition table_wf :: "(string \<rightharpoonup> json) \<Rightarrow> bool" where
  "table_wf table = (\<forall>rid old. table rid = Some old \<longrightarrow> obj_wf old)"

lemma obj_wf_sets: "json_sets a kvs = Inr b \<Longrightarrow> obj_wf a \<Longrightarrow> obj_wf b"
  by (induction a kvs rule: json_sets.induct) (auto simp: obj_wf_cases split: option.splits)

lemma apply_state_sets:
  "apply_state a s = Inr (changed, b) \<Longrightarrow>
     (obj_wf a \<longrightarrow> obj_wf b) \<and> same_request a b"
  by (auto simp: apply_state_def try_result_def receipt_keys_def simp del: json_sets.simps(2)
      split: option.splits sum.splits if_splits prod.splits
      dest: obj_wf_sets intro!: same_request_sets [where kvs = "[_, _, _]"])

lemma finish_reserve_Inr:
  assumes "finish_reserve validate table rid a s intents = Inr (r, table')"
    and "classify a = Inr p" "st_operation s = Some operation" "obj_wf a"
  shows "obj_wf r \<and> classify r = Inr (op_state operation) \<and> same_request a r
    \<and> (\<exists>xs. json_get r ''aliases'' = Some (JArray (fold add_alias intents xs)))
    \<and> is_ok (validate rid r) \<and> table' = table(rid \<mapsto> r)"
proof -
  from apply_state_result [OF assms(2,3)] obtain b where
    b: "apply_state a s = Inr (p \<noteq> op_state operation, b)" "classify b = Inr (op_state operation)"
    by blast
  from apply_state_sets [OF b(1)] assms(4) obtain m where
    m: "b = JObject m" "om_wf m" and same: "same_request a b"
    by (auto simp: obj_wf_cases)
  let ?xs = "array_or_empty (json_index b ''aliases'')"
  let ?r = "JObject (om_insert ''aliases'' (JArray (fold add_alias intents ?xs)) m)"
  have "r = ?r" "table' = table(rid \<mapsto> r)" "is_ok (validate rid r)"
    using assms(1) b m by (cases "validate rid ?r", auto simp: finish_reserve_def)+
  moreover have "same_request b ?r"
    by (rule same_request_set [of _ "''aliases''"]) (use m in \<open>auto simp: receipt_keys_def\<close>)
  ultimately show ?thesis
    using m same b by (auto simp: obj_wf_cases classify_insert_other intro: same_request_trans)
qed

lemma finish_reserve_same:
  assumes "obj_wf r" "classify r = Inr p" "st_operation s = Some operation" "op_state operation = p"
    and "json_get r ''aliases'' = Some (JArray xs)" "fold add_alias intents xs = xs"
    and "is_ok (validate rid r)"
  shows "finish_reserve validate table rid r s intents = Inr (r, table(rid \<mapsto> r))"
proof -
  from assms(1) obtain m where m: "r = JObject m" "om_wf m" by (auto simp: obj_wf_cases)
  have "apply_state r s = Inr (False, r)"
    using apply_state_result [OF assms(2,3)] assms(4) by auto
  moreover have "om_insert ''aliases'' (JArray xs) m = m"
    using m assms(5) by (intro om_insert_get_same) simp_all
  ultimately show ?thesis
    using assms(5-) m
    by (cases "validate rid r") (simp_all add: finish_reserve_def json_index_def array_or_empty_def)
qed

text \<open>What a successful reservation leaves in the table.\<close>

lemma reserve_receipt_Inr:
  assumes "reserve_receipt digest begin_request validate table c call prefix alias = Inr (r, table')"
    and "obj_wf c"
    and "table_wf table"
  shows "\<exists>rid xs intents. as_str (json_index c ''id'') = Some rid \<and> table' = table(rid \<mapsto> r)
    \<and> obj_wf r \<and> is_ok (classify c) \<and> is_ok (classify r) \<and> is_ok (validate rid r)
    \<and> \<not> other_actor r c \<and> receipt_content digest r = receipt_content digest c
    \<and> json_get r ''aliases'' = Some (JArray (fold add_alias intents xs))
    \<and> set (map InsertAlias (aliases (reservation_of digest c rid call prefix alias))) \<subseteq> set intents
    \<and> (case table rid of None \<Rightarrow> classify r = Inr Reserved | Some old \<Rightarrow> classify r = classify old)"
proof -
  obtain rid where rid: "as_str (json_index c ''id'') = Some rid"
    using assms(1) by (auto simp: reserve_receipt_def split: option.splits)
  show ?thesis
  proof (cases "table rid")
    case (Some old)
    note eq = reserve_receipt_existing [where table = table, OF rid Some]
    obtain p q where c: "\<not> other_actor old c" "classify c = Inr q" "classify old = Inr p"
      "receipt_content digest old = receipt_content digest c"
      "finish_reserve validate table rid old \<lparr>st_revision = phase_revision p,
          st_operation = Some (receipt_operation digest old p), st_tombstone = None\<rparr>
        (map InsertAlias (aliases (reservation_of digest c rid call prefix alias))) = Inr (r, table')"
      using assms(1) unfolding eq
      by (auto simp: receipt_state_def try_result_def split: sum.splits if_splits)
    from finish_reserve_Inr [OF c(5,3)] assms(3) Some obtain xs where
      r: "obj_wf r" "classify r = Inr p" "same_request old r" "is_ok (validate rid r)"
        "table' = table(rid \<mapsto> r)"
        "json_get r ''aliases'' = Some (JArray (fold add_alias
           (map InsertAlias (aliases (reservation_of digest c rid call prefix alias))) xs))"
      by (auto simp: table_wf_def)
    with rid Some c same_request_operation [OF r(3)] show ?thesis
      by (intro exI [of _ rid] exI [of _ xs]
          exI [of _ "map InsertAlias (aliases (reservation_of digest c rid call prefix alias))"]) simp
  next
    case None
    note eq = reserve_receipt_new [where table = table, OF rid None]
    obtain admitted b q where b: "json_sets c [(''admitted'', admitted),
        (''kind'', JString ''managed_tool'')] = Inr b" "classify b = Inr q"
      and f: "finish_reserve validate table rid b
        (admitted_slot (reservation_of digest b rid call prefix alias))
        (SaveRequest (admitted_slot (reservation_of digest b rid call prefix alias))
          # map InsertAlias (aliases (reservation_of digest b rid call prefix alias))) = Inr (r, table')"
      using assms(1) unfolding eq
      by (auto simp: admit_candidate_def try_result_def Let_def simp del: json_sets.simps(2)
          split: sum.splits caller_admission.splits)
    have same: "same_request c b"
      by (rule same_request_sets [OF b(1)]) (simp add: receipt_keys_def)
    have "obj_wf b" using obj_wf_sets [OF b(1)] assms(2) by simp
    moreover have "classify c = classify b"
      using b(1) assms(2) by (auto simp: obj_wf_cases classify_insert_other)
    moreover have "reservation_of digest b rid call prefix alias
        = reservation_of digest c rid call prefix alias"
      using same_request_operation [OF same] by (simp add: reservation_of_def)
    moreover note fr = finish_reserve_Inr [OF f b(2), of "\<lparr>op_identity = receipt_identity b,
      op_content = receipt_content digest b, op_attempt = receipt_attempt b, op_state = Reserved\<rparr>"]
    ultimately obtain xs where r: "obj_wf r" "classify r = Inr Reserved" "same_request b r"
        "is_ok (validate rid r)" "table' = table(rid \<mapsto> r)"
        "json_get r ''aliases'' = Some (JArray (fold add_alias
           (SaveRequest (admitted_slot (reservation_of digest b rid call prefix alias))
            # map InsertAlias (aliases (reservation_of digest c rid call prefix alias))) xs))"
      by (auto simp: admitted_slot_def reservation_of_def)
    have "same_request c r" using same r(3) by (rule same_request_trans)
    moreover have "\<not> other_actor c c" by (simp add: other_actor_def)
    ultimately show ?thesis
      using rid None r b \<open>classify c = classify b\<close> same_request_operation [OF \<open>same_request c r\<close>]
      by (intro exI [of _ rid] exI [of _ xs]
          exI [of _ "SaveRequest (admitted_slot (reservation_of digest b rid call prefix alias))
            # map InsertAlias (aliases (reservation_of digest c rid call prefix alias))"]) auto
  qed
qed

text \<open>Reserving a receipt is idempotent: after a successful reservation the same call returns
  the same record and leaves the table as it is, without another request-result admission. A
  new request is stored as queued; a known one keeps its stage and outcome.\<close>

lemma reserve_receipt_idempotent:
  assumes "reserve_receipt digest begin_request validate table c call prefix alias = Inr (r, table')"
    and "obj_wf c" "table_wf table"
  shows "reserve_receipt digest begin_request' validate table' c call prefix alias = Inr (r, table')
    \<and> (\<forall>rid. as_str (json_index c ''id'') = Some rid \<longrightarrow>
         (case table rid of None \<Rightarrow> classify r = Inr Reserved | Some old \<Rightarrow> classify r = classify old))"
proof -
  from reserve_receipt_Inr [OF assms] obtain rid xs intents where
    "is_ok (classify c)" "is_ok (classify r)" and
    r0: "as_str (json_index c ''id'') = Some rid" "table' = table(rid \<mapsto> r)" "obj_wf r"
      "is_ok (validate rid r)" "\<not> other_actor r c"
      "receipt_content digest r = receipt_content digest c"
      "json_get r ''aliases'' = Some (JArray (fold add_alias intents xs))"
      "set (map InsertAlias (aliases (reservation_of digest c rid call prefix alias))) \<subseteq> set intents"
      "case table rid of None \<Rightarrow> classify r = Inr Reserved | Some old \<Rightarrow> classify r = classify old"
    by blast
  then obtain p q where pq: "classify c = Inr q" "classify r = Inr p"
    by (auto simp: is_ok_def split: sum.splits)
  have t: "table' rid = Some r" "table'(rid \<mapsto> r) = table'" using r0(2) by simp_all
  have "reserve_receipt digest begin_request' validate table' c call prefix alias = Inr (r, table')"
    unfolding reserve_receipt_existing [where table = table', OF r0(1) t(1)]
    using r0(5,6) pq t
      finish_reserve_same [where validate = validate and rid = rid, OF r0(3) pq(2) _ _ r0(7) fold_add_alias_twice [OF r0(8)] r0(4)]
    by (simp add: receipt_state_def)
  with r0(1,9) show ?thesis by auto
qed

end
