(* ===== verification/Rust_Text.thy ===== *)
theory Rust_Text
  imports Rust_Float "HOL-Library.Sublist"
begin

text \<open>
  The string operations of the standard library that the sources use, on UTF-8 bytes: formatted
  numbers, parsed numbers, ASCII classes, trimming of Unicode white space, splitting, and the
  check that bytes are text.
\<close>

section \<open>Formatted numbers\<close>

text \<open>\<open>format!("{n}")\<close>, and \<open>format!("{n:0wx}")\<close> for a number of \<open>w\<close> digits.\<close>

definition digit :: "nat \<Rightarrow> char" where
  "digit d = ''0123456789abcdef'' ! d"

function decimal :: "nat \<Rightarrow> string" where
  "decimal n = (if n < 10 then [digit n] else decimal (n div 10) @ [digit (n mod 10)])"
  by auto
termination by (relation "measure id") auto

declare decimal.simps [simp del]

fun hex_digits :: "nat \<Rightarrow> int \<Rightarrow> string" where
  "hex_digits 0 n = []"
| "hex_digits (Suc w) n = hex_digits w (n div 16) @ [digit (nat (n mod 16))]"

text \<open>\<open>format!("{n:x}")\<close>, without leading zeros.\<close>

function hex :: "nat \<Rightarrow> string" where
  "hex n = (if n < 16 then [digit n] else hex (n div 16) @ [digit (n mod 16)])"
  by auto
termination by (relation "measure id") auto

declare hex.simps [simp del]

definition is_digit_char :: "char \<Rightarrow> bool" where
  "is_digit_char c = (c \<in> set ''0123456789abcdef'')"

lemma digit_char: "d < 16 \<Longrightarrow> is_digit_char (digit d)"
  by (simp add: is_digit_char_def digit_def del: set_simps)

lemma decimal_chars: "list_all is_digit_char (decimal n)"
proof (induction n rule: decimal.induct)
  case (1 n)
  then show ?case by (subst decimal.simps) (auto intro: digit_char)
qed

lemma hex_chars: "list_all is_digit_char (hex n)"
proof (induction n rule: hex.induct)
  case (1 n)
  then show ?case by (subst hex.simps) (auto intro: digit_char)
qed

lemma hex_digits_chars: "list_all is_digit_char (hex_digits w n)"
  by (induction w arbitrary: n) (auto intro!: digit_char simp: nat_less_iff)

lemma hex_digits_length [simp]: "length (hex_digits w n) = w"
  by (induction w arbitrary: n) simp_all

section \<open>Formatted floats\<close>

text \<open>
  \<open>format!("{}")\<close>: the fewest decimal digits that read back as the number, the nearest of
  them, with no exponent. All quantities below are in quarters of the unit, scaled by \<open>10\<^sup>3\<^sup>4\<^sup>3\<close> so
  that every power of ten is whole: \<open>v\<close> is the number, \<open>low\<close> and \<open>high\<close> bound what rounds to it.
\<close>

definition DIGIT_SCALE :: nat where
  "DIGIT_SCALE = 343"

definition digit_at :: "nat \<Rightarrow> nat \<Rightarrow> nat \<Rightarrow> bool \<Rightarrow> nat \<Rightarrow> nat option" where
  "digit_at v low high inclusive j =
     (let u = 10 ^ j * 2 ^ 1076; f = v div u;
          down = (low < f * u \<or> inclusive \<and> low = f * u);
          up = (Suc f * u < high \<or> inclusive \<and> high = Suc f * u) in
      if up \<and> (\<not> down \<or> u \<le> 2 * (v mod u)) then Some (Suc f)
      else if down then Some f else None)"

fun shortest_digits :: "nat \<Rightarrow> nat \<Rightarrow> nat \<Rightarrow> bool \<Rightarrow> nat \<Rightarrow> nat \<times> nat" where
  "shortest_digits v low high inclusive 0 = (v div 2 ^ 1076, 0)"
| "shortest_digits v low high inclusive (Suc j) =
     (case digit_at v low high inclusive (Suc j) of
        Some d \<Rightarrow> (d, Suc j)
      | None \<Rightarrow> shortest_digits v low high inclusive j)"

definition decimal_point :: "string \<Rightarrow> nat \<Rightarrow> string" where
  "decimal_point s j =
     (if DIGIT_SCALE \<le> j then s @ replicate (j - DIGIT_SCALE) CHR ''0''
      else let k = DIGIT_SCALE - j in
        if k < length s then take (length s - k) s @ ''.'' @ drop (length s - k) s
        else ''0.'' @ replicate (k - length s) CHR ''0'' @ s)"

definition print_magnitude :: "nat \<Rightarrow> string" where
  "print_magnitude n =
     (let e = bits n - 53; m = n div 2 ^ e; p = 10 ^ DIGIT_SCALE;
          low = 4 * n - (if m = 2 ^ 52 then 2 ^ e else 2 ^ Suc e);
          high = 4 * n + 2 ^ Suc e;
          (d, j) = shortest_digits (4 * n * p) (low * p) (high * p) (even m) 652 in
      decimal_point (decimal d) j)"

fun f64_display :: "f64 \<Rightarrow> string" where
  "f64_display (Finite a) =
     (if a = 0 then ''0'' else if a < 0 then ''-'' @ print_magnitude (nat (- a)) else print_magnitude (nat a))"
| "f64_display (Infinite s) = (if s then ''-inf'' else ''inf'')"
| "f64_display NaN = ''NaN''"

section \<open>ASCII\<close>

abbreviation byte :: "char \<Rightarrow> int" where
  "byte c \<equiv> of_char c"

definition is_ascii_digit :: "char \<Rightarrow> bool" where
  "is_ascii_digit c = (48 \<le> byte c \<and> byte c \<le> 57)"

definition is_ascii_alphanumeric :: "char \<Rightarrow> bool" where
  "is_ascii_alphanumeric c =
     (is_ascii_digit c \<or> 65 \<le> byte c \<and> byte c \<le> 90 \<or> 97 \<le> byte c \<and> byte c \<le> 122)"

definition ascii_lower :: "char \<Rightarrow> char" where
  "ascii_lower c = (if 65 \<le> byte c \<and> byte c \<le> 90 then char_of (byte c + 32) else c)"

definition to_ascii_lowercase :: "string \<Rightarrow> string" where
  "to_ascii_lowercase s = map ascii_lower s"

definition eq_ignore_ascii_case :: "string \<Rightarrow> string \<Rightarrow> bool" where
  "eq_ignore_ascii_case s t = (to_ascii_lowercase s = to_ascii_lowercase t)"

section \<open>Parsed numbers\<close>

text \<open>\<open>str::parse\<close> for an unsigned type with the given largest value: an optional plus sign,
  then decimal digits, at least one.\<close>

definition digits_value :: "string \<Rightarrow> int" where
  "digits_value s = foldl (\<lambda>n c. 10 * n + (byte c - 48)) 0 s"

definition parse_unsigned :: "int \<Rightarrow> string \<Rightarrow> int option" where
  "parse_unsigned largest s =
     (let d = (case s of [] \<Rightarrow> [] | c # r \<Rightarrow> if c = CHR ''+'' then r else s) in
      if d = [] \<or> \<not> list_all is_ascii_digit d then None
      else if digits_value d \<le> largest then Some (digits_value d) else None)"

lemma digits_value_nonneg: "list_all is_ascii_digit d \<Longrightarrow> 0 \<le> digits_value d"
proof -
  have "0 \<le> m \<Longrightarrow> list_all is_ascii_digit d \<Longrightarrow> 0 \<le> foldl (\<lambda>n c. 10 * n + (byte c - 48)) m d" for m
    by (induction d arbitrary: m) (auto simp: is_ascii_digit_def)
  then show "list_all is_ascii_digit d \<Longrightarrow> 0 \<le> digits_value d" by (simp add: digits_value_def)
qed

lemma parse_unsigned_bounds: "parse_unsigned largest s = Some n \<Longrightarrow> 0 \<le> n \<and> n \<le> largest"
  unfolding parse_unsigned_def Let_def using digits_value_nonneg by (metis option.distinct(1) option.inject)

lemma digits_value_append: "digits_value (s @ [c]) = 10 * digits_value s + (byte c - 48)"
  by (simp add: digits_value_def)

lemma byte_digit: "d < 10 \<Longrightarrow> byte (digit d) = 48 + int d"
  by (auto simp: digit_def numeral_eq_Suc less_Suc_eq)

lemma digits_value_decimal: "digits_value (decimal n) = int n"
proof (induction n rule: decimal.induct)
  case (1 n)
  show ?case
  proof (cases "n < 10")
    case True
    then show ?thesis by (subst decimal.simps) (simp add: digits_value_def byte_digit)
  next
    case False
    have "10 * int (n div 10) + int (n mod 10) = int n" by (metis mult_div_mod_eq of_nat_add of_nat_mult of_nat_numeral)
    with 1 False show ?thesis by (subst decimal.simps) (simp add: digits_value_append byte_digit)
  qed
qed

section \<open>White space\<close>

text \<open>The code points of \<open>char::is_whitespace\<close>, encoded.\<close>

definition WHITESPACE :: "string list" where
  "WHITESPACE =
     map (\<lambda>n. [char_of (n :: int)]) [9, 10, 11, 12, 13, 32] @
     map (map char_of) [[0xC2, 0x85 :: int], [0xC2, 0xA0], [0xE1, 0x9A, 0x80]] @
     map (\<lambda>n. map char_of [0xE2, 0x80, n :: int])
       [0x80, 0x81, 0x82, 0x83, 0x84, 0x85, 0x86, 0x87, 0x88, 0x89, 0x8A, 0xA8, 0xA9, 0xAF] @
     map (map char_of) [[0xE2, 0x81, 0x9F :: int], [0xE3, 0x80, 0x80]]"

function strip_all :: "string list \<Rightarrow> string \<Rightarrow> string" where
  "strip_all ws s =
     (case List.find (\<lambda>w. w \<noteq> [] \<and> prefix w s) ws of
        None \<Rightarrow> s
      | Some w \<Rightarrow> strip_all ws (drop (length w) s))"
  by auto
termination
  by (relation "measure (\<lambda>(ws, s). length s)") (auto simp: find_Some_iff prefix_def)

declare strip_all.simps [simp del]

definition str_trim :: "string \<Rightarrow> string" where
  "str_trim s = rev (strip_all (map rev WHITESPACE) (rev (strip_all WHITESPACE s)))"

section \<open>Splitting\<close>

abbreviation CR :: char where "CR \<equiv> CHR 0x0D"
abbreviation LF :: char where "LF \<equiv> CHR 0x0A"
abbreviation CRLF :: string where "CRLF \<equiv> [CR, LF]"

text \<open>\<open>split("\r\n")\<close>: the pieces between the separators, at least one.\<close>

fun split_crlf :: "string \<Rightarrow> string list" where
  "split_crlf [] = [[]]"
| "split_crlf (c # s) =
     (if c = CR \<and> s \<noteq> [] \<and> hd s = LF then [] # split_crlf (tl s)
      else case split_crlf s of [] \<Rightarrow> [[c]] | l # ls \<Rightarrow> (c # l) # ls)"

text \<open>\<open>split_once(c)\<close>, and the second piece of \<open>split(' ')\<close>.\<close>

definition split_once :: "char \<Rightarrow> string \<Rightarrow> (string \<times> string) option" where
  "split_once c s =
     (if c \<in> set s then Some (takeWhile (\<lambda>d. d \<noteq> c) s, tl (dropWhile (\<lambda>d. d \<noteq> c) s)) else None)"

definition second_word :: "string \<Rightarrow> string option" where
  "second_word s = map_option (\<lambda>(_, r). takeWhile (\<lambda>d. d \<noteq> CHR '' '') r) (split_once (CHR '' '') s)"

text \<open>\<open>split(c)\<close>, and \<open>rsplit_once(c)\<close>: the parts before and after the last separator.\<close>

fun split_on :: "char \<Rightarrow> string \<Rightarrow> string list" where
  "split_on c [] = [[]]"
| "split_on c (d # s) =
     (if d = c then [] # split_on c s
      else case split_on c s of [] \<Rightarrow> [[d]] | l # ls \<Rightarrow> (d # l) # ls)"

definition rsplit_once :: "char \<Rightarrow> string \<Rightarrow> (string \<times> string) option" where
  "rsplit_once c s = map_option (\<lambda>(a, b). (rev b, rev a)) (split_once c (rev s))"

lemma split_crlf_not_Nil [simp]: "split_crlf s \<noteq> []"
  by (induction s rule: split_crlf.induct) (auto split: list.splits)

text \<open>Text without a line break.\<close>

definition one_line :: "string \<Rightarrow> bool" where
  "one_line s = (CR \<notin> set s \<and> LF \<notin> set s)"

lemma one_line_simps [simp]:
  "one_line []" "one_line (c # s) \<longleftrightarrow> c \<noteq> CR \<and> c \<noteq> LF \<and> one_line s"
  "one_line (s @ t) \<longleftrightarrow> one_line s \<and> one_line t"
  by (auto simp: one_line_def)

lemma split_crlf_line: "one_line l \<Longrightarrow> split_crlf (l @ CRLF @ s) = l # split_crlf s"
  by (induction l) simp_all

lemma split_crlf_last: "one_line l \<Longrightarrow> split_crlf l = [l]"
  by (induction l) simp_all

lemma split_crlf_lines:
  "list_all one_line ls \<Longrightarrow> split_crlf (concat (map (\<lambda>l. l @ CRLF) ls) @ s) = ls @ split_crlf s"
  by (induction ls) (simp_all add: split_crlf_line [simplified])

lemma one_line_list_all: "list_all P s \<Longrightarrow> \<not> P CR \<Longrightarrow> \<not> P LF \<Longrightarrow> one_line s"
  by (auto simp: one_line_def list_all_iff)

lemma digit_chars_one_line: "list_all is_digit_char s \<Longrightarrow> one_line s"
  by (erule one_line_list_all) (simp_all add: is_digit_char_def)

lemma formatted_one_line [simp]: "one_line (decimal n)" "one_line (hex n)" "one_line (hex_digits w i)"
  by (intro digit_chars_one_line decimal_chars hex_chars hex_digits_chars)+

lemma split_once_append: "c \<notin> set s \<Longrightarrow> split_once c (s @ c # t) = Some (s, t)"
  by (induction s) (auto simp: split_once_def)

section \<open>UTF-8\<close>

text \<open>The ranges of the bytes that follow a first byte, \<open>None\<close> for a byte that starts no character.\<close>

definition utf8_tail :: "int \<Rightarrow> (int \<times> int) list option" where
  "utf8_tail n =
     (let cont = (0x80, 0xBF) in
      if n < 0x80 then Some []
      else if 0xC2 \<le> n \<and> n \<le> 0xDF then Some [cont]
      else if n = 0xE0 then Some [(0xA0, 0xBF), cont]
      else if n = 0xED then Some [(0x80, 0x9F), cont]
      else if 0xE1 \<le> n \<and> n \<le> 0xEF then Some [cont, cont]
      else if n = 0xF0 then Some [(0x90, 0xBF), cont, cont]
      else if 0xF1 \<le> n \<and> n \<le> 0xF3 then Some [cont, cont, cont]
      else if n = 0xF4 then Some [(0x80, 0x8F), cont, cont]
      else None)"

fun utf8_valid :: "string \<Rightarrow> bool" where
  "utf8_valid [] = True"
| "utf8_valid (c # s) =
     (case utf8_tail (byte c) of
        None \<Rightarrow> False
      | Some rs \<Rightarrow>
          list_all2 (\<lambda>(lo, hi) d. lo \<le> byte d \<and> byte d \<le> hi) rs (take (length rs) s)
          \<and> utf8_valid (drop (length rs) s))"

lemma utf8_valid_ascii: "list_all (\<lambda>c. byte c < 128) s \<Longrightarrow> utf8_valid s"
  by (induction s) (simp_all add: utf8_tail_def)

section \<open>Characters\<close>

text \<open>\<open>chars()\<close> on valid text: a character starts at every byte that does not continue one.
  \<open>chars().count()\<close>, \<open>chars().take(n)\<close> and \<open>chars().skip(n)\<close>, collected.\<close>

definition char_start :: "char \<Rightarrow> bool" where
  "char_start c = (\<not> (128 \<le> byte c \<and> byte c < 192))"

definition chars_count :: "string \<Rightarrow> nat" where
  "chars_count s = length (filter char_start s)"

fun take_chars :: "nat \<Rightarrow> string \<Rightarrow> string" where
  "take_chars n [] = []"
| "take_chars n (c # s) =
     (if char_start c then (case n of 0 \<Rightarrow> [] | Suc m \<Rightarrow> c # take_chars m s) else c # take_chars n s)"

fun skip_chars :: "nat \<Rightarrow> string \<Rightarrow> string" where
  "skip_chars n [] = []"
| "skip_chars n (c # s) =
     (if char_start c then (case n of 0 \<Rightarrow> c # s | Suc m \<Rightarrow> skip_chars m s) else skip_chars n s)"

lemma chars_count_take: "chars_count (take_chars n s) = min n (chars_count s)"
  by (induction n s rule: take_chars.induct) (auto simp: chars_count_def split: nat.splits)

lemma chars_count_skip: "chars_count (skip_chars n s) = chars_count s - n"
  by (induction n s rule: skip_chars.induct) (auto simp: chars_count_def split: nat.splits)

lemma chars_count_append [simp]: "chars_count (s @ t) = chars_count s + chars_count t"
  by (simp add: chars_count_def)

text \<open>The piece after the last of several separators, \<open>rsplit(separators).next()\<close>.\<close>

fun last_piece :: "string list \<Rightarrow> string \<Rightarrow> string \<Rightarrow> string" where
  "last_piece ws acc [] = rev acc"
| "last_piece ws acc (c # s) =
     (case List.find (\<lambda>w. w \<noteq> [] \<and> prefix w (c # s)) ws of
        None \<Rightarrow> last_piece ws (c # acc) s
      | Some w \<Rightarrow> last_piece ws [] (drop (length w - 1) s))"

end
