(* ===== verification/Provider_Codec.thy ===== *)
theory Provider_Codec
  imports Json_Value Rust_Text
begin

text \<open>
  The provider wire codec, \<open>runtime-providers/src/codec.rs\<close>: request ids, the closed set of
  methods, decoding of wire objects into frames, encoding of frames as ordered entries and
  lines, and the journal decoders. Text is parsed and printed by the JSON library, which is a
  parameter: \<open>from_slice\<close> reads a line as its members in document order, \<open>to_writer\<close> prints an
  object from its entries, \<open>claude_failure\<close> is the schema-validated failure record.
\<close>

section \<open>Request ids\<close>

datatype request_id = Number u64 | IdString string

text \<open>The derived order: every number before every string.\<close>

fun request_id_le :: "request_id \<Rightarrow> request_id \<Rightarrow> bool" where
  "request_id_le (Number a) (Number b) = (a \<le> b)"
| "request_id_le (Number a) (IdString t) = True"
| "request_id_le (IdString s) (Number b) = False"
| "request_id_le (IdString s) (IdString t) = (s \<le> t)"

instantiation request_id :: linorder
begin

definition less_eq_request_id :: "request_id \<Rightarrow> request_id \<Rightarrow> bool" where
  "less_eq_request_id = request_id_le"

definition less_request_id :: "request_id \<Rightarrow> request_id \<Rightarrow> bool" where
  "less_request_id x y = (x \<le> y \<and> \<not> y \<le> (x :: request_id))"

instance
proof
  fix x y z :: request_id
  show "x < y \<longleftrightarrow> x \<le> y \<and> \<not> y \<le> x" by (rule less_request_id_def)
  show "x \<le> x" by (cases x) (simp_all add: less_eq_request_id_def)
  show "x \<le> y \<Longrightarrow> y \<le> z \<Longrightarrow> x \<le> z" by (cases x; cases y; cases z) (auto simp: less_eq_request_id_def)
  show "x \<le> y \<Longrightarrow> y \<le> x \<Longrightarrow> x = y" by (cases x; cases y) (auto simp: less_eq_request_id_def)
  show "x \<le> y \<or> y \<le> x" by (cases x; cases y) (auto simp: less_eq_request_id_def)
qed

end

lemma request_id_order [simp]:
  "Number a \<le> Number b \<longleftrightarrow> a \<le> b" "Number a \<le> IdString t" "\<not> IdString s \<le> Number b" "IdString s \<le> IdString t \<longleftrightarrow> s \<le> t"
  by (simp_all add: less_eq_request_id_def)

fun id_value :: "request_id \<Rightarrow> json" where
  "id_value (Number n) = JNumber (PosInt n)"
| "id_value (IdString s) = JString s"

text \<open>Decoding accepts non-negative integers and strings only.\<close>

fun id_of_value :: "json \<Rightarrow> request_id option" where
  "id_of_value (JNumber (PosInt n)) = Some (Number n)"
| "id_of_value (JString s) = Some (IdString s)"
| "id_of_value _ = None"

lemma id_of_value_inverse [simp]: "id_of_value (id_value i) = Some i"
  by (cases i) simp_all

lemma id_value_not_null [simp]: "id_value i \<noteq> JNull"
  by (cases i) simp_all

section \<open>Methods\<close>

text \<open>
  A \<open>Method\<close> is represented by its wire name: the variants of the enumeration are in bijection
  with the literals of the table below, \<open>as_str\<close> is the name itself.
\<close>

type_synonym provider_method = string

definition method_names :: "provider_method list" where
  "method_names = [
    ''initialize'', ''initialized'', ''ack'', ''account/login/cancel'',
    ''account/login/start'', ''account/rateLimitResetCredit/consume'', ''thread/loaded/list'',
    ''config/read'', ''skills/extraRoots/set'', ''model/list'', ''account/read'',
    ''account/rateLimits/read'', ''thread/start'', ''thread/realtime/start'',
    ''thread/realtime/stop'', ''thread/realtime/appendSpeech'',
    ''thread/realtime/item/started'', ''thread/realtime/transcript/delta'',
    ''thread/realtime/transcript/done'', ''thread/realtime/sdp'', ''thread/realtime/error'',
    ''thread/realtime/closed'', ''thread/resume'', ''thread/read'', ''thread/turns/list'',
    ''turn/start'', ''turn/steer'', ''turn/interrupt'', ''thread/list'', ''thread/archive'',
    ''thread/fork'', ''thread/name/set'', ''thread/metadata/update'',
    ''thread/settings/update'', ''thread/compact/start'', ''thread/rollback'',
    ''thread/items/list'', ''thread/goal/set'', ''thread/goal/updated'', ''thread/unarchive'',
    ''thread/unsubscribe'', ''process/spawn'', ''process/writeStdin'', ''process/kill'',
    ''process/resizePty'', ''command/exec'', ''command/exec/write'', ''command/exec/resize'',
    ''command/exec/terminate'', ''thread/backgroundTerminals/list'',
    ''thread/backgroundTerminals/terminate'', ''thread/backgroundTerminals/clean'',
    ''thread/commandExecution/background'', ''thread/queue/list'', ''claude/state'',
    ''claude/repairReport'', ''claude/fileBackups'', ''claude/settings'', ''claude/activity'',
    ''claude/stopTask'', ''claude/shellPolicy'', ''claude/diagnostics'',
    ''claude/moveVersions'', ''mcpServer/reconnect'', ''mcpServerStatus/list'',
    ''skills/list'', ''operationStatus'', ''review/start'', ''browser.answer'',
    ''browser.callback'', ''browser.close'', ''browser.wait'', ''claude/commands'',
    ''claude/moveExport'', ''claude/moveIdentity'', ''claude/movePreflight'',
    ''claude/moveProof'', ''detach'', ''eventRead'', ''exec'', ''generate'', ''health'',
    ''info'', ''layr.health'', ''next'', ''open'', ''project.ensure'', ''project.exec'',
    ''project.import'', ''provider.list'', ''replay'', ''responseStatus'', ''retireCommand'',
    ''secrets.list'', ''secrets.remove'', ''secrets.set'', ''share.configure'', ''share.name'',
    ''share.status'', ''sign'', ''status'', ''sync.mac.apply'', ''sync.mac.handoff'',
    ''sync.mac.hashes'', ''sync.mac.head'', ''sync.mac.read'', ''sync.mac.worktree'',
    ''vault.configure'', ''vault.push'', ''vault.status'', ''upload.begin'', ''upload.chunk'',
    ''upload.commit'', ''verify'', ''write'', ''currentTime/read'', ''item/tool/call'',
    ''item/commandExecution/requestApproval'', ''item/fileChange/requestApproval'',
    ''item/permissions/requestApproval'', ''mcpServer/elicitation/request'',
    ''item/tool/requestUserInput'', ''item/started'', ''item/completed'',
    ''item/agentMessage/delta'', ''item/reasoning/textDelta'',
    ''item/commandExecution/outputDelta'', ''command/exec/outputDelta'', ''turn/started'',
    ''turn/completed'', ''turn/plan/updated'', ''turn/diff/updated'', ''thread/closed'',
    ''thread/status/changed'', ''thread/tokenUsage/updated'',
    ''thread/idleCompaction/updated'', ''thread/shellPolicy/updated'',
    ''account/login/completed'', ''account/updated'', ''account/rateLimits/updated'',
    ''model/safetyBuffering/updated'', ''provider/generationStarted'', ''error'']"

definition from_wire :: "string \<Rightarrow> provider_method option" where
  "from_wire value = (if value \<in> set method_names then Some value else None)"

abbreviation (input) Initialize :: provider_method where "Initialize \<equiv> ''initialize''"
abbreviation (input) Initialized :: provider_method where "Initialized \<equiv> ''initialized''"
abbreviation (input) TurnCompleted :: provider_method where "TurnCompleted \<equiv> ''turn/completed''"
abbreviation (input) ProtocolError :: provider_method where "ProtocolError \<equiv> ''error''"

section \<open>Frames\<close>

datatype response_body = ResultBody json | ErrorBody json

type_synonym json_map = "(string, json) omap"

record request_frame =
  rf_id :: request_id
  rf_method :: provider_method
  rf_params :: "json option"
  rf_fields :: json_map

record notification_frame =
  nf_method :: provider_method
  nf_params :: "json option"
  nf_fields :: json_map

record unknown_method_frame =
  uf_method :: string
  uf_fields :: json_map

datatype frame =
    Request request_frame
  | Notification notification_frame
  | UnknownMethod unknown_method_frame
  | Response request_id response_body json_map

text \<open>What the wire schema can object to in a parsed object, and the errors of the codec.\<close>

datatype wire_error = ExpectedObject | DuplicateField string | InvalidField string

datatype json_error = ParserError string | WireError wire_error

datatype codec_error =
    MalformedJson json_error
  | MalformedFrame string
  | FrameTooLarge nat
  | Serialization string

datatype decoded_journal_payload = JournalFrame frame | RawStdout bytes codec_error

record decoded_journal_entry =
  je_cursor :: u64
  je_generation :: u64
  je_payload :: decoded_journal_payload

section \<open>Delimiters and limits\<close>

definition MAX_FRAME_BYTES :: nat where
  "MAX_FRAME_BYTES = 16 * 1024 * 1024"

text \<open>\<open>strip_suffix\<close> of a one-byte suffix.\<close>

definition strip_suffix :: "u8 \<Rightarrow> bytes \<Rightarrow> bytes option" where
  "strip_suffix b xs = (if xs \<noteq> [] \<and> last xs = b then Some (butlast xs) else None)"

definition strip_delimiter :: "bytes \<Rightarrow> bytes" where
  "strip_delimiter xs =
     (case strip_suffix 10 xs of
        None \<Rightarrow> xs
      | Some without_lf \<Rightarrow>
          (case strip_suffix 13 without_lf of None \<Rightarrow> without_lf | Some ys \<Rightarrow> ys))"

definition frame_payload_bytes :: "bytes \<Rightarrow> nat" where
  "frame_payload_bytes frame = length (strip_delimiter frame)"

definition frame_prefix_payload_bytes :: "bytes \<Rightarrow> nat" where
  "frame_prefix_payload_bytes bs =
     length (case strip_suffix 13 bs of None \<Rightarrow> bs | Some ys \<Rightarrow> ys)"

section \<open>Wire objects\<close>

record wire_object =
  wo_method :: "string option"
  wo_id :: "request_id option"
  wo_params :: "json option"
  wo_result :: "json option"
  wo_error :: "json option"
  wo_fields :: json_map

definition empty_wire :: wire_object where
  "empty_wire = \<lparr>wo_method = None, wo_id = None, wo_params = None, wo_result = None,
     wo_error = None, wo_fields = []\<rparr>"

text \<open>
  The schema reads members in order. A named member may occur once; a null method or id counts
  as absent, while null params, result and error are kept. All other members are collected.
  The first component of the state lists the named members already seen.
\<close>

definition wire_member ::
  "string list \<times> wire_object \<Rightarrow> string \<times> json \<Rightarrow> wire_error + string list \<times> wire_object" where
  "wire_member st member =
     (case st of (seen, w) \<Rightarrow>
      case member of (key, value) \<Rightarrow>
        if key \<in> {''method'', ''id'', ''params'', ''result'', ''error''} then
          if key \<in> set seen then Inl (DuplicateField key)
          else if key = ''method'' then
            (case value of
               JNull \<Rightarrow> Inr (key # seen, w)
             | JString s \<Rightarrow> Inr (key # seen, w\<lparr>wo_method := Some s\<rparr>)
             | _ \<Rightarrow> Inl (InvalidField key))
          else if key = ''id'' then
            (if value = JNull then Inr (key # seen, w)
             else case id_of_value value of
                    Some i \<Rightarrow> Inr (key # seen, w\<lparr>wo_id := Some i\<rparr>)
                  | None \<Rightarrow> Inl (InvalidField key))
          else if key = ''params'' then Inr (key # seen, w\<lparr>wo_params := Some value\<rparr>)
          else if key = ''result'' then Inr (key # seen, w\<lparr>wo_result := Some value\<rparr>)
          else Inr (key # seen, w\<lparr>wo_error := Some value\<rparr>)
        else Inr (seen, w\<lparr>wo_fields := om_insert key value (wo_fields w)\<rparr>))"

fun wire_members ::
  "string list \<times> wire_object \<Rightarrow> (string \<times> json) list \<Rightarrow> wire_error + wire_object" where
  "wire_members st [] = Inr (snd st)"
| "wire_members st (m # ms) =
     (case wire_member st m of Inl e \<Rightarrow> Inl e | Inr st' \<Rightarrow> wire_members st' ms)"

definition wire_of_members :: "(string \<times> json) list \<Rightarrow> wire_error + wire_object" where
  "wire_of_members ms = wire_members ([], empty_wire) ms"

definition wire_of_value :: "json \<Rightarrow> wire_error + wire_object" where
  "wire_of_value v =
     (case v of JObject m \<Rightarrow> wire_of_members m | _ \<Rightarrow> Inl ExpectedObject)"

section \<open>Failure payloads\<close>

text \<open>\<open>pointer_mut\<close> along object keys: the value at the path, if there is one, is rewritten.\<close>

fun json_modify :: "string list \<Rightarrow> (json \<Rightarrow> json) \<Rightarrow> json \<Rightarrow> json" where
  "json_modify [] f v = f v"
| "json_modify (k # ks) f (JObject m) =
     (case om_get m k of
        None \<Rightarrow> JObject m
      | Some x \<Rightarrow> JObject (om_insert k (json_modify ks f x) m))"
| "json_modify (k # ks) f v = v"

definition sanitize_error :: "(json \<Rightarrow> json option) \<Rightarrow> json \<Rightarrow> json" where
  "sanitize_error claude_failure error =
     (case error of
        JObject m \<Rightarrow>
          (case om_get m ''claudeFailure'' of
             None \<Rightarrow> JObject m
           | Some raw \<Rightarrow>
               (case claude_failure raw of
                  None \<Rightarrow> JObject (om_remove ''claudeFailure'' m)
                | Some record \<Rightarrow>
                    JObject (om_insert ''claudeFailure'' record (om_remove ''claudeFailure'' m))))
      | _ \<Rightarrow> error)"

definition sanitize_turns :: "(json \<Rightarrow> json option) \<Rightarrow> json \<Rightarrow> json" where
  "sanitize_turns claude_failure v =
     (case v of
        JArray turns \<Rightarrow> JArray (map (json_modify [''error''] (sanitize_error claude_failure)) turns)
      | _ \<Rightarrow> v)"

definition sanitize_failure_payload :: "(json \<Rightarrow> json option) \<Rightarrow> json \<Rightarrow> json" where
  "sanitize_failure_payload claude_failure payload =
     (let error = sanitize_error claude_failure; turns = sanitize_turns claude_failure in
      json_modify [''thread'', ''turns''] turns
        (json_modify [''turns''] turns
          (json_modify [''turn'', ''error''] error
            (json_modify [''error''] error payload))))"

section \<open>From wire objects to frames\<close>

text \<open>\<open>keep\<close> puts an absorbed envelope member back among the extension fields.\<close>

definition keep :: "string \<Rightarrow> json option \<Rightarrow> json_map \<Rightarrow> json_map" where
  "keep key value kept = (case value of None \<Rightarrow> kept | Some v \<Rightarrow> om_insert key v kept)"

definition into_frame :: "(json \<Rightarrow> json option) \<Rightarrow> wire_object \<Rightarrow> codec_error + frame" where
  "into_frame claude_failure w =
     (case wo_method w of
        None \<Rightarrow>
          (let result = map_option (sanitize_failure_payload claude_failure) (wo_result w) in
           case wo_id w of
             None \<Rightarrow> Inl (MalformedFrame ''expected a method or response id'')
           | Some i \<Rightarrow>
               (let kept = keep ''params'' (wo_params w) (wo_fields w) in
                case (wo_error w, result) of
                  (Some e, None) \<Rightarrow> Inr (Response i (ErrorBody e) kept)
                | (None, Some r) \<Rightarrow> Inr (Response i (ResultBody r) kept)
                | _ \<Rightarrow> Inl (MalformedFrame ''response requires exactly one of result or error'')))
      | Some name \<Rightarrow>
          (let kept = keep ''error'' (wo_error w) (keep ''result'' (wo_result w) (wo_fields w)) in
           case from_wire name of
             None \<Rightarrow>
               Inr (UnknownMethod \<lparr>uf_method = name,
                 uf_fields = keep ''method'' (Some (JString name))
                   (keep ''id'' (map_option id_value (wo_id w))
                     (keep ''params'' (wo_params w) kept))\<rparr>)
           | Some known \<Rightarrow>
               (let params =
                  (if wo_id w = None \<and> (known = TurnCompleted \<or> known = ProtocolError)
                   then map_option (sanitize_failure_payload claude_failure) (wo_params w)
                   else wo_params w)
                in Inr (case wo_id w of
                     Some i \<Rightarrow> Request \<lparr>rf_id = i, rf_method = known, rf_params = params,
                                         rf_fields = kept\<rparr>
                   | None \<Rightarrow> Notification \<lparr>nf_method = known, nf_params = params,
                                           nf_fields = kept\<rparr>))))"

section \<open>From frames to lines\<close>

text \<open>
  \<open>FrameView::new\<close>: the extension fields in key order, with the envelope members inserted at
  their sorted position or replacing a field of the same name.
\<close>

definition frame_parts :: "frame \<Rightarrow> json_map \<times> (string \<times> json) list" where
  "frame_parts f =
     (case f of
        Request r \<Rightarrow>
          (rf_fields r,
           [(''id'', id_value (rf_id r)), (''method'', JString (rf_method r))]
           @ (case rf_params r of Some p \<Rightarrow> [(''params'', p)] | None \<Rightarrow> []))
      | Notification n \<Rightarrow>
          (nf_fields n,
           [(''method'', JString (nf_method n))]
           @ (case nf_params n of Some p \<Rightarrow> [(''params'', p)] | None \<Rightarrow> []))
      | UnknownMethod u \<Rightarrow> (uf_fields u, [])
      | Response i body extra \<Rightarrow>
          (extra,
           [(''id'', id_value i),
            (case body of ResultBody v \<Rightarrow> (''result'', v) | ErrorBody v \<Rightarrow> (''error'', v))]))"

definition frame_entries :: "frame \<Rightarrow> (string \<times> json) list" where
  "frame_entries f =
     (case frame_parts f of
        (extra, overrides) \<Rightarrow> fold (\<lambda>(key, value). om_insert key value) overrides extra)"

type_synonym to_writer = "(string \<times> json) list \<Rightarrow> string + bytes"
type_synonym from_slice = "bytes \<Rightarrow> string + (string \<times> json) list option"

text \<open>
  \<open>encode_line_into\<close> with the buffer it leaves: on every error the caller's buffer is empty, on
  success it holds the line. \<open>encode_line\<close> starts from a fresh buffer.
\<close>

definition encode_line_into :: "to_writer \<Rightarrow> frame \<Rightarrow> bytes \<Rightarrow> (codec_error + unit) \<times> bytes" where
  "encode_line_into to_writer f buffer =
     (case to_writer (frame_entries f) of
        Inl e \<Rightarrow> (Inl (Serialization e), [])
      | Inr output \<Rightarrow>
          if length output > MAX_FRAME_BYTES then (Inl (FrameTooLarge MAX_FRAME_BYTES), [])
          else (Inr (), output @ [10]))"

text \<open>The size check on integers, so that evaluation does not count up to the limit.\<close>

lemma encode_line_into_code [code]:
  "encode_line_into to_writer f buffer =
     (case to_writer (frame_entries f) of
        Inl e \<Rightarrow> (Inl (Serialization e), [])
      | Inr output \<Rightarrow>
          if 16777216 < int (length output) then (Inl (FrameTooLarge MAX_FRAME_BYTES), [])
          else (Inr (), output @ [10]))"
  by (simp add: encode_line_into_def MAX_FRAME_BYTES_def split: sum.split)

definition encode_line :: "to_writer \<Rightarrow> frame \<Rightarrow> codec_error + bytes" where
  "encode_line to_writer f =
     (case encode_line_into to_writer f [] of (Inl e, _) \<Rightarrow> Inl e | (Inr _, output) \<Rightarrow> Inr output)"

definition validate_initialize_params :: "to_writer \<Rightarrow> json \<Rightarrow> codec_error + unit" where
  "validate_initialize_params to_writer params =
     try_result
       (encode_line to_writer (Request \<lparr>rf_id = Number 1, rf_method = Initialize,
          rf_params = Some params, rf_fields = []\<rparr>))
       (\<lambda>_. Inr ())"

section \<open>From lines to frames\<close>

text \<open>\<open>from_slice\<close> gives the members of an object in document order, \<open>None\<close> for another value.\<close>

definition decode_frame :: "from_slice \<Rightarrow> (json \<Rightarrow> json option) \<Rightarrow> bytes \<Rightarrow> codec_error + frame" where
  "decode_frame from_slice claude_failure line =
     (case from_slice line of
        Inl e \<Rightarrow> Inl (MalformedJson (ParserError e))
      | Inr None \<Rightarrow> Inl (MalformedJson (WireError ExpectedObject))
      | Inr (Some members) \<Rightarrow>
          (case wire_of_members members of
             Inl e \<Rightarrow> Inl (MalformedJson (WireError e))
           | Inr w \<Rightarrow> into_frame claude_failure w))"

definition decode_journal_frame ::
  "from_slice \<Rightarrow> (json \<Rightarrow> json option) \<Rightarrow> bytes \<Rightarrow> codec_error + frame" where
  "decode_journal_frame from_slice claude_failure line =
     (if frame_payload_bytes line > MAX_FRAME_BYTES then Inl (FrameTooLarge MAX_FRAME_BYTES)
      else decode_frame from_slice claude_failure (strip_delimiter line))"

definition decode_journal_entry ::
  "from_slice \<Rightarrow> (json \<Rightarrow> json option) \<Rightarrow> u64 \<Rightarrow> u64 \<Rightarrow> bytes \<Rightarrow> decoded_journal_entry" where
  "decode_journal_entry from_slice claude_failure cursor generation line =
     \<lparr>je_cursor = cursor, je_generation = generation,
      je_payload =
        (case decode_journal_frame from_slice claude_failure line of
           Inr f \<Rightarrow> JournalFrame f | Inl e \<Rightarrow> RawStdout line e)\<rparr>"

text \<open>\<open>to_vec\<close> prints a value; its failure leaves no bytes.\<close>

definition decode_journal_value ::
  "(json \<Rightarrow> string + bytes) \<Rightarrow> (json \<Rightarrow> json option) \<Rightarrow> u64 \<Rightarrow> u64 \<Rightarrow> json \<Rightarrow> decoded_journal_entry"
where
  "decode_journal_value to_vec claude_failure cursor generation payload =
     \<lparr>je_cursor = cursor, je_generation = generation,
      je_payload =
        (case (case wire_of_value payload of
                 Inl e \<Rightarrow> Inl (MalformedJson (WireError e))
               | Inr w \<Rightarrow> into_frame claude_failure w) of
           Inr f \<Rightarrow> JournalFrame f
         | Inl e \<Rightarrow> RawStdout (case to_vec payload of Inr bs \<Rightarrow> bs | Inl _ \<Rightarrow> []) e)\<rparr>"

text \<open>\<open>from_value\<close> parses a line as a plain value, keeping the last of duplicate members.\<close>

definition decode_probe_response ::
  "(bytes \<Rightarrow> string + json) \<Rightarrow> bytes \<Rightarrow> u64 \<Rightarrow> codec_error + json option" where
  "decode_probe_response from_value line expected =
     (case from_value line of
        Inl e \<Rightarrow> Inl (MalformedJson (ParserError e))
      | Inr value \<Rightarrow>
          if \<not> is_object value then Inl (MalformedFrame ''expected object'')
          else if json_get value ''method'' \<noteq> None then
            (if json_get value ''id'' \<noteq> None
             then Inl (MalformedFrame ''unexpected incoming request'') else Inr None)
          else case wire_of_value value of
                 Inl e \<Rightarrow> Inl (MalformedJson (WireError e))
               | Inr w \<Rightarrow>
                   if wo_id w \<noteq> Some (Number expected) \<or> wo_error w \<noteq> None
                   then Inl (MalformedFrame ''unexpected probe response'')
                   else case wo_result w of
                          Some r \<Rightarrow> Inr (Some r)
                        | None \<Rightarrow> Inl (MalformedFrame ''missing probe result''))"

section \<open>Reading an object with distinct members\<close>

definition envelope :: "string set" where
  "envelope = {''method'', ''id'', ''params'', ''result'', ''error''}"

text \<open>The values the schema accepts for a method and an id.\<close>

definition wire_ok :: "(string \<times> json) list \<Rightarrow> bool" where
  "wire_ok ms =
     ((case map_of ms ''method'' of
         None \<Rightarrow> True | Some v \<Rightarrow> v = JNull \<or> as_str v \<noteq> None)
      \<and> (case map_of ms ''id'' of
           None \<Rightarrow> True | Some v \<Rightarrow> v = JNull \<or> id_of_value v \<noteq> None))"

definition or_else :: "'a option \<Rightarrow> 'a option \<Rightarrow> 'a option" where
  "or_else a b = (case a of Some x \<Rightarrow> Some x | None \<Rightarrow> b)"

lemma or_else_simps [simp]: "or_else (Some x) b = Some x" "or_else None b = b" "or_else a None = a"
  by (simp_all add: or_else_def split: option.split)

definition read_wire :: "(string \<times> json) list \<Rightarrow> wire_object \<Rightarrow> wire_object \<Rightarrow> bool" where
  "read_wire ms w w' =
     (wo_method w' = or_else (Option.bind (map_of ms ''method'') as_str) (wo_method w)
      \<and> wo_id w' = or_else (Option.bind (map_of ms ''id'') id_of_value) (wo_id w)
      \<and> wo_params w' = or_else (map_of ms ''params'') (wo_params w)
      \<and> wo_result w' = or_else (map_of ms ''result'') (wo_result w)
      \<and> wo_error w' = or_else (map_of ms ''error'') (wo_error w)
      \<and> (\<forall>k. om_get (wo_fields w') k =
           (if k \<in> envelope then om_get (wo_fields w) k
            else or_else (map_of ms k) (om_get (wo_fields w) k)))
      \<and> (om_wf (wo_fields w) \<longrightarrow> om_wf (wo_fields w')))"

lemma wire_member_step:
  assumes "key \<notin> set seen" "wire_ok ((key, value) # ms)" "key \<notin> fst ` set ms"
  shows "\<exists>seen' w1. wire_member (seen, w) (key, value) = Inr (seen', w1)
    \<and> set seen' \<subseteq> insert key (set seen) \<and> read_wire [(key, value)] w w1"
proof -
  consider "key = ''method''" | "key = ''id''" | "key = ''params''" | "key = ''result''"
    | "key = ''error''" | "key \<notin> envelope"
    by (auto simp: envelope_def)
  then show ?thesis
  proof cases
    case 1
    with assms show ?thesis
      by (cases "value") (auto simp: wire_member_def read_wire_def wire_ok_def envelope_def)
  next
    case 2
    with assms show ?thesis
      by (cases "id_of_value value")
         (auto simp: wire_member_def read_wire_def wire_ok_def envelope_def)
  qed (use assms in \<open>auto simp: wire_member_def read_wire_def envelope_def\<close>)
qed

lemma or_else_Cons:
  assumes "map_of ms key = None"
  shows "or_else (map_of ms k) (or_else (map_of [(key, v)] k) b) = or_else (map_of ((key, v) # ms) k) b"
    and "or_else (Option.bind (map_of ms k) f) (or_else (Option.bind (map_of [(key, v)] k) f) c)
      = or_else (Option.bind (map_of ((key, v) # ms) k) f) c"
  using assms by (cases "k = key"; simp)+

lemma read_wire_trans:
  assumes "read_wire [(key, v)] w w1" "read_wire ms w1 w2" "key \<notin> fst ` set ms"
  shows "read_wire ((key, v) # ms) w w2"
proof -
  have "map_of ms key = None" using assms(3) by (simp add: map_of_eq_None_iff)
  note c = or_else_Cons(1) [OF this, where v = v] or_else_Cons(2) [OF this, where v = v]
  note r = assms(1,2) [unfolded read_wire_def]
  have "wo_method w2 = or_else (Option.bind (map_of ((key, v) # ms) ''method'') as_str) (wo_method w)"
    "wo_id w2 = or_else (Option.bind (map_of ((key, v) # ms) ''id'') id_of_value) (wo_id w)"
    "wo_params w2 = or_else (map_of ((key, v) # ms) ''params'') (wo_params w)"
    "wo_result w2 = or_else (map_of ((key, v) # ms) ''result'') (wo_result w)"
    "wo_error w2 = or_else (map_of ((key, v) # ms) ''error'') (wo_error w)"
    using r by (simp_all only: c)
  moreover have "om_get (wo_fields w2) k = (if k \<in> envelope then om_get (wo_fields w) k
      else or_else (map_of ((key, v) # ms) k) (om_get (wo_fields w) k))" for k
    using r by (cases "k \<in> envelope") (simp_all only: c if_True if_False simp_thms)
  ultimately show ?thesis
    unfolding read_wire_def using r by blast
qed

lemma wire_ok_tail: "wire_ok ((key, v) # ms) \<Longrightarrow> key \<notin> fst ` set ms \<Longrightarrow> wire_ok ms"
  using map_of_eq_None_iff [of ms key]
  by (cases "key = ''method''"; cases "key = ''id''") (auto simp: wire_ok_def)

lemma wire_members_distinct:
  assumes "distinct (map fst ms)" "wire_ok ms" "set seen \<inter> fst ` set ms = {}"
  shows "\<exists>w'. wire_members (seen, w) ms = Inr w' \<and> read_wire ms w w'"
  using assms
proof (induction ms arbitrary: seen w)
  case Nil
  then show ?case by (simp add: read_wire_def)
next
  case (Cons m ms)
  obtain key v where m: "m = (key, v)" by (cases m)
  have key: "key \<notin> set seen" "key \<notin> fst ` set ms" using Cons.prems m by auto
  obtain seen' w1 where s: "wire_member (seen, w) (key, v) = Inr (seen', w1)"
    "set seen' \<subseteq> insert key (set seen)" "read_wire [(key, v)] w w1"
    using wire_member_step [OF key(1) _ key(2)] Cons.prems(2) m by blast
  have "wire_ok ms"
    using Cons.prems(2) key(2) wire_ok_tail unfolding m by blast
  with Cons.IH [of seen' w1] Cons.prems m s(2) key obtain w2 where
    "wire_members (seen', w1) ms = Inr w2" "read_wire ms w1 w2"
    by (auto simp: m)
  with s m read_wire_trans [OF s(3) _ key(2)] show ?case by auto
qed

lemma wire_of_members_distinct:
  assumes "distinct (map fst ms)" "wire_ok ms"
  shows "\<exists>w. wire_of_members ms = Inr w \<and> read_wire ms empty_wire w"
  using wire_members_distinct [OF assms, of "[]" empty_wire] by (simp add: wire_of_members_def)

section \<open>Frames that survive the wire\<close>

text \<open>
  The frames the decoder produces: extension fields in order, free of the members that the
  envelope owns, failure payloads already sanitized, and unknown methods carrying themselves.
\<close>

definition frame_wf :: "(json \<Rightarrow> json option) \<Rightarrow> frame \<Rightarrow> bool" where
  "frame_wf claude_failure f =
     (let clean = (\<lambda>v. sanitize_failure_payload claude_failure v = v);
          free = (\<lambda>keys m. om_wf m \<and> (\<forall>k \<in> set keys. om_get m k = None))
      in case f of
        Request r \<Rightarrow> from_wire (rf_method r) \<noteq> None \<and> free [''id'', ''method'', ''params''] (rf_fields r)
      | Notification n \<Rightarrow>
          from_wire (nf_method n) \<noteq> None \<and> free [''id'', ''method'', ''params''] (nf_fields n)
          \<and> (nf_method n = TurnCompleted \<or> nf_method n = ProtocolError \<longrightarrow>
               (case nf_params n of None \<Rightarrow> True | Some p \<Rightarrow> clean p))
      | UnknownMethod u \<Rightarrow>
          om_wf (uf_fields u) \<and> from_wire (uf_method u) = None
          \<and> om_get (uf_fields u) ''method'' = Some (JString (uf_method u))
          \<and> (case om_get (uf_fields u) ''id'' of None \<Rightarrow> True | Some v \<Rightarrow> id_of_value v \<noteq> None)
      | Response i body extra \<Rightarrow>
          free [''id'', ''method'', ''result'', ''error''] extra
          \<and> (case body of ResultBody v \<Rightarrow> clean v | ErrorBody _ \<Rightarrow> True))"

lemma from_wire_Some [simp]: "from_wire v = Some m \<longleftrightarrow> v \<in> set method_names \<and> m = v"
  by (auto simp: from_wire_def)

lemma id_value_of_value: "id_of_value v = Some i \<Longrightarrow> id_value i = v"
  by (induction v rule: id_of_value.induct) auto

lemma om_get_keep: "om_get (keep k v m) j = (if j = k then or_else v (om_get m k) else om_get m j)"
  by (simp add: keep_def or_else_def split: option.split)

lemma om_wf_keep [simp]: "om_wf m \<Longrightarrow> om_wf (keep k v m)"
  by (simp add: keep_def split: option.split)

lemma fold_om_insert_wf:
  "om_wf m \<Longrightarrow> om_wf (fold (\<lambda>(key, v). om_insert key v) kvs m)"
  by (induction kvs arbitrary: m) auto

lemma frame_entries_wf: "frame_wf cf f \<Longrightarrow> om_wf (frame_entries f)"
  unfolding frame_entries_def
  by (cases f)
     (auto simp: frame_wf_def Let_def frame_parts_def intro!: fold_om_insert_wf split: prod.split)

text \<open>Reading back ordered entries with an acceptable method and id.\<close>

lemma read_entries:
  assumes "om_wf ms" "wire_ok ms"
  obtains w where "wire_of_members ms = Inr w" "om_wf (wo_fields w)"
    "wo_method w = Option.bind (om_get ms ''method'') as_str"
    "wo_id w = Option.bind (om_get ms ''id'') id_of_value"
    "wo_params w = om_get ms ''params''" "wo_result w = om_get ms ''result''"
    "wo_error w = om_get ms ''error''"
    "\<And>k. om_get (wo_fields w) k = (if k \<in> envelope then None else om_get ms k)"
  using wire_of_members_distinct [OF om_wf_distinct [OF assms(1)] assms(2)]
  by (auto simp: read_wire_def empty_wire_def)

lemma om_ext: "om_wf m \<Longrightarrow> om_wf n \<Longrightarrow> (\<And>k. om_get m k = om_get n k) \<Longrightarrow> m = n"
  by (rule om_wf_ext) auto

lemma round_trip_request:
  assumes "frame_wf cf (Request r)"
  shows "\<exists>w. wire_of_members (frame_entries (Request r)) = Inr w \<and> into_frame cf w = Inr (Request r)"
proof -
  let ?ms = "frame_entries (Request r)"
  have free: "om_wf (rf_fields r)" "om_get (rf_fields r) ''id'' = None"
    "om_get (rf_fields r) ''method'' = None" "om_get (rf_fields r) ''params'' = None"
    "rf_method r \<in> set method_names"
    using assms by (auto simp: frame_wf_def Let_def from_wire_def split: if_splits)
  have g: "om_get ?ms k = (if k = ''params'' then rf_params r
      else if k = ''id'' then Some (id_value (rf_id r))
      else if k = ''method'' then Some (JString (rf_method r)) else om_get (rf_fields r) k)" for k
    using free(4) by (simp add: frame_entries_def frame_parts_def split: option.split)
  have ok: "wire_ok ?ms" by (simp add: wire_ok_def g)
  obtain w where w: "wire_of_members ?ms = Inr w" "om_wf (wo_fields w)"
    "wo_method w = Some (rf_method r)" "wo_id w = Some (rf_id r)" "wo_params w = rf_params r"
    "wo_result w = om_get (rf_fields r) ''result''" "wo_error w = om_get (rf_fields r) ''error''"
    "\<And>k. om_get (wo_fields w) k = (if k \<in> envelope then None else om_get (rf_fields r) k)"
    by (rule read_entries [OF frame_entries_wf [OF assms] ok]) (auto simp: g envelope_def)
  have "keep ''error'' (wo_error w) (keep ''result'' (wo_result w) (wo_fields w)) = rf_fields r"
    using w free by (intro om_ext) (auto simp: om_get_keep envelope_def)
  with w free show ?thesis by (cases r) (auto simp: into_frame_def Let_def from_wire_def)
qed

lemma round_trip_notification:
  assumes "frame_wf cf (Notification n)"
  shows "\<exists>w. wire_of_members (frame_entries (Notification n)) = Inr w
           \<and> into_frame cf w = Inr (Notification n)"
proof -
  let ?ms = "frame_entries (Notification n)"
  have free: "om_wf (nf_fields n)" "om_get (nf_fields n) ''id'' = None"
    "om_get (nf_fields n) ''method'' = None" "om_get (nf_fields n) ''params'' = None"
    "nf_method n \<in> set method_names"
    and clean: "nf_method n = TurnCompleted \<or> nf_method n = ProtocolError \<Longrightarrow>
      map_option (sanitize_failure_payload cf) (nf_params n) = nf_params n"
    using assms by (auto simp: frame_wf_def Let_def from_wire_def split: if_splits option.splits)
  have g: "om_get ?ms k = (if k = ''params'' then nf_params n
      else if k = ''method'' then Some (JString (nf_method n)) else om_get (nf_fields n) k)" for k
    using free(4) by (simp add: frame_entries_def frame_parts_def split: option.split)
  have ok: "wire_ok ?ms" using free(2) by (simp add: wire_ok_def g)
  obtain w where w: "wire_of_members ?ms = Inr w" "om_wf (wo_fields w)"
    "wo_method w = Some (nf_method n)" "wo_id w = None" "wo_params w = nf_params n"
    "wo_result w = om_get (nf_fields n) ''result''" "wo_error w = om_get (nf_fields n) ''error''"
    "\<And>k. om_get (wo_fields w) k = (if k \<in> envelope then None else om_get (nf_fields n) k)"
    by (rule read_entries [OF frame_entries_wf [OF assms] ok]) (use free(2) in \<open>auto simp: g envelope_def\<close>)
  have "keep ''error'' (wo_error w) (keep ''result'' (wo_result w) (wo_fields w)) = nf_fields n"
    using w free by (intro om_ext) (auto simp: om_get_keep envelope_def)
  with w free clean show ?thesis by (cases n) (auto simp: into_frame_def Let_def from_wire_def)
qed

lemma round_trip_response:
  assumes "frame_wf cf (Response i body extra)"
  shows "\<exists>w. wire_of_members (frame_entries (Response i body extra)) = Inr w
           \<and> into_frame cf w = Inr (Response i body extra)"
proof -
  let ?ms = "frame_entries (Response i body extra)"
  have free: "om_wf extra" "om_get extra ''id'' = None" "om_get extra ''method'' = None"
    "om_get extra ''result'' = None" "om_get extra ''error'' = None"
    using assms by (auto simp: frame_wf_def Let_def)
  have g: "om_get ?ms k = (if k = ''id'' then Some (id_value i)
      else case body of
        ResultBody v \<Rightarrow> if k = ''result'' then Some v else om_get extra k
      | ErrorBody v \<Rightarrow> if k = ''error'' then Some v else om_get extra k)" for k
    by (cases body) (simp_all add: frame_entries_def frame_parts_def)
  have ok: "wire_ok ?ms" using free by (simp add: wire_ok_def g split: response_body.split)
  obtain w where w: "wire_of_members ?ms = Inr w" "om_wf (wo_fields w)" "wo_method w = None"
    "wo_id w = Some i" "wo_params w = om_get extra ''params''"
    "wo_result w = (case body of ResultBody v \<Rightarrow> Some v | ErrorBody _ \<Rightarrow> None)"
    "wo_error w = (case body of ResultBody _ \<Rightarrow> None | ErrorBody v \<Rightarrow> Some v)"
    "\<And>k. om_get (wo_fields w) k = (if k \<in> envelope then None else om_get extra k)"
    by (rule read_entries [OF frame_entries_wf [OF assms] ok])
       (use free in \<open>auto simp: g envelope_def split: response_body.splits\<close>)
  have "keep ''params'' (wo_params w) (wo_fields w) = extra"
    using w free by (intro om_ext) (auto simp: om_get_keep envelope_def)
  with w assms show ?thesis
    by (cases body) (auto simp: into_frame_def frame_wf_def Let_def)
qed

lemma round_trip_unknown:
  assumes "frame_wf cf (UnknownMethod u)"
  shows "\<exists>w. wire_of_members (frame_entries (UnknownMethod u)) = Inr w
           \<and> into_frame cf w = Inr (UnknownMethod u)"
proof -
  let ?ms = "frame_entries (UnknownMethod u)"
  have ms: "?ms = uf_fields u" by (simp add: frame_entries_def frame_parts_def)
  have u: "om_wf (uf_fields u)" "from_wire (uf_method u) = None"
    "om_get (uf_fields u) ''method'' = Some (JString (uf_method u))"
    and uid: "\<And>v. om_get (uf_fields u) ''id'' = Some v \<Longrightarrow> id_of_value v \<noteq> None"
    using assms by (auto simp: frame_wf_def Let_def)
  have ok: "wire_ok ?ms" using u(3) uid by (auto simp: wire_ok_def ms split: option.split)
  obtain w where w: "wire_of_members ?ms = Inr w" "om_wf (wo_fields w)"
    "wo_method w = Some (uf_method u)"
    "wo_id w = Option.bind (om_get (uf_fields u) ''id'') id_of_value"
    "wo_params w = om_get (uf_fields u) ''params''" "wo_result w = om_get (uf_fields u) ''result''"
    "wo_error w = om_get (uf_fields u) ''error''"
    "\<And>k. om_get (wo_fields w) k = (if k \<in> envelope then None else om_get (uf_fields u) k)"
    by (rule read_entries [OF frame_entries_wf [OF assms] ok]) (use u(3) in \<open>auto simp: ms\<close>)
  have i: "map_option id_value (wo_id w) = om_get (uf_fields u) ''id''"
    using w(4) uid by (cases "om_get (uf_fields u) ''id''") (auto dest: id_value_of_value)
  have "keep ''method'' (Some (JString (uf_method u)))
      (keep ''id'' (map_option id_value (wo_id w)) (keep ''params'' (wo_params w)
        (keep ''error'' (wo_error w) (keep ''result'' (wo_result w) (wo_fields w))))) = uf_fields u"
    unfolding i using w u by (intro om_ext) (auto simp: om_get_keep envelope_def)
  with w(1,3) u(2) show ?thesis by (cases u) (simp add: into_frame_def Let_def)
qed

lemma round_trip_frame:
  assumes "frame_wf cf f"
  shows "\<exists>w. wire_of_members (frame_entries f) = Inr w \<and> into_frame cf w = Inr f"
  using assms round_trip_request round_trip_notification round_trip_response round_trip_unknown
  by (cases f) auto

section \<open>Properties of the codec\<close>

text \<open>
  The values that JSON text carries without loss. The parser of the JSON library refuses text with
  more than 127 levels of arrays and objects, a string of the language is UTF-8, an object is
  ordered by its keys, a negative integer is an \<open>i64\<close>, and a float is a finite \<open>f64\<close> (the library is
  built with \<open>float_roundtrip\<close>, so a finite float is read back exactly).
\<close>

definition JSON_LEVELS :: nat where
  "JSON_LEVELS = 127"

fun json_number_text :: "json_number \<Rightarrow> bool" where
  "json_number_text (PosInt n) = True"
| "json_number_text (NegInt n) = (- (2 ^ 63) \<le> n \<and> n < 0)"
| "json_number_text (Float x) = (case x of Finite n \<Rightarrow> f64_of_ratio n 1 = x | _ \<Rightarrow> False)"

text \<open>A value fits below a number of levels.\<close>

fun json_text :: "nat \<Rightarrow> json \<Rightarrow> bool" where
  "json_text levels JNull = True"
| "json_text levels (JBool b) = True"
| "json_text levels (JNumber n) = json_number_text n"
| "json_text levels (JString s) = utf8_valid s"
| "json_text levels (JArray xs) = (levels \<noteq> 0 \<and> (\<forall>x \<in> set xs. json_text (levels - 1) x))"
| "json_text levels (JObject m) =
     (levels \<noteq> 0 \<and> om_wf m \<and> (\<forall>e \<in> set m. utf8_valid (fst e) \<and> json_text (levels - 1) (snd e)))"

text \<open>
  What the codec relies on in the JSON library: printing such an object yields text whose last
  byte is not a carriage return, and parsing the text gives the entries back in order.
\<close>

definition json_text_inverse :: "to_writer \<Rightarrow> from_slice \<Rightarrow> bool" where
  "json_text_inverse to_writer from_slice =
     (\<forall>ms bs. json_text JSON_LEVELS (JObject ms) \<longrightarrow> to_writer ms = Inr bs \<longrightarrow>
        from_slice bs = Inr (Some ms) \<and> (bs \<noteq> [] \<longrightarrow> last bs \<noteq> 13))"

lemma strip_delimiter_line:
  "(bs \<noteq> [] \<longrightarrow> last bs \<noteq> 13) \<Longrightarrow> strip_delimiter (bs @ [10]) = bs"
  by (auto simp: strip_delimiter_def strip_suffix_def)

text \<open>C16: Encoding a frame as a line and decoding that line gives the same frame back, extension fields
  included. It holds for every frame of the kind the decoder produces (a known method unless the frame
  is an unknown one, extension fields that are no envelope members, failure payloads already
  sanitized) whose members JSON text carries: at most 127 levels of nesting, finite floats.\<close>

theorem frame_line_round_trip:
  assumes "json_text_inverse to_writer from_slice" "frame_wf claude_failure f"
    and "json_text JSON_LEVELS (JObject (frame_entries f))" "encode_line to_writer f = Inr line"
  shows "decode_journal_frame from_slice claude_failure line = Inr f"
proof -
  from assms(4) obtain bs where bs: "to_writer (frame_entries f) = Inr bs" "line = bs @ [10]"
    "length bs \<le> MAX_FRAME_BYTES"
    by (auto simp: encode_line_def encode_line_into_def split: sum.splits if_splits)
  have inv: "from_slice bs = Inr (Some (frame_entries f))" "bs \<noteq> [] \<longrightarrow> last bs \<noteq> 13"
    using assms(1,3) bs(1) unfolding json_text_inverse_def by blast+
  have s: "strip_delimiter line = bs" unfolding bs(2) by (rule strip_delimiter_line [OF inv(2)])
  obtain w where "wire_of_members (frame_entries f) = Inr w" "into_frame claude_failure w = Inr f"
    using round_trip_frame [OF assms(2)] by blast
  with inv bs s show ?thesis
    by (simp add: decode_journal_frame_def frame_payload_bytes_def decode_frame_def)
qed

definition sample_frame :: frame where
  "sample_frame = Request \<lparr>rf_id = Number 7, rf_method = Initialize, rf_params = Some JNull,
     rf_fields = [(''error'', JBool True), (''extra'', JNumber (Float (Finite 3)))]\<rparr>"

text \<open>A printer and parser for one object, to show that the assumption can hold.\<close>

definition one_writer :: "(string \<times> json) list \<Rightarrow> to_writer" where
  "one_writer ms ms' = (if ms' = ms then Inr [123, 125] else Inl ''unsupported'')"

definition one_slice :: "(string \<times> json) list \<Rightarrow> from_slice" where
  "one_slice ms bs = (if bs = [123, 125] then Inr (Some ms) else Inl ''unsupported'')"

lemma one_inverse: "json_text_inverse (one_writer ms) (one_slice ms)"
  by (simp add: json_text_inverse_def one_writer_def one_slice_def)

lemma sample_frame_wf: "frame_wf cf sample_frame"
  by (simp add: frame_wf_def sample_frame_def from_wire_def method_names_def om_wf_def Let_def)

theorem frame_line_round_trip_witness:
  "decode_journal_frame (one_slice (frame_entries sample_frame)) (\<lambda>_. None) [123, 125, 10]
     = Inr sample_frame"
proof -
  have line: "encode_line (one_writer (frame_entries sample_frame)) sample_frame = Inr [123, 125, 10]"
    by (simp add: encode_line_def encode_line_into_def one_writer_def MAX_FRAME_BYTES_def)
  have "json_text JSON_LEVELS (JObject (frame_entries sample_frame))" by code_simp
  from frame_line_round_trip [OF one_inverse sample_frame_wf this line] show ?thesis .
qed

section \<open>Every decoded frame survives the wire\<close>

definition top_wf :: "json \<Rightarrow> bool" where
  "top_wf v = (case v of JObject m \<Rightarrow> om_wf m | _ \<Rightarrow> True)"

lemma top_wf_JObject [simp]: "top_wf (JObject m) = om_wf m"
  by (simp add: top_wf_def)

lemma om_insert_twice: "om_insert k y (om_insert k x m) = om_insert k y m"
  by (induction k x m rule: om_insert.induct) auto

lemma om_remove_insert: "om_remove k (om_insert k x m) = om_remove k m"
  by (induction k x m rule: om_insert.induct) (auto simp: om_remove_def)

lemma om_remove_twice: "om_remove k (om_remove k m) = om_remove k m"
  by (simp add: om_remove_def)

lemma om_insert_commute:
  "om_wf m \<Longrightarrow> k \<noteq> j \<Longrightarrow> om_insert k x (om_insert j y m) = om_insert j y (om_insert k x m)"
  by (rule om_ext) auto

lemma json_modify_twice:
  "json_modify ks f (json_modify ks g v) = json_modify ks (\<lambda>x. f (g x)) v"
  by (induction ks g v rule: json_modify.induct) (auto simp: om_insert_twice split: option.split)

lemma json_modify_commute:
  assumes "k \<noteq> j" "top_wf v"
  shows "json_modify (k # ks) f (json_modify (j # js) g v)
    = json_modify (j # js) g (json_modify (k # ks) f v)"
proof (cases v)
  case (JObject m)
  with assms show ?thesis
    using om_insert_commute [of m k j]
    by (cases "om_get m k"; cases "om_get m j") (auto split: option.split)
qed simp_all

lemma json_modify_top_wf [simp]: "top_wf v \<Longrightarrow> top_wf (json_modify (k # ks) f v)"
  by (cases v) (auto split: option.split)

definition failure_idempotent :: "(json \<Rightarrow> json option) \<Rightarrow> bool" where
  "failure_idempotent cf = (\<forall>v w. cf v = Some w \<longrightarrow> cf w = Some w)"

lemma sanitize_error_twice:
  assumes "failure_idempotent cf"
  shows "sanitize_error cf (sanitize_error cf v) = sanitize_error cf v"
proof (cases v)
  case (JObject m)
  with assms show ?thesis
    by (cases "om_get m ''claudeFailure''"; cases "cf (the (om_get m ''claudeFailure''))")
       (auto simp: sanitize_error_def failure_idempotent_def om_remove_insert om_remove_twice)
qed (simp_all add: sanitize_error_def)

lemma sanitize_turns_twice:
  "failure_idempotent cf \<Longrightarrow> sanitize_turns cf (sanitize_turns cf v) = sanitize_turns cf v"
  by (cases v) (simp_all add: sanitize_turns_def json_modify_twice sanitize_error_twice)

lemma sanitize_failure_payload_twice:
  assumes "failure_idempotent cf" "top_wf v"
  shows "sanitize_failure_payload cf (sanitize_failure_payload cf v) = sanitize_failure_payload cf v"
proof -
  let ?e = "json_modify [''error''] (sanitize_error cf)"
  let ?te = "json_modify [''turn'', ''error''] (sanitize_error cf)"
  let ?t = "json_modify [''turns''] (sanitize_turns cf)"
  let ?tt = "json_modify [''thread'', ''turns''] (sanitize_turns cf)"
  have idem: "?e (?e u) = ?e u" "?te (?te u) = ?te u" "?t (?t u) = ?t u" "?tt (?tt u) = ?tt u" for u
    by (simp_all add: json_modify_twice sanitize_error_twice [OF assms(1)]
        sanitize_turns_twice [OF assms(1)] del: json_modify.simps)
  have comm: "?e (?te u) = ?te (?e u)" "?e (?t u) = ?t (?e u)" "?e (?tt u) = ?tt (?e u)"
    "?te (?t u) = ?t (?te u)" "?te (?tt u) = ?tt (?te u)" "?t (?tt u) = ?tt (?t u)"
    if "top_wf u" for u
    using that by (intro json_modify_commute, simp, simp)+
  have "sanitize_failure_payload cf (sanitize_failure_payload cf v)
      = ?tt (?t (?te (?e (?tt (?t (?te (?e v)))))))"
    by (simp only: sanitize_failure_payload_def Let_def)
  also have "\<dots> = ?tt (?tt (?t (?t (?te (?te (?e (?e v)))))))"
    using assms(2) by (simp only: comm json_modify_top_wf)
  also have "\<dots> = sanitize_failure_payload cf v"
    by (simp only: idem sanitize_failure_payload_def Let_def)
  finally show ?thesis .
qed

definition wire_wf :: "wire_object \<Rightarrow> bool" where
  "wire_wf w = (om_wf (wo_fields w) \<and> (\<forall>k \<in> envelope. om_get (wo_fields w) k = None)
     \<and> (case wo_params w of None \<Rightarrow> True | Some v \<Rightarrow> top_wf v)
     \<and> (case wo_result w of None \<Rightarrow> True | Some v \<Rightarrow> top_wf v))"

lemma wire_member_wf:
  assumes "wire_member (seen, w) (key, v) = Inr (seen', w')" "wire_wf w" "top_wf v"
  shows "wire_wf w'"
proof -
  consider "key = ''method''" | "key = ''id''" | "key = ''params''" | "key = ''result''"
    | "key = ''error''" | "key \<notin> envelope"
    by (auto simp: envelope_def)
  then show ?thesis
  proof cases
    case 1
    with assms show ?thesis
      by (cases v) (auto simp: wire_member_def wire_wf_def split: if_splits)
  next
    case 2
    with assms show ?thesis
      by (cases "id_of_value v") (auto simp: wire_member_def wire_wf_def split: if_splits)
  next
    case 6
    then have "key \<notin> {''method'', ''id'', ''params'', ''result'', ''error''}"
      by (simp add: envelope_def)
    with assms(1) have "w' = w\<lparr>wo_fields := om_insert key v (wo_fields w)\<rparr>"
      by (simp add: wire_member_def)
    with assms(2) 6 show ?thesis by (auto simp: wire_wf_def)
  qed (use assms in \<open>auto simp: wire_member_def wire_wf_def split: if_splits\<close>)
qed

lemma wire_members_wf:
  "wire_members (seen, w) ms = Inr w' \<Longrightarrow> wire_wf w \<Longrightarrow> \<forall>m \<in> set ms. top_wf (snd m) \<Longrightarrow> wire_wf w'"
proof (induction ms arbitrary: seen w)
  case (Cons m ms)
  then show ?case
    using wire_member_wf by (cases m) (fastforce split: sum.splits)
qed simp

lemma into_frame_wf:
  assumes "into_frame cf w = Inr f" "wire_wf w" "failure_idempotent cf"
  shows "frame_wf cf f"
proof (cases "wo_method w")
  case None
  have clean: "sanitize_failure_payload cf (sanitize_failure_payload cf v) = sanitize_failure_payload cf v"
    if "wo_result w = Some v" for v
    using assms(2,3) that sanitize_failure_payload_twice by (simp add: wire_wf_def)
  from None assms(1) obtain i where i: "wo_id w = Some i"
    by (cases "wo_id w") (auto simp: into_frame_def Let_def)
  show ?thesis
    using None i assms(1,2) clean
    by (cases "wo_error w"; cases "wo_result w")
       (auto simp: into_frame_def frame_wf_def Let_def wire_wf_def om_get_keep envelope_def)
next
  case (Some name)
  let ?kept = "keep ''error'' (wo_error w) (keep ''result'' (wo_result w) (wo_fields w))"
  have kept: "om_wf ?kept" "om_get ?kept ''id'' = None" "om_get ?kept ''method'' = None"
    "om_get ?kept ''params'' = None"
    using assms(2) by (auto simp: wire_wf_def om_get_keep envelope_def)
  have clean: "sanitize_failure_payload cf (sanitize_failure_payload cf v) = sanitize_failure_payload cf v"
    if "wo_params w = Some v" for v
    using assms(2,3) that sanitize_failure_payload_twice by (simp add: wire_wf_def)
  show ?thesis
  proof (cases "from_wire name")
    case None
    with Some assms(1) kept show ?thesis
      by (cases "wo_id w") (auto simp: into_frame_def frame_wf_def Let_def om_get_keep)
  next
    case (Some known)
    then have "name \<in> set method_names" "known = name" by simp_all
    with \<open>wo_method w = Some name\<close> assms(1) kept clean show ?thesis
      by (cases "wo_id w"; cases "wo_params w")
         (auto simp: into_frame_def frame_wf_def Let_def from_wire_def)
  qed
qed

text \<open>Whatever line the decoder accepts, the frame it returns is one that survives encoding and
  decoding; in particular its failure records are already sanitized and no envelope member is
  repeated among the extension fields.\<close>

lemma decoded_frame_is_stable:
  assumes "decode_journal_frame from_slice claude_failure line = Inr f"
    and "failure_idempotent claude_failure"
    and "\<And>l ms. from_slice l = Inr (Some ms) \<Longrightarrow> \<forall>m \<in> set ms. top_wf (snd m)"
  shows "frame_wf claude_failure f"
proof -
  obtain ms w where "from_slice (strip_delimiter line) = Inr (Some ms)"
    "wire_of_members ms = Inr w" "into_frame claude_failure w = Inr f"
    using assms(1)
    by (auto simp: decode_journal_frame_def decode_frame_def split: if_splits sum.splits option.splits)
  moreover have "wire_wf empty_wire" by (simp add: wire_wf_def empty_wire_def)
  ultimately show ?thesis
    using assms(2,3) wire_members_wf into_frame_wf unfolding wire_of_members_def by blast
qed

end
