(* ===== verification/Pending_Book.thy ===== *)
theory Pending_Book
  imports Provider_Codec
begin

text \<open>
  Per-connection request tracking, \<open>runtime-providers/src/session.rs\<close>: id allocation, response
  matching and the bounded history of settled ids. The lemmas show the invariant of the book,
  that every operation keeps it, that a response settles a request at most once and that the
  history is exactly the window of the last settlements.
\<close>

datatype request_state = RsPending | RsUnknown | RsReplied

datatype response_match = MatchPending provider_method | MatchLate provider_method

datatype book_error = IdExhausted | DuplicateId | UnknownId | DuplicateResponse | ConnectionClosed

record book_entry =
  be_method :: provider_method
  be_state :: request_state

datatype settled_kind = SkReplied | SkCancelled

definition SETTLED_ID_HISTORY_LIMIT :: nat where
  "SETTLED_ID_HISTORY_LIMIT = 256"

record pending_book =
  bk_next_numeric_id :: u64
  bk_entries :: "(request_id, book_entry) omap"
  bk_settled_ids :: "(request_id, settled_kind) omap"
  bk_settled_order :: "request_id list"
  bk_closed :: bool

definition new_book :: pending_book where
  "new_book = \<lparr>bk_next_numeric_id = 0, bk_entries = [], bk_settled_ids = [],
     bk_settled_order = [], bk_closed = False\<rparr>"

section \<open>Operations\<close>

text \<open>Each operation returns its result and the book it leaves behind.\<close>

definition book_register ::
  "pending_book \<Rightarrow> request_id \<Rightarrow> provider_method \<Rightarrow> (book_error + unit) \<times> pending_book" where
  "book_register b i method =
     (if bk_closed b then (Inl ConnectionClosed, b)
      else if om_has (bk_entries b) i \<or> om_has (bk_settled_ids b) i then (Inl DuplicateId, b)
      else (Inr (), b\<lparr>bk_entries :=
              om_insert i \<lparr>be_method = method, be_state = RsPending\<rparr> (bk_entries b)\<rparr>))"

definition next_numeric_candidate :: "pending_book \<Rightarrow> book_error + request_id" where
  "next_numeric_candidate b =
     (if bk_closed b then Inl ConnectionClosed
      else case checked_add (bk_next_numeric_id b) 1 of
             None \<Rightarrow> Inl IdExhausted
           | Some n \<Rightarrow> Inr (Number n))"

definition allocate_numeric ::
  "pending_book \<Rightarrow> provider_method \<Rightarrow> (book_error + request_id) \<times> pending_book" where
  "allocate_numeric b method =
     (if bk_closed b then (Inl ConnectionClosed, b)
      else case checked_add (bk_next_numeric_id b) 1 of
             None \<Rightarrow> (Inl IdExhausted, b)
           | Some n \<Rightarrow>
               (case book_register b (Number n) method of
                  (Inl e, b) \<Rightarrow> (Inl e, b)
                | (Inr _, b) \<Rightarrow> (Inr (Number n), b\<lparr>bk_next_numeric_id := n\<rparr>)))"

text \<open>The eviction loop: the oldest settled ids are dropped until the history fits.\<close>

function evict_settled :: "pending_book \<Rightarrow> pending_book" where
  "evict_settled b =
     (if length (bk_settled_order b) > SETTLED_ID_HISTORY_LIMIT then
        (case bk_settled_order b of
           [] \<Rightarrow> b
         | oldest # rest \<Rightarrow>
             evict_settled (b\<lparr>bk_settled_order := rest,
                              bk_settled_ids := om_remove oldest (bk_settled_ids b)\<rparr>))
      else b)"
  by auto
termination
  by (relation "measure (\<lambda>b. length (bk_settled_order b))") simp_all

definition remember_settled :: "pending_book \<Rightarrow> request_id \<Rightarrow> settled_kind \<Rightarrow> pending_book" where
  "remember_settled b i kind =
     evict_settled (b\<lparr>bk_settled_ids := om_insert i kind (bk_settled_ids b),
                      bk_settled_order := bk_settled_order b @ [i]\<rparr>)"

definition observe_response ::
  "pending_book \<Rightarrow> request_id \<Rightarrow> (book_error + response_match) \<times> pending_book" where
  "observe_response b i =
     (case om_get (bk_entries b) i of
        None \<Rightarrow>
          (Inl (if om_get (bk_settled_ids b) i = Some SkReplied then DuplicateResponse
                else UnknownId), b)
      | Some entry \<Rightarrow>
          (let b' = b\<lparr>bk_entries := om_remove i (bk_entries b)\<rparr> in
           case be_state entry of
             RsPending \<Rightarrow> (Inr (MatchPending (be_method entry)), remember_settled b' i SkReplied)
           | RsUnknown \<Rightarrow> (Inr (MatchLate (be_method entry)), remember_settled b' i SkReplied)
           | RsReplied \<Rightarrow> (Inl DuplicateResponse, b')))"

definition book_cancel ::
  "pending_book \<Rightarrow> request_id \<Rightarrow> (book_error + provider_method) \<times> pending_book" where
  "book_cancel b i =
     (case om_get (bk_entries b) i of
        None \<Rightarrow> (Inl UnknownId, b)
      | Some entry \<Rightarrow>
          (let b' = b\<lparr>bk_entries := om_remove i (bk_entries b)\<rparr> in
           if be_state entry \<noteq> RsPending
           then (Inl DuplicateResponse, b'\<lparr>bk_entries := om_insert i entry (bk_entries b')\<rparr>)
           else (Inr (be_method entry), remember_settled b' i SkCancelled)))"

definition book_reject_unsent :: "pending_book \<Rightarrow> request_id \<Rightarrow> (book_error + unit) \<times> pending_book"
where
  "book_reject_unsent b i =
     (case om_get (bk_entries b) i of
        None \<Rightarrow> (Inl UnknownId, b)
      | Some _ \<Rightarrow> (Inr (), b\<lparr>bk_entries := om_remove i (bk_entries b)\<rparr>))"

definition unknown_entry :: "book_entry \<Rightarrow> book_entry" where
  "unknown_entry entry = (if be_state entry = RsPending then entry\<lparr>be_state := RsUnknown\<rparr> else entry)"

definition mark_connection_lost :: "pending_book \<Rightarrow> pending_book" where
  "mark_connection_lost b =
     b\<lparr>bk_closed := True, bk_entries := map (\<lambda>(i, entry). (i, unknown_entry entry)) (bk_entries b)\<rparr>"

definition book_mark_unknown :: "pending_book \<Rightarrow> request_id \<Rightarrow> (book_error + unit) \<times> pending_book" where
  "book_mark_unknown b i =
     (case om_get (bk_entries b) i of
        None \<Rightarrow> (Inl UnknownId, b)
      | Some entry \<Rightarrow>
          (Inr (), b\<lparr>bk_entries := om_insert i (unknown_entry entry) (bk_entries b)\<rparr>))"

definition book_state :: "pending_book \<Rightarrow> request_id \<Rightarrow> request_state option" where
  "book_state b i =
     (case om_get (bk_entries b) i of
        Some entry \<Rightarrow> Some (be_state entry)
      | None \<Rightarrow> if om_get (bk_settled_ids b) i = Some SkReplied then Some RsReplied else None)"

definition pending_count :: "pending_book \<Rightarrow> nat" where
  "pending_count b = length (filter (\<lambda>(i, entry). be_state entry = RsPending) (bk_entries b))"

definition unknown_count :: "pending_book \<Rightarrow> nat" where
  "unknown_count b = length (filter (\<lambda>(i, entry). be_state entry = RsUnknown) (bk_entries b))"

section \<open>The invariant\<close>

definition book_wf :: "pending_book \<Rightarrow> bool" where
  "book_wf b =
     (om_wf (bk_entries b) \<and> om_wf (bk_settled_ids b)
      \<and> distinct (bk_settled_order b)
      \<and> set (bk_settled_order b) = set (om_keys (bk_settled_ids b))
      \<and> length (bk_settled_order b) \<le> SETTLED_ID_HISTORY_LIMIT
      \<and> set (om_keys (bk_entries b)) \<inter> set (om_keys (bk_settled_ids b)) = {}
      \<and> (\<forall>e \<in> set (bk_entries b). be_state (snd e) \<noteq> RsReplied)
      \<and> (bk_closed b \<longrightarrow> (\<forall>e \<in> set (bk_entries b). be_state (snd e) = RsUnknown)))"

declare evict_settled.simps [simp del]

text \<open>The last entries of a history that still fit.\<close>

definition window :: "'a list \<Rightarrow> 'a list" where
  "window h = drop (length h - SETTLED_ID_HISTORY_LIMIT) h"

lemma window_short [simp]: "length h \<le> SETTLED_ID_HISTORY_LIMIT \<Longrightarrow> window h = h"
  by (simp add: window_def)

lemma window_subset: "set (window h) \<subseteq> set h"
  by (simp add: window_def set_drop_subset)

lemma window_append: "window (window h @ g) = window (h @ g)"
  by (simp add: window_def) (metis add.commute diff_diff_left drop_append drop_drop le_add_diff_inverse
      length_drop nat_le_linear diff_is_0_eq drop0 append_Nil)

lemma evict_settled_eq:
  "evict_settled b =
     b\<lparr>bk_settled_order := window (bk_settled_order b),
       bk_settled_ids := fold om_remove
         (take (length (bk_settled_order b) - SETTLED_ID_HISTORY_LIMIT) (bk_settled_order b))
         (bk_settled_ids b)\<rparr>"
proof (induction b rule: evict_settled.induct)
  case (1 b)
  show ?case
  proof (cases "length (bk_settled_order b) > SETTLED_ID_HISTORY_LIMIT")
    case True
    then obtain i rest where o: "bk_settled_order b = i # rest" by (cases "bk_settled_order b") auto
    with True have "Suc (length rest) - SETTLED_ID_HISTORY_LIMIT
        = Suc (length rest - SETTLED_ID_HISTORY_LIMIT)"
      by simp
    with 1 [OF True o] True o show ?thesis
      by (subst evict_settled.simps) (simp add: window_def)
  next
    case False
    then show ?thesis by (subst evict_settled.simps) simp
  qed
qed

lemma fold_om_remove_get: "om_get (fold om_remove ks m) i = (if i \<in> set ks then None else om_get m i)"
  by (induction ks arbitrary: m) auto

lemma fold_om_remove_wf: "om_wf m \<Longrightarrow> om_wf (fold om_remove ks m)"
  by (induction ks arbitrary: m) auto

lemma fold_om_remove_keys:
  "set (om_keys (fold om_remove ks m)) = set (om_keys m) - set ks"
  by (induction ks arbitrary: m) (auto simp del: set_map)

text \<open>
  Remembering a fresh id appends it to the history window and keeps the kinds of the ids that
  stay in the window.
\<close>

lemma remember_settled_order:
  "bk_settled_order (remember_settled b i kind) = window (bk_settled_order b @ [i])"
  by (simp add: remember_settled_def evict_settled_eq)

lemma remember_settled_rest [simp]:
  "bk_entries (remember_settled b i kind) = bk_entries b"
  "bk_closed (remember_settled b i kind) = bk_closed b"
  "bk_next_numeric_id (remember_settled b i kind) = bk_next_numeric_id b"
  by (simp_all add: remember_settled_def evict_settled_eq)

lemma distinct_take_drop:
  assumes "distinct xs"
  shows "set (drop n xs) = set xs - set (take n xs)"
proof -
  have "set xs = set (take n xs) \<union> set (drop n xs)"
    by (metis append_take_drop_id set_append)
  moreover have "set (take n xs) \<inter> set (drop n xs) = {}"
    using assms by (simp add: set_take_disj_set_drop_if_distinct)
  ultimately show ?thesis by blast
qed

lemma remember_settled_get:
  assumes "distinct (bk_settled_order b @ [i])"
    and "set (bk_settled_order b) = set (om_keys (bk_settled_ids b))"
  shows "om_get (bk_settled_ids (remember_settled b i kind)) j =
    (if j \<in> set (window (bk_settled_order b @ [i]))
     then if j = i then Some kind else om_get (bk_settled_ids b) j else None)"
proof -
  let ?o = "bk_settled_order b @ [i]"
  let ?n = "length ?o - SETTLED_ID_HISTORY_LIMIT"
  have "om_get (bk_settled_ids (remember_settled b i kind)) j
      = (if j \<in> set (take ?n ?o) then None
         else if j = i then Some kind else om_get (bk_settled_ids b) j)"
    by (simp add: remember_settled_def evict_settled_eq fold_om_remove_get)
  moreover have "set (window ?o) = set ?o - set (take ?n ?o)"
    unfolding window_def by (rule distinct_take_drop [OF assms(1)])
  moreover have "om_get (bk_settled_ids b) j = None" if "j \<notin> set (bk_settled_order b)"
    using that assms(2) by (simp add: map_of_eq_None_iff)
  ultimately show ?thesis by auto
qed

lemma remember_settled_wf:
  assumes "book_wf b" "i \<notin> set (om_keys (bk_entries b))" "i \<notin> set (om_keys (bk_settled_ids b))"
  shows "book_wf (remember_settled b i kind)"
proof -
  let ?b = "remember_settled b i kind"
  have d: "distinct (bk_settled_order b @ [i])"
    using assms by (auto simp: book_wf_def)
  have order: "set (bk_settled_order b) = set (om_keys (bk_settled_ids b))"
    using assms(1) by (simp add: book_wf_def)
  have keys: "set (om_keys (bk_settled_ids ?b)) = set (window (bk_settled_order b @ [i]))"
  proof (rule set_eqI)
    fix j
    have "j = i \<or> om_get (bk_settled_ids b) j \<noteq> None" if "j \<in> set (window (bk_settled_order b @ [i]))"
      using that window_subset [of "bk_settled_order b @ [i]"] order om_key_iff [of j "bk_settled_ids b"]
      by auto
    then show "j \<in> set (om_keys (bk_settled_ids ?b)) \<longleftrightarrow> j \<in> set (window (bk_settled_order b @ [i]))"
      using om_key_iff [of j "bk_settled_ids ?b"] remember_settled_get [OF d order, of kind j]
      by (auto split: if_splits)
  qed
  have sub: "set (window (bk_settled_order b @ [i])) \<subseteq> insert i (set (om_keys (bk_settled_ids b)))"
    using assms(1) window_subset [of "bk_settled_order b @ [i]"] by (simp add: book_wf_def)
  have "length (window (bk_settled_order b @ [i])) \<le> SETTLED_ID_HISTORY_LIMIT"
    by (simp add: window_def)
  moreover have "distinct (window (bk_settled_order b @ [i]))"
    unfolding window_def by (rule distinct_drop [OF d])
  moreover have "om_wf (bk_settled_ids ?b)"
    using assms(1) by (simp add: remember_settled_def evict_settled_eq fold_om_remove_wf book_wf_def)
  ultimately show ?thesis
    using assms keys sub unfolding book_wf_def remember_settled_order remember_settled_rest
    by (auto simp del: set_map)
qed

section \<open>Every operation keeps the invariant\<close>

lemma book_wf_entries:
  assumes "book_wf b" "om_wf entries" "set (om_keys entries) \<subseteq> set (om_keys (bk_entries b))"
    and "\<forall>e \<in> set entries. be_state (snd e) \<noteq> RsReplied"
    and "bk_closed b \<longrightarrow> (\<forall>e \<in> set entries. be_state (snd e) = RsUnknown)"
  shows "book_wf (b\<lparr>bk_entries := entries\<rparr>)"
  using assms by (auto simp: book_wf_def simp del: set_map)

lemma book_wf_remove: "book_wf b \<Longrightarrow> book_wf (b\<lparr>bk_entries := om_remove i (bk_entries b)\<rparr>)"
  by (rule book_wf_entries) (auto simp: book_wf_def om_remove_member)

lemma book_wf_next [simp]: "book_wf (b\<lparr>bk_next_numeric_id := n\<rparr>) = book_wf b"
  by (simp add: book_wf_def)

lemma book_register_wf:
  assumes "book_wf b" "book_register b i method = (r, b')"
  shows "book_wf b'"
  using assms
  by (auto simp: book_register_def book_wf_def om_has_keys simp del: set_map
      split: if_splits dest!: om_insert_member) fastforce

lemma allocate_numeric_wf:
  assumes "book_wf b" "allocate_numeric b method = (r, b')"
  shows "book_wf b'"
  using assms
  by (auto simp: allocate_numeric_def split: if_splits option.splits prod.splits sum.splits
      dest: book_register_wf)

lemma not_in_settled:
  "book_wf b \<Longrightarrow> om_get (bk_entries b) i = Some entry \<Longrightarrow> i \<notin> set (om_keys (bk_settled_ids b))"
  using om_key_iff [of i "bk_entries b"] by (auto simp: book_wf_def)

lemma settle_entry_wf:
  assumes "book_wf b" "om_get (bk_entries b) i = Some entry"
  shows "book_wf (remember_settled (b\<lparr>bk_entries := om_remove i (bk_entries b)\<rparr>) i kind)"
  using book_wf_remove [OF assms(1), of i] not_in_settled [OF assms]
  by (intro remember_settled_wf) (auto simp: om_remove_member)

lemma observe_response_wf:
  assumes "book_wf b" "observe_response b i = (r, b')"
  shows "book_wf b'"
  using assms settle_entry_wf [OF assms(1)] book_wf_remove [OF assms(1)]
  by (auto simp: observe_response_def Let_def split: option.splits request_state.splits)

lemma entry_state:
  "book_wf b \<Longrightarrow> om_get (bk_entries b) i = Some entry \<Longrightarrow>
     be_state entry \<noteq> RsReplied \<and> (bk_closed b \<longrightarrow> be_state entry = RsUnknown)"
  by (auto simp: book_wf_def dest!: map_of_SomeD)

lemma om_insert_remove_same: "om_wf m \<Longrightarrow> om_get m i = Some e \<Longrightarrow> om_insert i e (om_remove i m) = m"
  by (rule om_ext) auto

lemma book_cancel_refused:
  assumes "book_wf b" "om_get (bk_entries b) i = Some entry" "be_state entry \<noteq> RsPending"
  shows "book_cancel b i = (Inl DuplicateResponse, b)"
  using assms om_insert_remove_same [of "bk_entries b" i entry]
  by (simp add: book_cancel_def Let_def book_wf_def)

lemma book_cancel_wf:
  assumes "book_wf b" "book_cancel b i = (r, b')"
  shows "book_wf b'"
proof (cases "om_get (bk_entries b) i")
  case None
  with assms show ?thesis by (simp add: book_cancel_def)
next
  case (Some entry)
  with assms settle_entry_wf [OF assms(1) Some] book_cancel_refused [OF assms(1) Some] show ?thesis
    by (cases "be_state entry = RsPending") (auto simp: book_cancel_def Let_def)
qed

lemma book_reject_unsent_wf:
  "book_wf b \<Longrightarrow> book_reject_unsent b i = (r, b') \<Longrightarrow> book_wf b'"
  using book_wf_remove by (auto simp: book_reject_unsent_def split: option.splits)

lemma unknown_entry_state [simp]:
  "be_state (unknown_entry e) = (if be_state e = RsPending then RsUnknown else be_state e)"
  "be_method (unknown_entry e) = be_method e"
  by (simp_all add: unknown_entry_def)

lemma unknown_keys: "om_keys (map (\<lambda>(i, e). (i, unknown_entry e)) m) = om_keys m"
  by (induction m) auto

lemma mark_connection_lost_wf:
  assumes "book_wf b"
  shows "book_wf (mark_connection_lost b)"
proof -
  let ?m = "map (\<lambda>(i, e). (i, unknown_entry e)) (bk_entries b)"
  have "be_state e \<noteq> RsReplied" if "(i, e) \<in> set (bk_entries b)" for i e
    using assms that by (auto simp: book_wf_def)
  then have st: "\<forall>e \<in> set ?m. be_state (snd e) = RsUnknown"
    by (auto intro: request_state.exhaust)
  then have st': "\<forall>e \<in> set ?m. be_state (snd e) \<noteq> RsReplied" by fastforce
  show ?thesis
    using assms st st' unfolding book_wf_def om_wf_def mark_connection_lost_def
    by (simp del: map_map set_map add: unknown_keys)
qed

lemma book_wf_set_entry:
  assumes "book_wf b" "om_get (bk_entries b) i = Some e"
    and "be_state e' \<noteq> RsReplied" "bk_closed b \<longrightarrow> be_state e' = RsUnknown"
  shows "book_wf (b\<lparr>bk_entries := om_insert i e' (bk_entries b)\<rparr>)"
proof (rule book_wf_entries [OF assms(1)])
  show "om_wf (om_insert i e' (bk_entries b))" using assms(1) by (simp add: book_wf_def)
  have "i \<in> set (om_keys (bk_entries b))" using assms(2) by (simp add: om_key_iff)
  then show "set (om_keys (om_insert i e' (bk_entries b))) \<subseteq> set (om_keys (bk_entries b))"
    unfolding om_keys_insert by blast
  show "\<forall>e \<in> set (om_insert i e' (bk_entries b)). be_state (snd e) \<noteq> RsReplied"
    using assms(1,3) by (auto simp: book_wf_def dest!: om_insert_member)
  show "bk_closed b \<longrightarrow> (\<forall>e \<in> set (om_insert i e' (bk_entries b)). be_state (snd e) = RsUnknown)"
    using assms(1,4) by (auto simp: book_wf_def dest!: om_insert_member)
qed

lemma book_mark_unknown_wf:
  assumes "book_wf b" "book_mark_unknown b i = (r, b')"
  shows "book_wf b'"
proof (cases "om_get (bk_entries b) i")
  case None
  with assms show ?thesis by (simp add: book_mark_unknown_def)
next
  case (Some entry)
  with assms entry_state [OF assms(1) Some] book_wf_set_entry [OF assms(1) Some, of "unknown_entry entry"]
  show ?thesis by (auto simp: book_mark_unknown_def)
qed

section \<open>Runs of the book\<close>

datatype book_call =
    CallRegister request_id provider_method
  | CallAllocate provider_method
  | CallObserve request_id
  | CallCancel request_id
  | CallRejectUnsent request_id
  | CallMarkUnknown request_id
  | CallConnectionLost

text \<open>The book after a call, and the ids the call settles.\<close>

fun book_call_next :: "pending_book \<Rightarrow> book_call \<Rightarrow> pending_book" where
  "book_call_next b (CallRegister i m) = snd (book_register b i m)"
| "book_call_next b (CallAllocate m) = snd (allocate_numeric b m)"
| "book_call_next b (CallObserve i) = snd (observe_response b i)"
| "book_call_next b (CallCancel i) = snd (book_cancel b i)"
| "book_call_next b (CallRejectUnsent i) = snd (book_reject_unsent b i)"
| "book_call_next b (CallMarkUnknown i) = snd (book_mark_unknown b i)"
| "book_call_next b CallConnectionLost = mark_connection_lost b"

fun book_call_settles :: "pending_book \<Rightarrow> book_call \<Rightarrow> request_id list" where
  "book_call_settles b (CallObserve i) = (if is_ok (fst (observe_response b i)) then [i] else [])"
| "book_call_settles b (CallCancel i) = (if is_ok (fst (book_cancel b i)) then [i] else [])"
| "book_call_settles b _ = []"

abbreviation book_run :: "pending_book \<Rightarrow> book_call list \<Rightarrow> pending_book" where
  "book_run \<equiv> foldl book_call_next"

fun book_history :: "pending_book \<Rightarrow> book_call list \<Rightarrow> request_id list" where
  "book_history b [] = []"
| "book_history b (c # cs) = book_call_settles b c @ book_history (book_call_next b c) cs"

lemma book_call_wf: "book_wf b \<Longrightarrow> book_wf (book_call_next b c)"
  by (cases c)
     (auto intro: book_register_wf allocate_numeric_wf observe_response_wf book_cancel_wf
        book_reject_unsent_wf book_mark_unknown_wf mark_connection_lost_wf prod.collapse [symmetric])

interpretation book: guarded_machine book_call_next book_wf
  by unfold_locales (rule book_call_wf)

lemmas book_run_wf = book.run_inv

lemma new_book_wf: "book_wf new_book"
  by (simp add: book_wf_def new_book_def)

text \<open>What a call does to the settled history.\<close>

definition settles_only :: "pending_book \<Rightarrow> request_id list \<Rightarrow> pending_book \<Rightarrow> bool" where
  "settles_only b ids b' =
     (bk_settled_order b' = window (bk_settled_order b @ ids)
      \<and> (\<forall>i \<in> set (bk_settled_order b') - set ids.
           om_get (bk_settled_ids b') i = om_get (bk_settled_ids b) i))"

lemma settles_only_refl:
  "book_wf b \<Longrightarrow> bk_settled_order b' = bk_settled_order b \<Longrightarrow> bk_settled_ids b' = bk_settled_ids b
     \<Longrightarrow> settles_only b [] b'"
  by (simp add: settles_only_def book_wf_def)

lemma settles_only_remember:
  assumes "book_wf b" "om_get (bk_entries b) i = Some entry"
  shows "settles_only b [i] (remember_settled (b\<lparr>bk_entries := entries\<rparr>) i kind)"
proof -
  have "distinct (bk_settled_order b @ [i])" "set (bk_settled_order b) = set (om_keys (bk_settled_ids b))"
    using assms(1) not_in_settled [OF assms] by (auto simp: book_wf_def)
  with remember_settled_get [of "b\<lparr>bk_entries := entries\<rparr>" i kind] show ?thesis
    by (simp add: settles_only_def remember_settled_order)
qed

lemma book_call_settles_only:
  assumes "book_wf b"
  shows "settles_only b (book_call_settles b c) (book_call_next b c)"
proof (cases c)
  case (CallRegister i m)
  then show ?thesis using settles_only_refl [OF assms] by (simp add: book_register_def)
next
  case (CallAllocate m)
  then show ?thesis using settles_only_refl [OF assms]
    by (simp add: allocate_numeric_def book_register_def split: option.split)
next
  case (CallObserve i)
  then show ?thesis
    using settles_only_refl [OF assms] settles_only_remember [OF assms, of i]
    by (cases "om_get (bk_entries b) i")
       (simp_all add: observe_response_def Let_def split: request_state.split)
next
  case (CallCancel i)
  then show ?thesis
    using settles_only_refl [OF assms] settles_only_remember [OF assms, of i]
    by (cases "om_get (bk_entries b) i") (simp_all add: book_cancel_def Let_def)
next
  case (CallRejectUnsent i)
  then show ?thesis using settles_only_refl [OF assms]
    by (simp add: book_reject_unsent_def split: option.split)
next
  case (CallMarkUnknown i)
  then show ?thesis using settles_only_refl [OF assms]
    by (simp add: book_mark_unknown_def split: option.split)
next
  case CallConnectionLost
  then show ?thesis using settles_only_refl [OF assms] by (simp add: mark_connection_lost_def)
qed

lemma book_run_history:
  "book_wf b \<Longrightarrow> bk_settled_order (book_run b cs) = window (bk_settled_order b @ book_history b cs)"
proof (induction cs arbitrary: b)
  case Nil
  then show ?case by (simp add: book_wf_def)
next
  case (Cons c cs)
  then show ?case
    using book_call_wf [OF Cons.prems, of c] book_call_settles_only [OF Cons.prems, of c]
    by (simp add: settles_only_def window_append)
qed

lemma window_keeps:
  "length ys < SETTLED_ID_HISTORY_LIMIT \<Longrightarrow> \<exists>xs'. window (xs @ i # ys) = xs' @ i # ys"
  by (simp add: window_def Suc_diff_le)

lemma settled_from_entries:
  "j \<in> set (book_call_settles b c) \<Longrightarrow> om_get (bk_entries b) j \<noteq> None"
  by (cases c) (auto simp: observe_response_def book_cancel_def split: option.splits if_splits)

lemma settled_kind_stays:
  assumes "book_wf b" "bk_settled_order b = xs @ i # ys" "om_get (bk_settled_ids b) i = Some kind"
    and "length ys + length (book_history b cs) < SETTLED_ID_HISTORY_LIMIT"
  shows "om_get (bk_settled_ids (book_run b cs)) i = Some kind"
  using assms
proof (induction cs arbitrary: b xs ys)
  case (Cons c cs)
  let ?b = "book_call_next b c"
  let ?s = "book_call_settles b c"
  note so = book_call_settles_only [OF Cons.prems(1), of c]
  have "length (ys @ ?s) < SETTLED_ID_HISTORY_LIMIT" using Cons.prems(4) by simp
  with window_keeps [OF this, of xs i] so Cons.prems(2) obtain xs' where
    o: "bk_settled_order ?b = xs' @ i # (ys @ ?s)"
    by (auto simp: settles_only_def)
  have "om_get (bk_entries b) i = None"
    using Cons.prems(1,3) om_key_iff [of i "bk_entries b"] om_key_iff [of i "bk_settled_ids b"]
    by (auto simp: book_wf_def)
  then have "i \<notin> set ?s" using settled_from_entries by blast
  with so o Cons.prems(3) have "om_get (bk_settled_ids ?b) i = Some kind"
    by (simp add: settles_only_def)
  with Cons.IH [OF book_call_wf [OF Cons.prems(1)] o this] Cons.prems(4) show ?case by simp
qed simp

section \<open>Properties of the book\<close>

text \<open>C17: In every reachable book the open requests and the remembered settled ids are disjoint,
  the history lists the remembered ids once each, oldest first, and never exceeds its limit,
  no open entry is marked replied, and after a connection loss every open entry is unknown.\<close>

theorem book_invariant: "book_wf (book_run new_book calls)"
  by (rule book_run_wf [OF new_book_wf])

text \<open>Once a response settled a request, a second response to the same id is reported as a
  duplicate as long as fewer than 256 other requests were settled in between, whatever else is
  registered, cancelled, expired or lost meanwhile.\<close>

lemma duplicate_response_detected:
  assumes "observe_response (book_run new_book calls) i = (Inr matched, b)"
    and "length (book_history b calls') < SETTLED_ID_HISTORY_LIMIT"
  shows "fst (observe_response (book_run b calls') i) = Inl DuplicateResponse"
proof -
  let ?a = "book_run new_book calls"
  have wf: "book_wf ?a" by (rule book_run_wf [OF new_book_wf])
  note wfb = observe_response_wf [OF wf assms(1)]
  from assms(1) obtain entry where e: "om_get (bk_entries ?a) i = Some entry"
    "b = remember_settled (?a\<lparr>bk_entries := om_remove i (bk_entries ?a)\<rparr>) i SkReplied"
    by (auto simp: observe_response_def Let_def split: option.splits request_state.splits)
  have d: "distinct (bk_settled_order ?a @ [i])"
    "set (bk_settled_order ?a) = set (om_keys (bk_settled_ids ?a))"
    using wf not_in_settled [OF wf e(1)] by (auto simp: book_wf_def)
  obtain xs where o: "bk_settled_order b = xs @ i # []"
    using window_keeps [of "[]" "bk_settled_order ?a" i] e(2)
    by (auto simp: remember_settled_order SETTLED_ID_HISTORY_LIMIT_def)
  have "om_get (bk_settled_ids b) i = Some SkReplied"
    using remember_settled_get [of "?a\<lparr>bk_entries := om_remove i (bk_entries ?a)\<rparr>" i SkReplied i]
      d o e(2) by (simp add: remember_settled_order)
  from settled_kind_stays [OF wfb o this] assms(2)
  have k: "om_get (bk_settled_ids (book_run b calls')) i = Some SkReplied" by simp
  have "om_get (bk_entries (book_run b calls')) i = None"
    using book_run_wf [OF wfb, of calls'] k om_key_iff [of i "bk_entries (book_run b calls')"]
      om_key_iff [of i "bk_settled_ids (book_run b calls')"]
    by (auto simp: book_wf_def)
  with k show ?thesis by (simp add: observe_response_def)
qed

text \<open>A lost connection turns every pending request of a book into an unknown one, loses none
  of them, refuses every further request and still matches a late response.\<close>

lemma connection_loss_keeps_requests:
  assumes "book_wf b"
  shows "pending_count (mark_connection_lost b) = 0
    \<and> unknown_count (mark_connection_lost b) = pending_count b + unknown_count b
    \<and> fst (book_register (mark_connection_lost b) i method) = Inl ConnectionClosed
    \<and> (\<forall>entry. om_get (bk_entries b) j = Some entry \<longrightarrow>
         fst (observe_response (mark_connection_lost b) j) = Inr (MatchLate (be_method entry)))"
proof -
  have count: "length (filter (\<lambda>(i, e). be_state e = RsPending) (map (\<lambda>(i, e). (i, unknown_entry e)) m)) = 0"
    "(\<And>e. e \<in> set m \<Longrightarrow> be_state (snd e) \<noteq> RsReplied) \<Longrightarrow>
      length (filter (\<lambda>(i, e). be_state e = RsUnknown) (map (\<lambda>(i, e). (i, unknown_entry e)) m))
      = length (filter (\<lambda>(i, e). be_state e = RsPending) m)
        + length (filter (\<lambda>(i, e). be_state e = RsUnknown) m)"
    for m :: "(request_id, book_entry) omap"
    by (induction m) (auto simp: split_beta)
  have get: "om_get (map (\<lambda>(i, e). (i, unknown_entry e)) m) j = map_option unknown_entry (om_get m j)"
    for m :: "(request_id, book_entry) omap"
    by (induction m) auto
  have "fst (observe_response (mark_connection_lost b) j) = Inr (MatchLate (be_method entry))"
    if "om_get (bk_entries b) j = Some entry" for entry
    using that entry_state [OF assms that]
    by (cases "be_state entry")
       (simp_all add: observe_response_def mark_connection_lost_def get Let_def)
  with assms count [of "bk_entries b"] show ?thesis
    by (auto simp: pending_count_def unknown_count_def mark_connection_lost_def book_register_def
        book_wf_def)
qed

end
