(* ===== verification/Provider_Kind.thy ===== *)
theory Provider_Kind
  imports Json_Value
begin

text \<open>
  Provider identity, capabilities and wire profiles (\<open>runtime-schema/src/provider_kind.rs\<close>), the
  thread serialization policy (\<open>runtime-schema/src/provider_method_policy.rs\<close>) and the parameters
  of the initialize request (\<open>runtime-providers/src/initialize.rs\<close>).
\<close>

section \<open>Identity\<close>

datatype provider_kind = Codex | Claude

definition ALL_PROVIDERS :: "provider_kind list" where
  "ALL_PROVIDERS = [Codex, Claude]"

text \<open>\<open>UnknownProvider\<close> with the value that was found, \<open>None\<close> for a missing field.\<close>

datatype unknown_provider = UnknownProvider "string option"

fun provider_key :: "provider_kind \<Rightarrow> string" where
  "provider_key Codex = ''codex''"
| "provider_key Claude = ''claude''"

fun provider_label :: "provider_kind \<Rightarrow> string" where
  "provider_label Codex = ''Codex''"
| "provider_label Claude = ''Claude''"

definition provider_from_str :: "string \<Rightarrow> unknown_provider + provider_kind" where
  "provider_from_str s =
     (if s = ''codex'' then Inr Codex else if s = ''claude'' then Inr Claude
      else Inl (UnknownProvider (Some s)))"

text \<open>\<open>to_string\<close> prints a JSON value for the error.\<close>

definition of_field :: "(json \<Rightarrow> string) \<Rightarrow> json option \<Rightarrow> unknown_provider + provider_kind" where
  "of_field to_string field =
     (case field of
        Some (JString s) \<Rightarrow> provider_from_str s
      | None \<Rightarrow> Inl (UnknownProvider None)
      | Some other \<Rightarrow> Inl (UnknownProvider (Some (to_string other))))"

definition of_record :: "(json \<Rightarrow> string) \<Rightarrow> json \<Rightarrow> unknown_provider + provider_kind" where
  "of_record to_string rec =
     (case as_object rec of
        None \<Rightarrow> Inl (UnknownProvider (Some (to_string rec)))
      | Some m \<Rightarrow> of_field to_string (om_get m ''provider''))"

definition key_of :: "(json \<Rightarrow> string) \<Rightarrow> json \<Rightarrow> string option" where
  "key_of to_string rec = (case of_record to_string rec of Inl _ \<Rightarrow> None | Inr k \<Rightarrow> Some (provider_key k))"

section \<open>Capabilities\<close>

datatype provider_capability =
  Steer | Rewind | Fork | ModelChange | Effort | Compaction | Approvals

definition ALL_CAPABILITIES :: "provider_capability list" where
  "ALL_CAPABILITIES = [Steer, Rewind, Fork, ModelChange, Effort, Compaction, Approvals]"

fun capability_key :: "provider_capability \<Rightarrow> string" where
  "capability_key Steer = ''steer''"
| "capability_key Rewind = ''rewind''"
| "capability_key Fork = ''fork''"
| "capability_key ModelChange = ''model_change''"
| "capability_key Effort = ''effort''"
| "capability_key Compaction = ''compaction''"
| "capability_key Approvals = ''approvals''"

fun capabilities :: "provider_kind \<Rightarrow> provider_capability list" where
  "capabilities Codex = [Steer, Rewind, Fork, ModelChange, Effort, Compaction, Approvals]"
| "capabilities Claude = [Steer, Rewind, Fork, ModelChange, Effort, Compaction, Approvals]"

definition supports :: "provider_kind \<Rightarrow> provider_capability \<Rightarrow> bool" where
  "supports kind capability \<longleftrightarrow> capability \<in> set (capabilities kind)"

section \<open>Initialize parameters\<close>

datatype client_name = AccountSession | Catalog | CatalogReads | UpdateProbe

fun client_name_str :: "client_name \<Rightarrow> string" where
  "client_name_str AccountSession = ''codex_agents_canvas''"
| "client_name_str Catalog = ''codex_studio_catalog''"
| "client_name_str CatalogReads = ''codex_studio_catalog_reads''"
| "client_name_str UpdateProbe = ''codex_studio_update''"

definition CLIENT_VERSION :: string where
  "CLIENT_VERSION = ''1.0.0''"

definition initialize_params :: "client_name \<Rightarrow> json" where
  "initialize_params client =
     JObject [(''capabilities'', JObject [(''experimentalApi'', JBool True)]),
              (''clientInfo'', JObject [(''name'', JString (client_name_str client)),
                                       (''version'', JString CLIENT_VERSION)])]"

section \<open>Wire profiles and the serialization policy\<close>

datatype request_id_scheme = Numeric | PrefixedHex string

record wire_profile =
  wp_ids :: request_id_scheme
  wp_per_thread_serialized :: bool
  wp_cancellable :: bool

fun wire :: "provider_kind \<Rightarrow> wire_profile" where
  "wire Codex = \<lparr>wp_ids = Numeric, wp_per_thread_serialized = False, wp_cancellable = False\<rparr>"
| "wire Claude = \<lparr>wp_ids = PrefixedHex ''claude'', wp_per_thread_serialized = True,
     wp_cancellable = True\<rparr>"

record thread_serialization_rule =
  tsr_method :: string
  tsr_true_parameter :: "string option"

definition THREAD_SERIALIZATION_RULES :: "thread_serialization_rule list" where
  "THREAD_SERIALIZATION_RULES =
     map (\<lambda>(m, p). \<lparr>tsr_method = m, tsr_true_parameter = p\<rparr>)
       [(''claude/shellPolicy'', None), (''turn/start'', None), (''turn/steer'', None),
        (''thread/resume'', None), (''thread/fork'', None), (''thread/read'', Some ''includeTurns''),
        (''thread/rollback'', None), (''claude/settings'', None), (''claude/state'', None),
        (''claude/fileBackups'', None), (''thread/compact/start'', None)]"

definition thread_serialization_rule_of :: "string \<Rightarrow> thread_serialization_rule option" where
  "thread_serialization_rule_of method =
     find (\<lambda>rule. tsr_method rule = method) THREAD_SERIALIZATION_RULES"

definition is_thread_serialized :: "string \<Rightarrow> json \<Rightarrow> bool" where
  "is_thread_serialized method params =
     (case thread_serialization_rule_of method of
        None \<Rightarrow> False
      | Some rule \<Rightarrow>
          (case tsr_true_parameter rule of
             None \<Rightarrow> True
           | Some parameter \<Rightarrow> json_get params parameter = Some (JBool True)))"

definition is_recovered_thread_serialized :: "string \<Rightarrow> json \<Rightarrow> bool" where
  "is_recovered_thread_serialized method params =
     (case thread_serialization_rule_of method of
        None \<Rightarrow> False
      | Some rule \<Rightarrow>
          (case tsr_true_parameter rule of
             None \<Rightarrow> True
           | Some parameter \<Rightarrow>
               (case as_object params of
                  None \<Rightarrow> True
                | Some m \<Rightarrow>
                    (case om_get m parameter of
                       None \<Rightarrow> False
                     | Some v \<Rightarrow> (case as_bool v of Some b \<Rightarrow> b | None \<Rightarrow> True)))))"

section \<open>Facts\<close>

lemma provider_key_round_trip [simp]: "provider_from_str (provider_key k) = Inr k"
  by (cases k) (simp_all add: provider_from_str_def)

lemma provider_from_str_iff: "provider_from_str s = Inr k \<longleftrightarrow> s = provider_key k"
  by (cases k) (auto simp: provider_from_str_def)

text \<open>A stored record gives a provider exactly when its field holds the key of that provider.\<close>

lemma of_record_iff:
  "of_record to_string rec = Inr k \<longleftrightarrow>
     (\<exists>m. as_object rec = Some m \<and> om_get m ''provider'' = Some (JString (provider_key k)))"
proof (cases "as_object rec")
  case None
  then show ?thesis by (simp add: of_record_def)
next
  case (Some m)
  then show ?thesis
    by (cases "om_get m ''provider''")
      (auto simp: of_record_def of_field_def provider_from_str_iff split: json.splits)
qed

text \<open>Recovery keeps every lane a submission takes.\<close>

lemma recovered_covers_submitted:
  "is_thread_serialized method params \<Longrightarrow> is_recovered_thread_serialized method params"
  by (cases params)
    (auto simp: is_thread_serialized_def is_recovered_thread_serialized_def split: option.splits)

text \<open>Starting a thread takes no lane.\<close>

lemma thread_start_is_not_serialized: "\<not> is_thread_serialized ''thread/start'' params"
  by (simp add: is_thread_serialized_def thread_serialization_rule_of_def THREAD_SERIALIZATION_RULES_def)

end
