(* ===== verification/Provider_Session.thy ===== *)
theory Provider_Session
  imports Pending_Book Provider_Kind Rust_Text
begin

text \<open>
  The provider connection state machine, \<open>runtime-providers/src/connection.rs\<close>: submitting,
  receiving, expiring, cancelling and losing a connection as functions on an explicit state that
  return the actions the caller has to execute.
\<close>

section \<open>Data\<close>

datatype lifecycle = LcInitializing | LcReady | LcLost | LcClosed

datatype initialization_status =
  InAwaitingReply | InInitializedWritePending | InReady | InRefused | InUnknown

record request_ticket =
  tk_generation :: u64
  tk_id :: request_id
  tk_method :: provider_method

datatype request_outcome = OcReply response_body bool | OcUnknown

datatype session_action =
    ActWrite frame
  | ActResolve request_ticket request_outcome
  | ActDispatch frame
  | ActGenerationClosed u64
  | ActThreadReleased string request_ticket

datatype session_error =
    SeBook book_error
  | SeCodec codec_error
  | SeNotReady
  | SeStaleGeneration
  | SeDeadlineUnknown
  | SeMissingRequest
  | SeMissingThreadId
  | SeInitializationNotReady

record pending_request =
  pq_ticket :: request_ticket
  pq_params :: json
  pq_deadline_ms :: u64
  pq_thread_id :: "string option"
  pq_serialized :: bool

record session_state =
  ss_generation :: u64
  ss_wire :: wire_profile
  ss_next_prefixed_id :: u64
  ss_request_id_prefix :: "string option"
  ss_next_request_sequence :: u64
  ss_lifecycle :: lifecycle
  ss_initialization_status :: initialization_status
  ss_book :: pending_book
  ss_pending :: "(request_id, pending_request) omap"
  ss_deadlines :: "(u64 \<times> request_id) oset"
  ss_active_threads :: "(string, request_id oset) omap"
  ss_queued_threads :: "(string, request_id list) omap"

type_synonym 'a session_result = "(session_error + 'a) \<times> session_state"

section \<open>Formatted ids\<close>

definition hex32 :: "u64 \<Rightarrow> string" where
  "hex32 n = hex_digits 32 (uint n)"

section \<open>Pending requests\<close>

definition insert_pending :: "session_state \<Rightarrow> pending_request \<Rightarrow> session_state" where
  "insert_pending s p =
     (let i = tk_id (pq_ticket p);
          deadlines =
            (case om_get (ss_pending s) i of
               Some replaced \<Rightarrow>
                 os_remove (pq_deadline_ms replaced, tk_id (pq_ticket replaced)) (ss_deadlines s)
             | None \<Rightarrow> ss_deadlines s)
      in s\<lparr>ss_pending := om_insert i p (ss_pending s),
           ss_deadlines :=
             (if pq_deadline_ms p \<noteq> - 1 then os_insert (pq_deadline_ms p, i) deadlines
              else deadlines)\<rparr>)"

definition remove_pending :: "session_state \<Rightarrow> request_id \<Rightarrow> pending_request option \<times> session_state"
where
  "remove_pending s i =
     (case om_get (ss_pending s) i of
        None \<Rightarrow> (None, s)
      | Some p \<Rightarrow>
          (Some p, s\<lparr>ss_pending := om_remove i (ss_pending s),
                     ss_deadlines :=
                       os_remove (pq_deadline_ms p, tk_id (pq_ticket p)) (ss_deadlines s)\<rparr>))"

definition write_request :: "session_state \<Rightarrow> request_ticket \<Rightarrow> session_action list session_result" where
  "write_request s ticket =
     (case om_get (ss_pending s) (tk_id ticket) of
        None \<Rightarrow> (Inl SeMissingRequest, s)
      | Some p \<Rightarrow>
          (Inr [ActWrite (Request \<lparr>rf_id = tk_id ticket, rf_method = tk_method ticket,
                  rf_params = Some (pq_params p), rf_fields = []\<rparr>)],
           s\<lparr>ss_pending := om_insert (tk_id ticket) (p\<lparr>pq_params := JNull\<rparr>) (ss_pending s)\<rparr>))"

definition validate_request_encoding ::
  "to_writer \<Rightarrow> request_id \<Rightarrow> provider_method \<Rightarrow> json \<Rightarrow> session_error + unit" where
  "validate_request_encoding enc i method params =
     (case encode_line enc (Request \<lparr>rf_id = i, rf_method = method, rf_params = Some params,
             rf_fields = []\<rparr>) of
        Inl e \<Rightarrow> Inl (SeCodec e)
      | Inr _ \<Rightarrow> Inr ())"

text \<open>Validate the encoding, then register the id in the book.\<close>

definition register_checked ::
  "to_writer \<Rightarrow> session_state \<Rightarrow> request_id \<Rightarrow> provider_method \<Rightarrow> json \<Rightarrow> unit session_result" where
  "register_checked enc s i method params =
     (case validate_request_encoding enc i method params of
        Inl e \<Rightarrow> (Inl e, s)
      | Inr _ \<Rightarrow>
          (case book_register (ss_book s) i method of
             (Inl e, b) \<Rightarrow> (Inl (SeBook e), s\<lparr>ss_book := b\<rparr>)
           | (Inr _, b) \<Rightarrow> (Inr (), s\<lparr>ss_book := b\<rparr>)))"

text \<open>The id of a new request: the caller's, the connection's, the peer's scheme, or a number.\<close>

definition register_id ::
  "to_writer \<Rightarrow> session_state \<Rightarrow> provider_method \<Rightarrow> json \<Rightarrow> request_id option \<Rightarrow>
   request_id session_result" where
  "register_id enc s method params requested =
     (case requested of
        Some i \<Rightarrow>
          (case register_checked enc s i method params of
             (Inl e, s) \<Rightarrow> (Inl e, s) | (Inr _, s) \<Rightarrow> (Inr i, s))
      | None \<Rightarrow>
          (case ss_request_id_prefix s of
             Some id_prefix \<Rightarrow>
               (let i = IdString (id_prefix @ '':'' @ decimal (unat (ss_next_request_sequence s))) in
                case checked_add (ss_next_request_sequence s) 1 of
                  None \<Rightarrow> (Inl (SeBook IdExhausted), s)
                | Some n \<Rightarrow>
                    (case register_checked enc (s\<lparr>ss_next_request_sequence := n\<rparr>) i method params of
                       (Inl e, s) \<Rightarrow> (Inl e, s) | (Inr _, s) \<Rightarrow> (Inr i, s)))
           | None \<Rightarrow>
               (case wp_ids (ss_wire s) of
                  PrefixedHex id_prefix \<Rightarrow>
                    (let i = IdString (id_prefix @ '':'' @ hex32 (ss_next_prefixed_id s)) in
                     case checked_add (ss_next_prefixed_id s) 1 of
                       None \<Rightarrow> (Inl (SeBook IdExhausted), s)
                     | Some n \<Rightarrow>
                         (case register_checked enc s i method params of
                            (Inl e, s) \<Rightarrow> (Inl e, s)
                          | (Inr _, s) \<Rightarrow> (Inr i, s\<lparr>ss_next_prefixed_id := n\<rparr>)))
                | Numeric \<Rightarrow>
                    (case next_numeric_candidate (ss_book s) of
                       Inl e \<Rightarrow> (Inl (SeBook e), s)
                     | Inr i \<Rightarrow>
                         (case validate_request_encoding enc i method params of
                            Inl e \<Rightarrow> (Inl e, s)
                          | Inr _ \<Rightarrow>
                              (case allocate_numeric (ss_book s) method of
                                 (Inl e, b) \<Rightarrow> (Inl (SeBook e), s\<lparr>ss_book := b\<rparr>)
                               | (Inr j, b) \<Rightarrow> (Inr j, s\<lparr>ss_book := b\<rparr>)))))))"

definition register ::
  "to_writer \<Rightarrow> session_state \<Rightarrow> provider_method \<Rightarrow> json \<Rightarrow> u64 \<Rightarrow> u64 \<Rightarrow> string option \<Rightarrow> bool \<Rightarrow>
   request_id option \<Rightarrow> request_ticket session_result" where
  "register enc s method params now_ms timeout_ms thread_id serialized requested =
     (case register_id enc s method params requested of
        (Inl e, s) \<Rightarrow> (Inl e, s)
      | (Inr i, s) \<Rightarrow>
          (let ticket = \<lparr>tk_generation = ss_generation s, tk_id = i, tk_method = method\<rparr> in
           (Inr ticket,
            insert_pending s \<lparr>pq_ticket = ticket, pq_params = params,
              pq_deadline_ms = saturating_add now_ms timeout_ms, pq_thread_id = thread_id,
              pq_serialized = serialized\<rparr>)))"

definition track_existing_request_until ::
  "session_state \<Rightarrow> request_id \<Rightarrow> provider_method \<Rightarrow> string option \<Rightarrow> u64 \<Rightarrow>
   request_ticket session_result" where
  "track_existing_request_until s i method thread_id deadline_ms =
     (if ss_lifecycle s = LcLost \<or> ss_lifecycle s = LcClosed then (Inl SeNotReady, s)
      else case book_register (ss_book s) i method of
             (Inl e, b) \<Rightarrow> (Inl (SeBook e), s\<lparr>ss_book := b\<rparr>)
           | (Inr _, b) \<Rightarrow>
               (let ticket = \<lparr>tk_generation = ss_generation s, tk_id = i, tk_method = method\<rparr> in
                (Inr ticket,
                 insert_pending (s\<lparr>ss_book := b\<rparr>) \<lparr>pq_ticket = ticket, pq_params = JNull,
                   pq_deadline_ms = deadline_ms, pq_thread_id = thread_id,
                   pq_serialized = False\<rparr>)))"

section \<open>Construction and recovery\<close>

definition new_session_state :: "u64 \<Rightarrow> wire_profile \<Rightarrow> string option \<Rightarrow> session_state" where
  "new_session_state generation w id_prefix =
     \<lparr>ss_generation = generation, ss_wire = w, ss_next_prefixed_id = 1,
      ss_request_id_prefix = id_prefix, ss_next_request_sequence = 1,
      ss_lifecycle = LcInitializing, ss_initialization_status = InAwaitingReply,
      ss_book = new_book, ss_pending = [], ss_deadlines = [], ss_active_threads = [],
      ss_queued_threads = []\<rparr>"

fun track_recovered ::
  "session_state \<Rightarrow> u64 \<Rightarrow> (request_id \<times> provider_method \<times> string option) list \<Rightarrow> unit session_result"
where
  "track_recovered s deadline_ms [] = (Inr (), s)"
| "track_recovered s deadline_ms ((i, method, thread_id) # recovered) =
     (case track_existing_request_until s i method thread_id deadline_ms of
        (Inl e, s) \<Rightarrow> (Inl e, s)
      | (Inr _, s) \<Rightarrow> track_recovered s deadline_ms recovered)"

text \<open>The state is dropped when the construction fails.\<close>

definition new_with_recovered_and_prefix ::
  "to_writer \<Rightarrow> u64 \<Rightarrow> wire_profile \<Rightarrow> u64 \<Rightarrow> u64 \<Rightarrow> json \<Rightarrow>
   (request_id \<times> provider_method \<times> string option) list \<Rightarrow> string option \<Rightarrow>
   session_error + session_state \<times> session_action list" where
  "new_with_recovered_and_prefix enc generation w now_ms timeout_ms params recovered id_prefix =
     (case validate_initialize_params enc params of
        Inl e \<Rightarrow> Inl (SeCodec e)
      | Inr _ \<Rightarrow>
          (case track_recovered (new_session_state generation w id_prefix)
                  (saturating_add now_ms timeout_ms) recovered of
             (Inl e, _) \<Rightarrow> Inl e
           | (Inr _, s) \<Rightarrow>
               (case register enc s ''initialize'' params now_ms timeout_ms None False None of
                  (Inl e, _) \<Rightarrow> Inl e
                | (Inr ticket, s) \<Rightarrow>
                    (case write_request s ticket of
                       (Inl e, _) \<Rightarrow> Inl e
                     | (Inr actions, s) \<Rightarrow> Inr (s, actions)))))"

definition new_with_recovered ::
  "to_writer \<Rightarrow> u64 \<Rightarrow> wire_profile \<Rightarrow> u64 \<Rightarrow> u64 \<Rightarrow> json \<Rightarrow>
   (request_id \<times> provider_method \<times> string option) list \<Rightarrow>
   session_error + session_state \<times> session_action list" where
  "new_with_recovered enc generation w now_ms timeout_ms params recovered =
     new_with_recovered_and_prefix enc generation w now_ms timeout_ms params recovered None"

definition new_session ::
  "to_writer \<Rightarrow> u64 \<Rightarrow> wire_profile \<Rightarrow> u64 \<Rightarrow> u64 \<Rightarrow> json \<Rightarrow>
   session_error + session_state \<times> session_action list" where
  "new_session enc generation w now_ms timeout_ms params =
     new_with_recovered enc generation w now_ms timeout_ms params []"

text \<open>Add a restored owner to its thread, \<open>entry(thread).or_default().insert(id)\<close>.\<close>

definition add_owner :: "session_state \<Rightarrow> string \<Rightarrow> request_id \<Rightarrow> session_state" where
  "add_owner s thread i =
     (let s = (case om_get (ss_pending s) i of
                 None \<Rightarrow> s
               | Some p \<Rightarrow>
                   s\<lparr>ss_pending := om_insert i (p\<lparr>pq_serialized := True\<rparr>) (ss_pending s)\<rparr>);
          owners = (case om_get (ss_active_threads s) thread of None \<Rightarrow> [] | Some prev \<Rightarrow> prev)
      in s\<lparr>ss_active_threads := om_insert thread (os_insert i owners) (ss_active_threads s)\<rparr>)"

text \<open>A request restored as unknown awaits no reply, so its deadline is forgotten.\<close>

definition restore_uncertainty ::
  "session_state \<Rightarrow> request_id \<Rightarrow> u64 \<Rightarrow> bool \<Rightarrow> unit session_result" where
  "restore_uncertainty s i deadline_ms unknown =
     (if unknown
      then case book_mark_unknown (ss_book s) i of
             (Inl e, b) \<Rightarrow> (Inl (SeBook e), s\<lparr>ss_book := b\<rparr>)
           | (Inr _, b) \<Rightarrow>
               (Inr (), s\<lparr>ss_book := b,
                          ss_deadlines := os_remove (deadline_ms, i) (ss_deadlines s)\<rparr>)
      else (Inr (), s))"

definition restore_request ::
  "session_state \<Rightarrow> request_ticket \<Rightarrow> string option \<Rightarrow> u64 \<Rightarrow> bool \<Rightarrow> bool \<Rightarrow> unit session_result" where
  "restore_request s ticket thread_id deadline_ms unknown lightweight =
     (if tk_generation ticket \<noteq> ss_generation s then (Inl SeStaleGeneration, s)
      else let serialized = (wp_per_thread_serialized (ss_wire s) \<and> \<not> lightweight \<and>
                 thread_serialization_rule_of (tk_method ticket) \<noteq> None) in
      if serialized \<and> thread_id = None then (Inl SeMissingThreadId, s)
      else case track_existing_request_until s (tk_id ticket) (tk_method ticket) thread_id
                  deadline_ms of
             (Inl e, s) \<Rightarrow> (Inl e, s)
           | (Inr _, s) \<Rightarrow>
               (let s = (case thread_id of
                           Some thread \<Rightarrow> if serialized then add_owner s thread (tk_id ticket) else s
                         | None \<Rightarrow> s)
                in restore_uncertainty s (tk_id ticket) deadline_ms unknown))"

definition request_deadline_ms :: "session_state \<Rightarrow> request_id \<Rightarrow> u64 option" where
  "request_deadline_ms s i = map_option pq_deadline_ms (om_get (ss_pending s) i)"

definition mark_initialized_notification_written :: "session_state \<Rightarrow> unit session_result" where
  "mark_initialized_notification_written s =
     (case ss_initialization_status s of
        InInitializedWritePending \<Rightarrow> (Inr (), s\<lparr>ss_initialization_status := InReady\<rparr>)
      | InReady \<Rightarrow> (Inr (), s)
      | _ \<Rightarrow> (Inl SeInitializationNotReady, s))"

definition next_deadline_ms :: "session_state \<Rightarrow> u64 option" where
  "next_deadline_ms s = (case ss_deadlines s of [] \<Rightarrow> None | (d, _) # _ \<Rightarrow> Some d)"

section \<open>Submission\<close>

definition request_serialized :: "session_state \<Rightarrow> provider_method \<Rightarrow> json \<Rightarrow> bool \<Rightarrow> bool" where
  "request_serialized s method params lightweight_read \<longleftrightarrow>
     wp_per_thread_serialized (ss_wire s) \<and> \<not> lightweight_read \<and>
     is_thread_serialized method params"

definition preflight_with_id ::
  "to_writer \<Rightarrow> session_state \<Rightarrow> request_id \<Rightarrow> provider_method \<Rightarrow> json \<Rightarrow> string option \<Rightarrow> bool \<Rightarrow>
   session_error + unit" where
  "preflight_with_id enc s i method params thread_id lightweight_read =
     (if ss_lifecycle s \<noteq> LcReady then Inl SeNotReady
      else if request_serialized s method params lightweight_read \<and> thread_id = None
      then Inl SeMissingThreadId
      else validate_request_encoding enc i method params)"

text \<open>Write the request at once, or queue it behind the owner of its thread.\<close>

definition start_request ::
  "session_state \<Rightarrow> request_ticket \<Rightarrow> bool \<Rightarrow> session_action list session_result" where
  "start_request s ticket serialized =
     (case om_get (ss_pending s) (tk_id ticket) of
        None \<Rightarrow> (Inl SeMissingRequest, s)
      | Some p \<Rightarrow>
          if serialized then
            (let thread = (case pq_thread_id p of None \<Rightarrow> [] | Some t \<Rightarrow> t) in
             case om_get (ss_active_threads s) thread of
               None \<Rightarrow>
                 write_request
                   (s\<lparr>ss_active_threads :=
                        om_insert thread [tk_id ticket] (ss_active_threads s)\<rparr>) ticket
             | Some _ \<Rightarrow>
                 (let queue = (case om_get (ss_queued_threads s) thread of
                                 None \<Rightarrow> [] | Some q \<Rightarrow> q)
                  in (Inr [], s\<lparr>ss_queued_threads :=
                        om_insert thread (queue @ [tk_id ticket]) (ss_queued_threads s)\<rparr>)))
          else write_request s ticket)"

definition submit_with_id_inner ::
  "to_writer \<Rightarrow> session_state \<Rightarrow> request_id option \<Rightarrow> provider_method \<Rightarrow> json \<Rightarrow> u64 \<Rightarrow> u64 \<Rightarrow>
   string option \<Rightarrow> bool \<Rightarrow> (request_ticket \<times> session_action list) session_result" where
  "submit_with_id_inner enc s requested method params now_ms timeout_ms thread_id lightweight_read =
     (if ss_lifecycle s \<noteq> LcReady then (Inl SeNotReady, s)
      else let serialized = request_serialized s method params lightweight_read in
      if serialized \<and> thread_id = None then (Inl SeMissingThreadId, s)
      else case register enc s method params now_ms timeout_ms thread_id serialized requested of
             (Inl e, s) \<Rightarrow> (Inl e, s)
           | (Inr ticket, s) \<Rightarrow>
               (case start_request s ticket serialized of
                  (Inl e, s) \<Rightarrow> (Inl e, s)
                | (Inr actions, s) \<Rightarrow> (Inr (ticket, actions), s)))"

definition submit ::
  "to_writer \<Rightarrow> session_state \<Rightarrow> provider_method \<Rightarrow> json \<Rightarrow> u64 \<Rightarrow> u64 \<Rightarrow> string option \<Rightarrow> bool \<Rightarrow>
   (request_ticket \<times> session_action list) session_result" where
  "submit enc s method params now_ms timeout_ms thread_id lightweight_read =
     submit_with_id_inner enc s None method params now_ms timeout_ms thread_id lightweight_read"

definition submit_with_id ::
  "to_writer \<Rightarrow> session_state \<Rightarrow> request_id \<Rightarrow> provider_method \<Rightarrow> json \<Rightarrow> u64 \<Rightarrow> u64 \<Rightarrow>
   string option \<Rightarrow> bool \<Rightarrow> (request_ticket \<times> session_action list) session_result" where
  "submit_with_id enc s i method params now_ms timeout_ms thread_id lightweight_read =
     submit_with_id_inner enc s (Some i) method params now_ms timeout_ms thread_id lightweight_read"

section \<open>Settlement\<close>

text \<open>The first queued id that still has a pending request, with the rest of the queue.\<close>

fun pop_waiting :: "(request_id, pending_request) omap \<Rightarrow> request_id list \<Rightarrow>
    (request_id \<times> pending_request \<times> request_id list) option" where
  "pop_waiting pending [] = None"
| "pop_waiting pending (i # queue) =
     (case om_get pending i of
        Some p \<Rightarrow> Some (i, p, queue)
      | None \<Rightarrow> pop_waiting pending queue)"

definition release_thread ::
  "session_state \<Rightarrow> string \<Rightarrow> request_id \<Rightarrow> session_action list session_result" where
  "release_thread s thread settled =
     (case om_get (ss_active_threads s) thread of
        None \<Rightarrow> (Inr [], s)
      | Some owners \<Rightarrow>
          (let rest = os_remove settled owners;
               s1 = s\<lparr>ss_active_threads := om_insert thread rest (ss_active_threads s)\<rparr> in
           if settled \<notin> set owners \<or> rest \<noteq> [] then (Inr [], s1)
           else case om_get (ss_queued_threads s1) thread of
                  None \<Rightarrow>
                    (Inr [], s1\<lparr>ss_active_threads := om_remove thread (ss_active_threads s1)\<rparr>)
                | Some queue \<Rightarrow>
                    (case pop_waiting (ss_pending s1) queue of
                       Some (i, p, queue') \<Rightarrow>
                         (case write_request
                                 (s1\<lparr>ss_queued_threads :=
                                       om_insert thread queue' (ss_queued_threads s1),
                                     ss_active_threads :=
                                       om_insert thread [i] (ss_active_threads s1)\<rparr>)
                                 (pq_ticket p) of
                            (Inl e, s2) \<Rightarrow> (Inl e, s2)
                          | (Inr actions, s2) \<Rightarrow>
                              (Inr (ActThreadReleased thread (pq_ticket p) # actions), s2))
                     | None \<Rightarrow>
                         (Inr [], s1\<lparr>ss_queued_threads := om_remove thread (ss_queued_threads s1),
                            ss_active_threads := om_remove thread (ss_active_threads s1)\<rparr>))))"

definition mark_unknown :: "session_state \<Rightarrow> lifecycle \<Rightarrow> session_action list \<times> session_state" where
  "mark_unknown s lc =
     (if ss_lifecycle s = LcClosed then ([], s)
      else if ss_lifecycle s = LcLost then
        ([], if lc = LcClosed
             then s\<lparr>ss_lifecycle := LcClosed, ss_pending := [], ss_active_threads := [],
                    ss_queued_threads := []\<rparr>
             else s)
      else
        (map (\<lambda>(_, p). ActResolve (pq_ticket p) OcUnknown) (ss_pending s) @
           [ActGenerationClosed (ss_generation s)],
         s\<lparr>ss_book := mark_connection_lost (ss_book s), ss_deadlines := [], ss_lifecycle := lc,
           ss_initialization_status :=
             (if ss_initialization_status s = InAwaitingReply then InUnknown
              else ss_initialization_status s),
           ss_active_threads := [], ss_queued_threads := [],
           ss_pending := (if lc = LcClosed then [] else ss_pending s)\<rparr>))"

definition transport_lost :: "session_state \<Rightarrow> session_action list \<times> session_state" where
  "transport_lost s = mark_unknown s LcLost"

definition close_session :: "session_state \<Rightarrow> session_action list \<times> session_state" where
  "close_session s = mark_unknown s LcClosed"

text \<open>The initialization handshake of an accepted response.\<close>

definition settle_initialize ::
  "session_state \<Rightarrow> provider_method \<Rightarrow> response_body \<Rightarrow> session_action list \<times> session_state" where
  "settle_initialize s method body =
     (if method = ''initialize'' \<and> ss_lifecycle s = LcInitializing then
        (case body of
           ErrorBody _ \<Rightarrow> mark_unknown (s\<lparr>ss_initialization_status := InRefused\<rparr>) LcLost
         | ResultBody _ \<Rightarrow>
             ([ActWrite (Notification \<lparr>nf_method = ''initialized'', nf_params = None,
                 nf_fields = []\<rparr>)],
              s\<lparr>ss_initialization_status := InInitializedWritePending,
                ss_lifecycle := LcReady\<rparr>))
      else ([], s))"

definition receive_response ::
  "session_state \<Rightarrow> request_id \<Rightarrow> response_body \<Rightarrow> u64 option \<Rightarrow> session_action list session_result"
where
  "receive_response s i body received_at_ms =
     (case observe_response (ss_book s) i of
        (Inl e, b) \<Rightarrow>
          (if e = UnknownId \<or> e = DuplicateResponse then (Inr [], s\<lparr>ss_book := b\<rparr>)
           else (Inl (SeBook e), s\<lparr>ss_book := b\<rparr>))
      | (Inr matched, b) \<Rightarrow>
          (case remove_pending (s\<lparr>ss_book := b\<rparr>) i of
             (None, s) \<Rightarrow> (Inr [], s)
           | (Some p, s) \<Rightarrow>
               (let late = (case received_at_ms of
                              None \<Rightarrow> (case matched of MatchLate _ \<Rightarrow> True | _ \<Rightarrow> False)
                            | Some received \<Rightarrow> pq_deadline_ms p \<le> received);
                    (acts, s) = settle_initialize s (tk_method (pq_ticket p)) body;
                    actions = ActResolve (pq_ticket p) (OcReply body late) # acts
                in case pq_thread_id p of
                     Some thread \<Rightarrow>
                       (if pq_serialized p
                        then case release_thread s thread (tk_id (pq_ticket p)) of
                               (Inl e, s) \<Rightarrow> (Inl e, s)
                             | (Inr released, s) \<Rightarrow> (Inr (actions @ released), s)
                        else (Inr actions, s))
                   | None \<Rightarrow> (Inr actions, s))))"

definition receive_inner ::
  "session_state \<Rightarrow> frame \<Rightarrow> u64 option \<Rightarrow> session_action list session_result" where
  "receive_inner s f received_at_ms =
     (if ss_lifecycle s = LcClosed then (Inr [], s)
      else case f of
             Response i body _ \<Rightarrow> receive_response s i body received_at_ms
           | _ \<Rightarrow> (Inr [ActDispatch f], s))"

definition receive :: "session_state \<Rightarrow> frame \<Rightarrow> session_action list session_result" where
  "receive s f = receive_inner s f None"

definition receive_at :: "session_state \<Rightarrow> frame \<Rightarrow> u64 \<Rightarrow> session_action list session_result" where
  "receive_at s f received_at_ms = receive_inner s f (Some received_at_ms)"

text \<open>One due deadline: the request becomes unknown and is resolved as such.\<close>

definition expire_one :: "session_state \<Rightarrow> request_id \<Rightarrow> session_action list \<times> session_state" where
  "expire_one s i =
     (case book_mark_unknown (ss_book s) i of
        (Inl _, b) \<Rightarrow> ([], s\<lparr>ss_book := b\<rparr>)
      | (Inr _, b) \<Rightarrow>
          (case om_get (ss_pending s) i of
             None \<Rightarrow> ([], s\<lparr>ss_book := b\<rparr>)
           | Some p \<Rightarrow>
               ([ActResolve (pq_ticket p) OcUnknown],
                s\<lparr>ss_book := b,
                  ss_initialization_status :=
                    (if tk_method (pq_ticket p) = ''initialize'' then InUnknown
                     else ss_initialization_status s)\<rparr>)))"

lemma expire_one_deadlines [simp]: "ss_deadlines (snd (expire_one s i)) = ss_deadlines s"
  by (simp add: expire_one_def split: prod.split sum.split option.split)

function expire_due :: "session_state \<Rightarrow> u64 \<Rightarrow> session_action list \<times> session_state" where
  "expire_due s now_ms =
     (case ss_deadlines s of
        [] \<Rightarrow> ([], s)
      | (d, i) # rest \<Rightarrow>
          if d \<le> now_ms
          then let (acts, s) = expire_one (s\<lparr>ss_deadlines := rest\<rparr>) i;
                   (more, s) = expire_due s now_ms
               in (acts @ more, s)
          else ([], s))"
  by auto
termination
  by (relation "measure (length \<circ> ss_deadlines \<circ> fst)")
    (auto dest!: arg_cong [of _ _ "ss_deadlines \<circ> snd"])

declare expire_due.simps [simp del]

definition expire :: "session_state \<Rightarrow> u64 \<Rightarrow> (session_error + unit) \<times> session_action list \<times> session_state"
where
  "expire s now_ms =
     (if ss_lifecycle s = LcLost \<or> ss_lifecycle s = LcClosed then (Inr (), [], s)
      else let expired = (case ss_deadlines s of [] \<Rightarrow> False | (d, _) # _ \<Rightarrow> d \<le> now_ms);
               (actions, s) = expire_due s now_ms
           in (if expired then Inl SeDeadlineUnknown else Inr (), actions, s))"

definition remove_request :: "session_state \<Rightarrow> request_ticket \<Rightarrow> session_action list session_result" where
  "remove_request s ticket =
     (case remove_pending s (tk_id ticket) of
        (None, s) \<Rightarrow> (Inr [], s)
      | (Some p, s) \<Rightarrow>
          if \<not> pq_serialized p then (Inr [], s)
          else case pq_thread_id p of
                 None \<Rightarrow> (Inr [], s)
               | Some thread \<Rightarrow>
                   if (case om_get (ss_active_threads s) thread of
                         None \<Rightarrow> False | Some owners \<Rightarrow> tk_id ticket \<in> set owners)
                   then release_thread s thread (tk_id ticket)
                   else (Inr [],
                         case om_get (ss_queued_threads s) thread of
                           None \<Rightarrow> s
                         | Some queue \<Rightarrow>
                             s\<lparr>ss_queued_threads :=
                                 om_insert thread (filter (\<lambda>i. i \<noteq> tk_id ticket) queue)
                                   (ss_queued_threads s)\<rparr>))"

definition cancel_request :: "session_state \<Rightarrow> request_ticket \<Rightarrow> session_action list session_result" where
  "cancel_request s ticket =
     (if tk_generation ticket \<noteq> ss_generation s then (Inl SeStaleGeneration, s)
      else if \<not> wp_cancellable (ss_wire s) then (Inl (SeBook UnknownId), s)
      else case book_cancel (ss_book s) (tk_id ticket) of
             (Inl e, b) \<Rightarrow> (Inl (SeBook e), s\<lparr>ss_book := b\<rparr>)
           | (Inr _, b) \<Rightarrow> remove_request (s\<lparr>ss_book := b\<rparr>) ticket)"

definition reject_unsent_request ::
  "session_state \<Rightarrow> request_ticket \<Rightarrow> session_action list session_result" where
  "reject_unsent_request s ticket =
     (if tk_generation ticket \<noteq> ss_generation s then (Inl SeStaleGeneration, s)
      else case book_reject_unsent (ss_book s) (tk_id ticket) of
             (Inl e, b) \<Rightarrow> (Inl (SeBook e), s\<lparr>ss_book := b\<rparr>)
           | (Inr _, b) \<Rightarrow> remove_request (s\<lparr>ss_book := b\<rparr>) ticket)"

end
