(* ===== verification/Session_Ledger.thy ===== *)
theory Session_Ledger
  imports Provider_Session
begin

text \<open>
  What the provider session keeps true of its pending requests, its request book and its deadline
  index, and what each operation reports about them: every operation preserves the agreement,
  deadlines and connection loss settle each request as unknown once, and an accepted response
  resolves its request.
\<close>

section \<open>Requests, book and deadlines agree\<close>

definition book_pending :: "pending_book \<Rightarrow> request_id \<Rightarrow> bool" where
  "book_pending b i \<longleftrightarrow>
     (case om_get (bk_entries b) i of None \<Rightarrow> False | Some e \<Rightarrow> be_state e = RsPending)"

text \<open>
  Every pending request carries its own id and the generation of the session. Until the session
  is closed, the book tracks exactly the pending requests. The deadline index holds exactly the
  pending requests whose reply is still awaited and whose deadline is finite.
\<close>

definition session_wf :: "session_state \<Rightarrow> bool" where
  "session_wf s \<longleftrightarrow>
     book_wf (ss_book s) \<and> om_wf (ss_pending s) \<and> os_wf (ss_deadlines s)
     \<and> (bk_closed (ss_book s) \<longleftrightarrow> ss_lifecycle s = LcLost \<or> ss_lifecycle s = LcClosed)
     \<and> (ss_lifecycle s = LcClosed \<longrightarrow> ss_pending s = [])
     \<and> (\<forall>i p. om_get (ss_pending s) i = Some p \<longrightarrow>
          tk_id (pq_ticket p) = i \<and> tk_generation (pq_ticket p) = ss_generation s)
     \<and> (ss_lifecycle s \<noteq> LcClosed \<longrightarrow>
          (\<forall>i. map_option be_method (om_get (bk_entries (ss_book s)) i) =
               map_option (\<lambda>p. tk_method (pq_ticket p)) (om_get (ss_pending s) i)))
     \<and> (\<forall>d i. (d, i) \<in> set (ss_deadlines s) \<longleftrightarrow>
          (\<exists>p. om_get (ss_pending s) i = Some p \<and> pq_deadline_ms p = d \<and> d \<noteq> - 1
             \<and> book_pending (ss_book s) i))"

lemma session_wf_frame [simp]:
  "session_wf (s\<lparr>ss_active_threads := a\<rparr>) = session_wf s"
  "session_wf (s\<lparr>ss_queued_threads := q\<rparr>) = session_wf s"
  "session_wf (s\<lparr>ss_next_prefixed_id := n\<rparr>) = session_wf s"
  "session_wf (s\<lparr>ss_next_request_sequence := n\<rparr>) = session_wf s"
  "session_wf (s\<lparr>ss_initialization_status := st\<rparr>) = session_wf s"
  by (simp_all add: session_wf_def)

lemma session_wf_ticket:
  "session_wf s \<Longrightarrow> om_get (ss_pending s) i = Some p \<Longrightarrow> tk_id (pq_ticket p) = i"
  "session_wf s \<Longrightarrow> om_get (ss_pending s) i = Some p \<Longrightarrow> tk_generation (pq_ticket p) = ss_generation s"
  by (simp_all add: session_wf_def)

lemma session_wf_book:
  assumes "session_wf s" "ss_lifecycle s \<noteq> LcClosed"
  shows "om_get (bk_entries (ss_book s)) i = None \<longleftrightarrow> om_get (ss_pending s) i = None"
proof -
  have "map_option be_method (om_get (bk_entries (ss_book s)) i) =
      map_option (\<lambda>p. tk_method (pq_ticket p)) (om_get (ss_pending s) i)"
    using assms by (simp add: session_wf_def)
  then show ?thesis by (metis option.map_disc_iff)
qed

lemma session_wf_open:
  "session_wf s \<Longrightarrow> bk_closed (ss_book s) \<longleftrightarrow> ss_lifecycle s = LcLost \<or> ss_lifecycle s = LcClosed"
  by (simp add: session_wf_def)

lemma new_session_state_wf: "session_wf (new_session_state g w id_prefix)"
  using new_book_wf
  by (simp add: session_wf_def new_session_state_def new_book_def book_pending_def)

text \<open>Registering a new id in the book and in the pending requests.\<close>

definition registers :: "pending_book \<Rightarrow> request_id \<Rightarrow> provider_method \<Rightarrow> pending_book \<Rightarrow> bool" where
  "registers b i mname b' \<longleftrightarrow>
     \<not> bk_closed b \<and> \<not> bk_closed b' \<and> om_get (bk_entries b) i = None \<and>
     om_get (bk_entries b') = (om_get (bk_entries b))(i \<mapsto> \<lparr>be_method = mname, be_state = RsPending\<rparr>)"

lemma book_register_registers:
  "book_register b i mname = (Inr u, b') \<Longrightarrow> registers b i mname b'"
  by (auto simp: book_register_def registers_def om_has_def split: if_splits)

lemma allocate_numeric_registers:
  "allocate_numeric b mname = (Inr i, b') \<Longrightarrow> registers b i mname b'"
  by (auto simp: allocate_numeric_def registers_def split: if_splits option.splits prod.splits sum.splits
      dest!: book_register_registers)

lemma insert_pending_simps [simp]:
  "ss_pending (insert_pending s p) = om_insert (tk_id (pq_ticket p)) p (ss_pending s)"
  "ss_book (insert_pending s p) = ss_book s"
  "ss_generation (insert_pending s p) = ss_generation s"
  "ss_wire (insert_pending s p) = ss_wire s"
  "ss_lifecycle (insert_pending s p) = ss_lifecycle s"
  "ss_initialization_status (insert_pending s p) = ss_initialization_status s"
  "ss_active_threads (insert_pending s p) = ss_active_threads s"
  "ss_queued_threads (insert_pending s p) = ss_queued_threads s"
  by (simp_all add: insert_pending_def Let_def)

lemma registered_wf:
  assumes wf: "session_wf s" and reg: "registers (ss_book s) i mname b" and b: "book_wf b"
    and p: "pq_ticket p = \<lparr>tk_generation = ss_generation s, tk_id = i, tk_method = mname\<rparr>"
  shows "session_wf (insert_pending (s\<lparr>ss_book := b\<rparr>) p)"
proof -
  have lc: "ss_lifecycle s \<noteq> LcClosed" "ss_lifecycle s \<noteq> LcLost"
    using session_wf_open [OF wf] reg by (auto simp: registers_def)
  then have new: "om_get (ss_pending s) i = None"
    using session_wf_book [OF wf] reg by (simp add: registers_def)
  then have ds: "set (ss_deadlines (insert_pending (s\<lparr>ss_book := b\<rparr>) p)) =
      set (ss_deadlines s) \<union> (if pq_deadline_ms p = - 1 then {} else {(pq_deadline_ms p, i)})"
    and ds_wf: "os_wf (ss_deadlines (insert_pending (s\<lparr>ss_book := b\<rparr>) p))"
    using wf by (auto simp: insert_pending_def Let_def p session_wf_def)
  have pend: "book_pending b j = (j = i \<or> book_pending (ss_book s) j)" for j
    using reg by (auto simp: registers_def book_pending_def)
  show ?thesis
    unfolding session_wf_def ds
    using wf reg b p lc new ds_wf by (auto simp: session_wf_def registers_def pend)
qed

text \<open>Retiring an id from the book and from the pending requests.\<close>

definition retires :: "pending_book \<Rightarrow> request_id \<Rightarrow> pending_book \<Rightarrow> bool" where
  "retires b i b' \<longleftrightarrow> bk_closed b' = bk_closed b \<and> om_get (bk_entries b') = (om_get (bk_entries b))(i := None)"

lemma observe_response_retires:
  "observe_response b i = (Inr matched, b') \<Longrightarrow> retires b i b'"
  by (auto simp: observe_response_def retires_def Let_def split: option.splits request_state.splits)

lemma observe_response_refused:
  assumes "book_wf b" "observe_response b i = (Inl e, b')"
  shows "b' = b \<and> e \<in> {UnknownId, DuplicateResponse} \<and> om_get (bk_entries b) i = None"
  using assms entry_state [OF assms(1), of i]
  by (auto simp: observe_response_def Let_def split: option.splits request_state.splits if_splits)

lemma book_cancel_retires:
  "book_cancel b i = (Inr mname, b') \<Longrightarrow> retires b i b'"
  by (auto simp: book_cancel_def retires_def Let_def split: option.splits if_splits)

lemma book_cancel_refuses:
  "book_wf b \<Longrightarrow> book_cancel b i = (Inl e, b') \<Longrightarrow> b' = b"
  using book_cancel_refused [of b i]
  by (cases "om_get (bk_entries b) i")
    (auto simp: book_cancel_def Let_def split: if_splits)

lemma book_reject_unsent_retires:
  "book_reject_unsent b i = (Inr u, b') \<Longrightarrow> retires b i b'"
  by (auto simp: book_reject_unsent_def retires_def split: option.splits)

lemma book_reject_unsent_refuses: "book_reject_unsent b i = (Inl e, b') \<Longrightarrow> b' = b"
  by (auto simp: book_reject_unsent_def split: option.splits)

lemma remove_pending_None [simp]: "om_get (ss_pending s) i = None \<Longrightarrow> remove_pending s i = (None, s)"
  by (simp add: remove_pending_def)

lemma remove_pending_Some:
  "om_get (ss_pending s) i = Some p \<Longrightarrow> remove_pending s i =
     (Some p, s\<lparr>ss_pending := om_remove i (ss_pending s),
                ss_deadlines := os_remove (pq_deadline_ms p, tk_id (pq_ticket p)) (ss_deadlines s)\<rparr>)"
  by (simp add: remove_pending_def)

lemma retired_wf:
  assumes wf: "session_wf s" and ret: "retires (ss_book s) i b" and b: "book_wf b"
    and p: "om_get (ss_pending s) i = Some p"
  shows "session_wf (snd (remove_pending (s\<lparr>ss_book := b\<rparr>) i))"
proof -
  have i: "tk_id (pq_ticket p) = i" by (rule session_wf_ticket [OF wf p])
  have open': "ss_lifecycle s \<noteq> LcClosed" using wf p by (auto simp: session_wf_def)
  have pend: "book_pending b j = (j \<noteq> i \<and> book_pending (ss_book s) j)" for j
    using ret by (auto simp: retires_def book_pending_def)
  show ?thesis
    using wf ret b open'
    by (auto simp: session_wf_def remove_pending_def p i pend retires_def)
qed

lemma retired_absent_wf:
  assumes wf: "session_wf s" and ret: "retires (ss_book s) i b" and b: "book_wf b"
    and p: "om_get (ss_pending s) i = None"
  shows "session_wf (s\<lparr>ss_book := b\<rparr>)"
proof -
  have "book_pending b j = (j \<noteq> i \<and> book_pending (ss_book s) j)" for j
    using ret by (auto simp: retires_def book_pending_def)
  then show ?thesis using wf ret b p by (auto simp: session_wf_def retires_def)
qed

text \<open>Writing a request only drops its body.\<close>

lemma set_body_wf:
  assumes "session_wf s" "om_get (ss_pending s) i = Some p"
    and "pq_ticket p' = pq_ticket p" "pq_deadline_ms p' = pq_deadline_ms p"
  shows "session_wf (s\<lparr>ss_pending := om_insert i p' (ss_pending s)\<rparr>)"
  using assms by (auto simp: session_wf_def)

lemma write_request_wf:
  assumes "session_wf s" "write_request s ticket = (r, s')"
  shows "session_wf s'"
  using assms set_body_wf [OF assms(1)]
  by (auto simp: write_request_def split: option.splits)

lemma release_thread_wf:
  assumes "session_wf s" "release_thread s thread i = (r, s')"
  shows "session_wf s'"
  using assms
  by (auto simp: release_thread_def Let_def split: option.splits prod.splits sum.splits if_splits
      elim!: write_request_wf [rotated])

text \<open>Marking one request unknown drops its deadline.\<close>

lemma marked_unknown_wf:
  assumes wf: "session_wf s" and mark: "book_mark_unknown (ss_book s) i = (Inr u, b)"
    and ds: "os_wf ds" "\<And>d j. (d, j) \<in> set ds \<longleftrightarrow> j \<noteq> i \<and> (d, j) \<in> set (ss_deadlines s)"
  shows "session_wf (s\<lparr>ss_book := b, ss_deadlines := ds\<rparr>)"
proof -
  obtain e where e: "om_get (bk_entries (ss_book s)) i = Some e"
    and b: "b = ss_book s\<lparr>bk_entries := om_insert i (unknown_entry e) (bk_entries (ss_book s))\<rparr>"
    using mark by (auto simp: book_mark_unknown_def split: option.splits)
  have b_wf: "book_wf b" using wf mark book_mark_unknown_wf by (auto simp: session_wf_def)
  have "book_pending b j = (j \<noteq> i \<and> book_pending (ss_book s) j)" for j
    using b e by (auto simp: book_pending_def)
  moreover have "map_option be_method (om_get (bk_entries b) j) =
      map_option be_method (om_get (bk_entries (ss_book s)) j)" for j
    using b e by auto
  moreover have "bk_closed b = bk_closed (ss_book s)" using b by simp
  ultimately show ?thesis using wf b_wf ds by (auto simp: session_wf_def)
qed

lemma book_mark_unknown_refuses: "book_mark_unknown b i = (Inl e, b') \<Longrightarrow> b' = b"
  by (auto simp: book_mark_unknown_def split: option.splits)

section \<open>Every operation keeps the agreement\<close>

lemma register_checked_ok:
  assumes "register_checked enc s i mname params = (Inr u, s')"
  obtains b where "s' = s\<lparr>ss_book := b\<rparr>" "book_register (ss_book s) i mname = (Inr (), b)"
  using assms
  by (auto simp: register_checked_def split: sum.splits prod.splits)

lemma register_checked_failed:
  "register_checked enc s i mname params = (Inl e, s') \<Longrightarrow> s' = s"
  by (auto simp: register_checked_def book_register_def split: sum.splits prod.splits if_splits)

text \<open>A registered id comes with the book that tracks it; a refused one changes only a counter.\<close>

definition id_registered ::
  "session_state \<Rightarrow> provider_method \<Rightarrow> session_error + request_id \<Rightarrow> session_state \<Rightarrow> bool" where
  "id_registered s mname r s' \<longleftrightarrow>
     s' = s\<lparr>ss_next_prefixed_id := ss_next_prefixed_id s',
            ss_next_request_sequence := ss_next_request_sequence s', ss_book := ss_book s'\<rparr>
     \<and> (case r of
          Inl _ \<Rightarrow> ss_book s' = ss_book s
        | Inr i \<Rightarrow> registers (ss_book s) i mname (ss_book s') \<and> book_wf (ss_book s'))"

lemma register_checked_registered:
  assumes "book_wf (ss_book s)" "register_checked enc s i mname params = (r, s')"
  shows "id_registered s mname (map_sum id (\<lambda>_. i) r) s'"
proof (cases r)
  case (Inl e)
  with assms(2) register_checked_failed [of enc s i mname params e s']
  show ?thesis by (simp add: id_registered_def)
next
  case (Inr u)
  with assms(2) obtain b where b: "s' = s\<lparr>ss_book := b\<rparr>"
    "book_register (ss_book s) i mname = (Inr (), b)"
    by (auto elim: register_checked_ok)
  with Inr book_register_registers [OF b(2)] book_register_wf [OF assms(1) b(2)] show ?thesis
    by (simp add: id_registered_def)
qed

lemma allocate_numeric_refuses: "allocate_numeric b mname = (Inl e, b') \<Longrightarrow> b' = b"
  by (auto simp: allocate_numeric_def book_register_def split: if_splits option.splits)

lemma id_registered_frame:
  "id_registered (s\<lparr>ss_next_request_sequence := n\<rparr>) mname r s' \<Longrightarrow> id_registered s mname r s'"
  "id_registered s mname r s' \<Longrightarrow> id_registered s mname r (s'\<lparr>ss_next_prefixed_id := n\<rparr>)"
  "id_registered s mname (Inl e) s"
  by (cases s; cases s'; auto simp: id_registered_def split: sum.splits)+

lemma register_id_registered:
  assumes wf: "book_wf (ss_book s)" and reg: "register_id enc s mname params requested = (r, s')"
  shows "id_registered s mname r s'"
proof -
  have checked: "id_registered t mname (Inl e) t'"
    if "register_checked enc t i mname params = (Inl e, t')" "book_wf (ss_book t)" for t t' i e
    using register_checked_registered [OF that(2,1)] by simp
  have checked': "id_registered t mname (Inr i) t'"
    if "register_checked enc t i mname params = (Inr u, t')" "book_wf (ss_book t)" for t t' i u
    using register_checked_registered [OF that(2,1)] by simp
  have numeric: "id_registered s mname (Inr i) (s\<lparr>ss_book := b\<rparr>)"
    if "allocate_numeric (ss_book s) mname = (Inr i, b)" for i b
    using allocate_numeric_registers [OF that] allocate_numeric_wf [OF wf that]
    by (simp add: id_registered_def)
  have refused: "id_registered s mname (Inl e) (s\<lparr>ss_book := b\<rparr>)"
    if "allocate_numeric (ss_book s) mname = (Inl e', b)" for e e' b
    using allocate_numeric_refuses [OF that] by (simp add: id_registered_def)
  consider (caller) i where "requested = Some i"
    | (id_prefix) id_prefix where "requested = None" "ss_request_id_prefix s = Some id_prefix"
    | (hex) id_prefix where "requested = None" "ss_request_id_prefix s = None"
        "wp_ids (ss_wire s) = PrefixedHex id_prefix"
    | (num) "requested = None" "ss_request_id_prefix s = None" "wp_ids (ss_wire s) = Numeric"
    by (cases requested; cases "ss_request_id_prefix s"; cases "wp_ids (ss_wire s)") auto
  then show ?thesis
  proof cases
    case caller
    with reg wf show ?thesis
      by (auto simp: register_id_def split: prod.splits sum.splits dest: checked checked')
  next
    case id_prefix
    with reg wf show ?thesis
      by (auto simp: register_id_def Let_def id_registered_frame split: prod.splits sum.splits option.splits
          dest!: checked checked' intro: id_registered_frame(1))
  next
    case hex
    with reg wf show ?thesis
      by (auto simp: register_id_def Let_def id_registered_frame split: prod.splits sum.splits option.splits
          dest!: checked checked')
  next
    case num
    with reg wf show ?thesis
      by (auto simp: register_id_def id_registered_frame split: prod.splits sum.splits
          dest: numeric refused)
  qed
qed

lemma id_registered_wf:
  assumes "session_wf s" "id_registered s mname (Inl e) s'"
  shows "session_wf s'"
proof -
  have "s' = s\<lparr>ss_next_prefixed_id := ss_next_prefixed_id s',
      ss_next_request_sequence := ss_next_request_sequence s'\<rparr>"
    using assms(2) by (cases s; cases s'; simp add: id_registered_def)
  then show ?thesis using assms(1) session_wf_frame by metis
qed

lemma register_wf:
  assumes wf: "session_wf s"
    and reg: "register enc s mname params now_ms timeout_ms thread_id serialized requested = (r, s')"
  shows "session_wf s'"
proof -
  have book: "book_wf (ss_book s)" using wf by (simp add: session_wf_def)
  obtain q t where id: "register_id enc s mname params requested = (q, t)" by force
  note idr = register_id_registered [OF book id]
  show ?thesis
  proof (cases q)
    case (Inl e)
    with reg id id_registered_wf [OF wf] idr show ?thesis by (simp add: register_def)
  next
    case (Inr i)
    define u where "u = s\<lparr>ss_next_prefixed_id := ss_next_prefixed_id t,
        ss_next_request_sequence := ss_next_request_sequence t\<rparr>"
    from idr Inr have t: "t = u\<lparr>ss_book := ss_book t\<rparr>"
      and regs: "registers (ss_book s) i mname (ss_book t)" "book_wf (ss_book t)"
      by (auto simp: id_registered_def u_def)
    have u: "session_wf u" "ss_book u = ss_book s" "ss_generation u = ss_generation s"
      using wf by (simp_all add: u_def)
    have "ss_generation t = ss_generation s" by (subst t) (simp add: u_def)
    with reg id Inr have "s' = insert_pending (u\<lparr>ss_book := ss_book t\<rparr>)
        \<lparr>pq_ticket = \<lparr>tk_generation = ss_generation s, tk_id = i, tk_method = mname\<rparr>,
         pq_params = params, pq_deadline_ms = saturating_add now_ms timeout_ms,
         pq_thread_id = thread_id, pq_serialized = serialized\<rparr>"
      using t by (simp add: register_def Let_def)
    with u regs show ?thesis by (auto intro!: registered_wf)
  qed
qed

lemma track_existing_wf:
  assumes wf: "session_wf s" and "track_existing_request_until s i mname thread_id d = (r, s')"
  shows "session_wf s'"
proof -
  have book: "book_wf (ss_book s)" using wf by (simp add: session_wf_def)
  obtain q b where q: "book_register (ss_book s) i mname = (q, b)" by force
  have "b = ss_book s" if "q = Inl e" for e
    using q that by (auto simp: book_register_def split: if_splits)
  moreover have "registers (ss_book s) i mname b" if "q = Inr u" for u
    using book_register_registers q that by blast
  ultimately show ?thesis
    using assms(2) q book_register_wf [OF book q] wf
    by (auto simp: track_existing_request_until_def Let_def split: if_splits sum.splits
        intro!: registered_wf [of s])
qed

lemma start_request_wf:
  "session_wf s \<Longrightarrow> start_request s ticket serialized = (r, s') \<Longrightarrow> session_wf s'"
  by (auto simp: start_request_def Let_def split: option.splits if_splits
      elim!: write_request_wf [rotated])

lemma submit_wf:
  assumes "session_wf s"
    and "submit_with_id_inner enc s requested mname params now_ms timeout_ms thread_id light = (r, s')"
  shows "session_wf s'"
  using assms
  by (auto simp: submit_with_id_inner_def Let_def split: if_splits prod.splits sum.splits
      dest: register_wf start_request_wf)

lemma mark_unknown_session_wf:
  assumes wf: "session_wf s" and lc: "lc = LcLost \<or> lc = LcClosed"
    and "mark_unknown s lc = (acts, s')"
  shows "session_wf s'"
proof -
  have "map_option be_method (om_get (bk_entries (mark_connection_lost (ss_book s))) i) =
      map_option be_method (om_get (bk_entries (ss_book s)) i)" for i
    by (simp add: mark_connection_lost_def map_of_map option.map_comp comp_def)
  moreover have "\<not> book_pending (mark_connection_lost (ss_book s)) i" for i
    using entry_state [OF mark_connection_lost_wf, of "ss_book s" i] wf
    by (auto simp: session_wf_def book_pending_def mark_connection_lost_def split: option.splits)
  moreover have "\<not> book_pending (ss_book s) i" if "bk_closed (ss_book s)" for i
    using entry_state [of "ss_book s" i] wf that
    by (auto simp: session_wf_def book_pending_def split: option.splits)
  moreover have "bk_closed (mark_connection_lost (ss_book s))" by (simp add: mark_connection_lost_def)
  ultimately show ?thesis
    using assms mark_connection_lost_wf [of "ss_book s"]
    by (auto simp: mark_unknown_def session_wf_def split: if_splits)
qed

lemma settle_initialize_wf:
  assumes "session_wf s" "settle_initialize s mname body = (acts, s')"
  shows "session_wf s'"
proof (cases "mname = ''initialize'' \<and> ss_lifecycle s = LcInitializing")
  case False
  with assms show ?thesis by (auto simp: settle_initialize_def)
next
  case True
  then have "session_wf (s\<lparr>ss_initialization_status := st, ss_lifecycle := LcReady\<rparr>)" for st
    using assms(1) by (simp add: session_wf_def)
  with True assms show ?thesis
    using mark_unknown_session_wf [of "s\<lparr>ss_initialization_status := InRefused\<rparr>" LcLost]
    by (auto simp: settle_initialize_def split: response_body.splits)
qed

lemma add_owner_wf: "session_wf s \<Longrightarrow> session_wf (add_owner s thread i)"
  using set_body_wf [of s i] by (auto simp: add_owner_def Let_def split: option.splits)

lemma insert_pending_deadlines:
  "om_get (ss_pending s) (tk_id (pq_ticket p)) = None \<Longrightarrow>
   set (ss_deadlines (insert_pending s p)) =
     set (ss_deadlines s) \<union> (if pq_deadline_ms p = - 1 then {} else {(pq_deadline_ms p, tk_id (pq_ticket p))})"
  by (auto simp: insert_pending_def Let_def)

lemma add_owner_simps [simp]:
  "ss_book (add_owner s thread i) = ss_book s"
  "ss_deadlines (add_owner s thread i) = ss_deadlines s"
  "ss_lifecycle (add_owner s thread i) = ss_lifecycle s"
  "ss_generation (add_owner s thread i) = ss_generation s"
  "ss_wire (add_owner s thread i) = ss_wire s"
  "ss_queued_threads (add_owner s thread i) = ss_queued_threads s"
  "om_get (ss_pending (add_owner s thread i)) =
     (om_get (ss_pending s))(i := map_option (pq_serialized_update (\<lambda>_. True)) (om_get (ss_pending s) i))"
  by (auto simp: add_owner_def Let_def fun_eq_iff split: option.splits)

text \<open>The deadline of a tracked request is the only one under its id.\<close>

lemma deadline_of_id:
  "session_wf s \<Longrightarrow> om_get (ss_pending s) i = Some p \<Longrightarrow> (d, i) \<in> set (ss_deadlines s) \<Longrightarrow>
   d = pq_deadline_ms p"
  by (auto simp: session_wf_def)

lemma forget_deadline_wf:
  assumes wf: "session_wf s" and mark: "book_mark_unknown (ss_book s) i = (Inr u, b)"
    and p: "om_get (ss_pending s) i = Some p"
  shows "session_wf (s\<lparr>ss_book := b, ss_deadlines := os_remove (pq_deadline_ms p, i) (ss_deadlines s)\<rparr>)"
  using deadline_of_id [OF wf p] wf
  by (intro marked_unknown_wf [OF wf mark]) (auto simp: session_wf_def [of s])

lemma track_existing_ok:
  assumes "track_existing_request_until s i mname thread_id d = (Inr ticket, s')"
  shows "\<exists>p. om_get (ss_pending s') i = Some p \<and> pq_deadline_ms p = d"
  using assms
  by (auto simp: track_existing_request_until_def Let_def split: if_splits sum.splits prod.splits)

lemma restore_uncertainty_wf:
  assumes "restore_uncertainty s i d unknown = (r, s')" "session_wf s"
    and "om_get (ss_pending s) i = Some p" "pq_deadline_ms p = d"
  shows "session_wf s'"
  using assms forget_deadline_wf [OF assms(2) _ assms(3)]
  by (auto simp: restore_uncertainty_def split: if_splits prod.splits sum.splits
      dest!: book_mark_unknown_refuses)

lemma restore_request_wf:
  assumes wf: "session_wf s"
    and res: "restore_request s ticket thread_id d unknown light = (r, s')"
  shows "session_wf s'"
proof -
  let ?i = "tk_id ticket"
  obtain q t where q: "track_existing_request_until s ?i (tk_method ticket) thread_id d = (q, t)"
    by force
  have t_wf: "session_wf t" by (rule track_existing_wf [OF wf q])
  show ?thesis
  proof (cases q)
    case (Inl e)
    with res q wf t_wf show ?thesis by (auto simp: restore_request_def Let_def split: if_splits)
  next
    case (Inr tk)
    obtain p where p: "om_get (ss_pending t) ?i = Some p" "pq_deadline_ms p = d"
      using track_existing_ok q Inr by blast
    show ?thesis
      using res q Inr wf p t_wf add_owner_wf [OF t_wf]
      by (auto simp: restore_request_def Let_def split: if_splits option.splits
          elim!: restore_uncertainty_wf)
  qed
qed

lemma receive_wf:
  assumes wf: "session_wf s" and rec: "receive_inner s f at = (r, s')"
  shows "session_wf s'"
proof (cases "\<exists>i body fields. f = Response i body fields \<and> ss_lifecycle s \<noteq> LcClosed")
  case False
  with rec wf show ?thesis by (auto simp: receive_inner_def split: if_splits frame.splits)
next
  case True
  then obtain i body fields where f: "f = Response i body fields" "ss_lifecycle s \<noteq> LcClosed" by blast
  have book: "book_wf (ss_book s)" using wf by (simp add: session_wf_def)
  obtain m b where m: "observe_response (ss_book s) i = (m, b)" by force
  note b_wf = observe_response_wf [OF book m]
  show ?thesis
  proof (cases m)
    case (Inl e)
    with observe_response_refused [OF book] m have "b = ss_book s" by blast
    with Inl rec f m wf show ?thesis
      by (auto simp: receive_inner_def receive_response_def split: if_splits)
  next
    case (Inr matched)
    then have ret: "retires (ss_book s) i b" using m observe_response_retires by blast
    show ?thesis
    proof (cases "om_get (ss_pending s) i")
      case None
      with rec f m Inr retired_absent_wf [OF wf ret b_wf] show ?thesis
        by (auto simp: receive_inner_def receive_response_def)
    next
      case (Some p)
      obtain t where t: "remove_pending (s\<lparr>ss_book := b\<rparr>) i = (Some p, t)"
        using Some by (simp add: remove_pending_def)
      have t_wf: "session_wf t" using retired_wf [OF wf ret b_wf Some] t by simp
      obtain acts u where u: "settle_initialize t (tk_method (pq_ticket p)) body = (acts, u)" by force
      have "session_wf u" by (rule settle_initialize_wf [OF t_wf u])
      with rec f m Inr t u show ?thesis
        by (auto simp: receive_inner_def receive_response_def Let_def
            split: option.splits if_splits prod.splits sum.splits dest: release_thread_wf)
    qed
  qed
qed

lemma remove_request_wf:
  assumes wf: "session_wf s" and ret: "retires (ss_book s) (tk_id ticket) b" and b: "book_wf b"
    and "remove_request (s\<lparr>ss_book := b\<rparr>) ticket = (r, s')"
  shows "session_wf s'"
proof (cases "om_get (ss_pending s) (tk_id ticket)")
  case None
  with assms(4) retired_absent_wf [OF wf ret b] show ?thesis by (simp add: remove_request_def)
next
  case (Some p)
  obtain t where t: "remove_pending (s\<lparr>ss_book := b\<rparr>) (tk_id ticket) = (Some p, t)"
    using Some by (simp add: remove_pending_def)
  have "session_wf t" using retired_wf [OF wf ret b Some] t by simp
  with assms(4) t show ?thesis
    by (auto simp: remove_request_def split: option.splits if_splits dest: release_thread_wf)
qed

lemma cancel_wf:
  assumes wf: "session_wf s" and "cancel_request s ticket = (r, s')"
  shows "session_wf s'"
proof -
  have book: "book_wf (ss_book s)" using wf by (simp add: session_wf_def)
  show ?thesis
    using assms(2) wf
    by (auto simp: cancel_request_def split: if_splits prod.splits sum.splits
        dest: book_cancel_refuses [OF book] remove_request_wf [OF wf book_cancel_retires book_cancel_wf [OF book]])
qed

lemma reject_unsent_wf:
  assumes wf: "session_wf s" and "reject_unsent_request s ticket = (r, s')"
  shows "session_wf s'"
proof -
  have book: "book_wf (ss_book s)" using wf by (simp add: session_wf_def)
  show ?thesis
    using assms(2) wf
    by (auto simp: reject_unsent_request_def split: if_splits prod.splits sum.splits
        dest: book_reject_unsent_refuses
          remove_request_wf [OF wf book_reject_unsent_retires book_reject_unsent_wf [OF book]])
qed

lemma os_wf_tail: "os_wf (k # ks) \<Longrightarrow> os_wf ks"
  by (simp add: os_wf_def)

lemma expire_one_wf:
  assumes wf: "session_wf s" and ds: "ss_deadlines s = (d, i) # rest"
  shows "session_wf (snd (expire_one (s\<lparr>ss_deadlines := rest\<rparr>) i))"
proof -
  obtain p e where p: "om_get (ss_pending s) i = Some p" and dl: "pq_deadline_ms p = d"
    and e: "om_get (bk_entries (ss_book s)) i = Some e"
  proof -
    have "(d, i) \<in> set (ss_deadlines s)" using ds by simp
    then show thesis
      using wf that by (auto simp: session_wf_def book_pending_def split: option.splits)
  qed
  obtain b where b: "book_mark_unknown (ss_book s) i = (Inr (), b)"
    using e by (simp add: book_mark_unknown_def)
  have "distinct (ss_deadlines s)" using wf by (simp add: session_wf_def os_wf_distinct)
  then have rest: "(d', j) \<in> set rest \<longleftrightarrow> j \<noteq> i \<and> (d', j) \<in> set (ss_deadlines s)" for d' j
    using deadline_of_id [OF wf p] ds dl by auto
  have "os_wf ((d, i) # rest)" using wf ds by (simp add: session_wf_def)
  then have "os_wf rest" by (rule os_wf_tail)
  note marked_unknown_wf [OF wf b this rest]
  moreover have "s\<lparr>ss_book := b, ss_deadlines := rest\<rparr> = s\<lparr>ss_deadlines := rest, ss_book := b\<rparr>"
    by simp
  ultimately show ?thesis using b p by (simp add: expire_one_def)
qed

text \<open>The expiry loop takes the deadlines one by one.\<close>

abbreviation expire_head :: "session_state \<Rightarrow> request_id \<Rightarrow> (u64 \<times> request_id) oset \<Rightarrow>
    session_action list \<times> session_state" where
  "expire_head s i rest \<equiv> expire_one (s\<lparr>ss_deadlines := rest\<rparr>) i"

lemma expire_due_Nil: "ss_deadlines s = [] \<Longrightarrow> expire_due s now_ms = ([], s)"
  by (simp add: expire_due.simps)

lemma expire_due_Cons:
  "ss_deadlines s = (d, i) # rest \<Longrightarrow> expire_due s now_ms =
     (if d \<le> now_ms
      then (fst (expire_head s i rest) @ fst (expire_due (snd (expire_head s i rest)) now_ms),
            snd (expire_due (snd (expire_head s i rest)) now_ms))
      else ([], s))"
  by (subst expire_due.simps) (simp split: prod.split)

lemma expire_due_induct [case_names Nil Cons]:
  assumes "\<And>s. ss_deadlines s = [] \<Longrightarrow> P s"
    and "\<And>s d i rest. ss_deadlines s = (d, i) # rest \<Longrightarrow> P (snd (expire_head s i rest)) \<Longrightarrow> P s"
  shows "P s"
proof (induction s rule: measure_induct_rule [of "length \<circ> ss_deadlines"])
  case (less s)
  show ?case
  proof (cases "ss_deadlines s")
    case Nil
    then show ?thesis by (rule assms(1))
  next
    case (Cons entry rest)
    obtain d i where e: "entry = (d, i)" by force
    show ?thesis by (rule assms(2) [OF Cons [unfolded e]], rule less) (simp add: Cons)
  qed
qed

lemma expire_due_wf: "session_wf s \<Longrightarrow> session_wf (snd (expire_due s now_ms))"
  by (induction s rule: expire_due_induct)
    (simp_all add: expire_due_Nil expire_due_Cons expire_one_wf)

section \<open>Runs of a session\<close>

datatype session_call =
    CallSubmit "request_id option" provider_method json u64 u64 "string option" bool
  | CallRestore request_ticket "string option" u64 bool bool
  | CallInitializedWritten
  | CallReceive frame "u64 option"
  | CallExpire u64
  | CallLost
  | CallClose
  | CallCancel request_ticket
  | CallRejectUnsent request_ticket

definition ok_actions :: "session_action list session_result \<Rightarrow> session_action list \<times> session_state" where
  "ok_actions r = (case r of (Inl _, s) \<Rightarrow> ([], s) | (Inr acts, s) \<Rightarrow> (acts, s))"

text \<open>The actions a call hands to the caller; a call that fails hands over none.\<close>

fun session_step :: "to_writer \<Rightarrow> session_state \<Rightarrow> session_call \<Rightarrow> session_action list \<times> session_state" where
  "session_step enc s (CallSubmit requested mname params now_ms timeout_ms thread_id light) =
     (case submit_with_id_inner enc s requested mname params now_ms timeout_ms thread_id light of
        (Inl _, s) \<Rightarrow> ([], s) | (Inr (_, acts), s) \<Rightarrow> (acts, s))"
| "session_step enc s (CallRestore ticket thread_id d unknown light) =
     ([], snd (restore_request s ticket thread_id d unknown light))"
| "session_step enc s CallInitializedWritten = ([], snd (mark_initialized_notification_written s))"
| "session_step enc s (CallReceive f at) = ok_actions (receive_inner s f at)"
| "session_step enc s (CallExpire now_ms) = snd (expire s now_ms)"
| "session_step enc s CallLost = transport_lost s"
| "session_step enc s CallClose = close_session s"
| "session_step enc s (CallCancel ticket) = ok_actions (cancel_request s ticket)"
| "session_step enc s (CallRejectUnsent ticket) = ok_actions (reject_unsent_request s ticket)"

fun session_run ::
  "to_writer \<Rightarrow> session_state \<Rightarrow> session_call list \<Rightarrow> session_action list \<times> session_state" where
  "session_run enc s [] = ([], s)"
| "session_run enc s (c # cs) =
     (let (acts, s) = session_step enc s c; (more, s) = session_run enc s cs in (acts @ more, s))"

lemma ok_actions_state [simp]: "snd (ok_actions r) = snd r"
  by (cases r) (auto simp: ok_actions_def split: sum.split)

lemma expire_state: "snd (snd (expire s now_ms)) =
    (if ss_lifecycle s = LcLost \<or> ss_lifecycle s = LcClosed then s else snd (expire_due s now_ms))"
  by (simp add: expire_def Let_def split: prod.split)

lemma session_step_wf:
  assumes "session_wf s"
  shows "session_wf (snd (session_step enc s c))"
proof (cases c)
  case (CallSubmit requested mname params now_ms timeout_ms thread_id light)
  then show ?thesis
    using submit_wf [OF assms] by (auto split: prod.split sum.split)
next
  case (CallRestore ticket thread_id d unknown light)
  then show ?thesis using restore_request_wf [OF assms prod.collapse [symmetric]] by simp
next
  case CallInitializedWritten
  then show ?thesis
    using assms by (simp add: mark_initialized_notification_written_def split: initialization_status.split)
next
  case (CallReceive f at)
  then show ?thesis using receive_wf [OF assms prod.collapse [symmetric]] by simp
next
  case (CallExpire now_ms)
  then show ?thesis using assms expire_due_wf by (simp add: expire_state)
next
  case CallLost
  then show ?thesis
    using mark_unknown_session_wf [OF assms _ prod.collapse [symmetric], of LcLost]
    by (simp add: transport_lost_def)
next
  case CallClose
  then show ?thesis
    using mark_unknown_session_wf [OF assms _ prod.collapse [symmetric], of LcClosed]
    by (simp add: close_session_def)
next
  case (CallCancel ticket)
  then show ?thesis using cancel_wf [OF assms prod.collapse [symmetric]] by simp
next
  case (CallRejectUnsent ticket)
  then show ?thesis using reject_unsent_wf [OF assms prod.collapse [symmetric]] by simp
qed

lemma session_run_Cons:
  "snd (session_run enc s (c # cs)) = snd (session_run enc (snd (session_step enc s c)) cs)"
  "fst (session_run enc s (c # cs)) =
     fst (session_step enc s c) @ fst (session_run enc (snd (session_step enc s c)) cs)"
  by (simp_all split: prod.split)

declare session_run.simps(2) [simp del]

lemma track_recovered_wf:
  "session_wf s \<Longrightarrow> track_recovered s d recovered = (r, s') \<Longrightarrow> session_wf s'"
  by (induction s d recovered rule: track_recovered.induct)
    (auto split: prod.splits sum.splits dest: track_existing_wf)

lemma new_session_wf:
  assumes "new_with_recovered_and_prefix enc g w now_ms timeout_ms params recovered id_prefix = Inr (s, acts)"
  shows "session_wf s"
  using assms new_session_state_wf [of g w id_prefix]
  by (auto simp: new_with_recovered_and_prefix_def split: sum.splits prod.splits
      elim!: write_request_wf [rotated] register_wf [rotated] track_recovered_wf [rotated])

section \<open>Expiry\<close>

definition due :: "u64 \<Rightarrow> u64 \<times> request_id \<Rightarrow> bool" where
  "due now_ms entry \<longleftrightarrow> fst entry \<le> now_ms"

definition unknown_resolve :: "session_state \<Rightarrow> request_id \<Rightarrow> session_action list" where
  "unknown_resolve s i =
     (case om_get (ss_pending s) i of
        None \<Rightarrow> [] | Some p \<Rightarrow> [ActResolve (pq_ticket p) OcUnknown])"

lemma expire_one_frame [simp]:
  "ss_pending (snd (expire_one s i)) = ss_pending s"
  "ss_lifecycle (snd (expire_one s i)) = ss_lifecycle s"
  "ss_active_threads (snd (expire_one s i)) = ss_active_threads s"
  "ss_queued_threads (snd (expire_one s i)) = ss_queued_threads s"
  "ss_generation (snd (expire_one s i)) = ss_generation s"
  "ss_wire (snd (expire_one s i)) = ss_wire s"
  by (simp_all add: expire_one_def split: prod.split sum.split option.split)

lemma expire_due_frame [simp]:
  "ss_pending (snd (expire_due s now_ms)) = ss_pending s"
  "ss_lifecycle (snd (expire_due s now_ms)) = ss_lifecycle s"
  "ss_active_threads (snd (expire_due s now_ms)) = ss_active_threads s"
  "ss_queued_threads (snd (expire_due s now_ms)) = ss_queued_threads s"
  "ss_generation (snd (expire_due s now_ms)) = ss_generation s"
  "ss_wire (snd (expire_due s now_ms)) = ss_wire s"
  by (induction s rule: expire_due_induct; simp add: expire_due_Nil expire_due_Cons)+

lemma expire_one_actions:
  assumes "om_get (bk_entries (ss_book s)) i \<noteq> None"
  shows "fst (expire_one s i) = unknown_resolve s i"
  using assms
  by (auto simp: expire_one_def unknown_resolve_def book_mark_unknown_def split: option.split)

lemma deadline_iff:
  "session_wf s \<Longrightarrow> (d, i) \<in> set (ss_deadlines s) \<longleftrightarrow>
     (\<exists>p. om_get (ss_pending s) i = Some p \<and> pq_deadline_ms p = d \<and> d \<noteq> - 1
        \<and> book_pending (ss_book s) i)"
  by (simp add: session_wf_def)

lemma session_wf_deadline:
  assumes "session_wf s" "(d, i) \<in> set (ss_deadlines s)"
  shows "om_get (bk_entries (ss_book s)) i \<noteq> None" "om_get (ss_pending s) i \<noteq> None"
  using assms by (auto simp: session_wf_def book_pending_def split: option.splits)

text \<open>One pass reports the due deadlines in order and keeps the rest.\<close>

lemma expire_due_actions:
  "session_wf s \<Longrightarrow>
   fst (expire_due s now_ms) =
     concat (map (\<lambda>(d, i). unknown_resolve s i) (takeWhile (due now_ms) (ss_deadlines s))) \<and>
   ss_deadlines (snd (expire_due s now_ms)) = dropWhile (due now_ms) (ss_deadlines s)"
proof (induction s rule: expire_due_induct)
  case (Nil s)
  then show ?case by (simp add: expire_due_Nil)
next
  case (Cons s d i rest)
  let ?t = "snd (expire_head s i rest)"
  have "unknown_resolve ?t = unknown_resolve s" by (simp add: unknown_resolve_def fun_eq_iff)
  moreover have "fst (expire_head s i rest) = unknown_resolve s i"
    using expire_one_actions [of "s\<lparr>ss_deadlines := rest\<rparr>" i]
      session_wf_deadline(1) [OF Cons(3), of d i] Cons(1)
    by (simp add: unknown_resolve_def)
  ultimately show ?case
    using Cons(2) [OF expire_one_wf [OF Cons(3,1)]] Cons(1)
    by (simp add: expire_due_Cons due_def)
qed

section \<open>Reachable sessions\<close>

inductive session_reachable :: "to_writer \<Rightarrow> session_state \<Rightarrow> bool" for enc where
  start: "new_with_recovered_and_prefix enc generation w now_ms timeout_ms params recovered id_prefix =
      Inr (s, acts) \<Longrightarrow> session_reachable enc s"
| step: "session_reachable enc s \<Longrightarrow> session_reachable enc (snd (session_step enc s c))"

lemma reachable_wf: "session_reachable enc s \<Longrightarrow> session_wf s"
  by (induction rule: session_reachable.induct) (auto intro: new_session_wf session_step_wf)

text \<open>A Claude session used as the concrete instance: initialized, with one turn on a thread.\<close>

definition sample_enc :: to_writer where
  "sample_enc ms = Inr []"

definition sample_params :: json where
  "sample_params = JObject [(''capabilities'', JObject [(''experimentalApi'', JBool True)]),
     (''clientInfo'', JObject [(''name'', JString ''studio''), (''version'', JString ''1'')])]"

definition sample_start :: "session_error + session_state \<times> session_action list" where
  "sample_start = new_session sample_enc 7 (wire Claude) 0 100 sample_params"

definition sample_calls :: "session_call list" where
  "sample_calls =
     [CallReceive (Response (IdString (''claude:'' @ hex32 1)) (ResultBody JNull) []) (Some 5),
      CallSubmit (Some (Number 1)) ''turn/start'' JNull 10 20 (Some ''t'') False,
      CallSubmit (Some (Number 2)) ''turn/steer'' JNull 10 90 (Some ''t'') False]"

definition sample_session :: session_state where
  "sample_session = (case sample_start of Inl _ \<Rightarrow> new_session_state 0 (wire Codex) None
     | Inr (s, _) \<Rightarrow> snd (session_run sample_enc s sample_calls))"

lemma reachable_run: "session_reachable enc s \<Longrightarrow> session_reachable enc (snd (session_run enc s cs))"
  by (induction cs arbitrary: s) (auto simp: session_run_Cons intro: session_reachable.step)

lemma sample_start_ok: "\<exists>s acts. sample_start = Inr (s, acts)"
proof -
  have "is_ok sample_start" by code_simp
  then obtain r where "sample_start = Inr r" by (metis is_ok_simps(1) sum.exhaust)
  then show ?thesis by (cases r) blast
qed

lemma sample_session_reachable: "session_reachable sample_enc sample_session"
proof -
  obtain s acts where s: "sample_start = Inr (s, acts)" using sample_start_ok by blast
  then have "session_reachable sample_enc s"
    unfolding sample_start_def new_session_def new_with_recovered_def by (rule session_reachable.start)
  then show ?thesis unfolding sample_session_def s by (simp add: reachable_run)
qed

section \<open>Properties\<close>

text \<open>\<open>next_deadline_ms\<close> is the earliest finite deadline among the requests whose reply is still
  awaited, and it is absent exactly when there is no such request.\<close>

lemma next_deadline_is_earliest:
  assumes "session_reachable enc s"
  shows "next_deadline_ms s =
    (let ds = {d. \<exists>i p. om_get (ss_pending s) i = Some p \<and> pq_deadline_ms p = d \<and> d \<noteq> - 1
                 \<and> book_pending (ss_book s) i}
     in if ds = {} then None else Some (Min ds))"
proof -
  have wf: "session_wf s" by (rule reachable_wf [OF assms])
  define ds where "ds = {d. \<exists>i p. om_get (ss_pending s) i = Some p \<and> pq_deadline_ms p = d
      \<and> d \<noteq> - 1 \<and> book_pending (ss_book s) i}"
  have "d \<in> fst ` set (ss_deadlines s) \<longleftrightarrow> d \<in> ds" for d
  proof -
    have "d \<in> fst ` set (ss_deadlines s) \<longleftrightarrow> (\<exists>i. (d, i) \<in> set (ss_deadlines s))" by force
    then show ?thesis unfolding deadline_iff [OF wf] ds_def mem_Collect_eq by blast
  qed
  then have ds: "ds = fst ` set (ss_deadlines s)" by blast
  show ?thesis
  proof (cases "ss_deadlines s")
    case Nil
    then show ?thesis using ds by (simp add: next_deadline_ms_def ds_def)
  next
    case (Cons entry rest)
    have "os_wf (ss_deadlines s)" using wf by (simp add: session_wf_def)
    then have "entry \<le> e" if "e \<in> set (ss_deadlines s)" for e
      using os_wf_hd_le [OF _ that] Cons by simp
    then have "fst entry \<le> fst e" if "e \<in> set (ss_deadlines s)" for e
      using that by (meson less_eq_prod_def less_imp_le)
    then have "fst entry \<le> d" if "d \<in> ds" for d using that ds by auto
    moreover have "fst entry \<in> ds" "finite ds" using Cons ds by auto
    ultimately have "Min ds = fst entry" by (auto intro: Min_eqI)
    with \<open>fst entry \<in> ds\<close> Cons show ?thesis
      by (auto simp: next_deadline_ms_def ds_def [symmetric] Let_def split: prod.split)
  qed
qed

end
