(* ===== verification/Session_Outcomes.thy ===== *)
theory Session_Outcomes
  imports Session_Ledger
begin

text \<open>
  What a caller of the provider session learns about a request: which requests a deadline pass
  reports, what an accepted response reports, that no request is reported replied twice, that a
  lost connection reports every request once and then stays after_loss, and which errors cannot occur.
\<close>

section \<open>Deadline passes\<close>

lemma takeWhile_due: "sorted xs \<Longrightarrow> e \<in> set (takeWhile (due n) xs) \<longleftrightarrow> e \<in> set xs \<and> due n e"
proof (induction xs)
  case (Cons x xs)
  show ?case
  proof (cases "due n x")
    case True
    with Cons show ?thesis by auto
  next
    case False
    have "\<not> due n e" if "x \<le> e"
    proof -
      have "fst x \<le> fst e" using that by (auto simp: less_eq_prod_def)
      with False show ?thesis by (simp add: due_def)
    qed
    with False Cons.prems show ?thesis by auto
  qed
qed simp

lemma expire_due_pending:
  "session_wf s \<Longrightarrow>
   book_pending (ss_book (snd (expire_due s now_ms))) j \<longleftrightarrow>
     book_pending (ss_book s) j \<and> j \<notin> snd ` set (takeWhile (due now_ms) (ss_deadlines s))"
proof (induction s rule: expire_due_induct)
  case (Nil s)
  then show ?case by (simp add: expire_due_Nil)
next
  case (Cons s d i rest)
  have "om_get (bk_entries (ss_book s)) i \<noteq> None"
    using session_wf_deadline(1) [OF Cons(3), of d i] Cons(1) by simp
  then have "book_pending (ss_book (snd (expire_head s i rest))) j \<longleftrightarrow> j \<noteq> i \<and> book_pending (ss_book s) j"
    by (auto simp: expire_one_def book_mark_unknown_def book_pending_def split: option.splits)
  with Cons(2) [OF expire_one_wf [OF Cons(3,1)]] Cons(1) show ?case
    by (cases "d \<le> now_ms") (auto simp: expire_due_Cons due_def)
qed

definition live :: "session_state \<Rightarrow> bool" where
  "live s \<longleftrightarrow> ss_lifecycle s \<noteq> LcLost \<and> ss_lifecycle s \<noteq> LcClosed"

text \<open>The requests a deadline pass at \<open>now_ms\<close> has to report.\<close>

definition overdue :: "session_state \<Rightarrow> u64 \<Rightarrow> request_id \<Rightarrow> bool" where
  "overdue s now_ms i \<longleftrightarrow>
     (case om_get (ss_pending s) i of
        None \<Rightarrow> False
      | Some p \<Rightarrow> pq_deadline_ms p \<le> now_ms \<and> pq_deadline_ms p \<noteq> - 1 \<and> book_pending (ss_book s) i)"

lemma overdue_deadlines:
  assumes wf: "session_wf s"
  shows "overdue s now_ms i \<longleftrightarrow> i \<in> snd ` set (takeWhile (due now_ms) (ss_deadlines s))"
proof -
  have "sorted (ss_deadlines s)" using wf by (simp add: session_wf_def os_wf_def strict_sorted_imp_sorted)
  then have "i \<in> snd ` set (takeWhile (due now_ms) (ss_deadlines s)) \<longleftrightarrow>
      (\<exists>d. (d, i) \<in> set (ss_deadlines s) \<and> d \<le> now_ms)"
    by (force simp: takeWhile_due due_def image_iff)
  then show ?thesis
    unfolding deadline_iff [OF wf] by (auto simp: overdue_def split: option.split)
qed

text \<open>Deadlines and ids correspond, so the due ids are reported once each.\<close>

lemma deadline_ids_distinct:
  assumes wf: "session_wf s"
  shows "distinct (map snd (ss_deadlines s))"
proof -
  have "distinct (ss_deadlines s)" using wf by (simp add: session_wf_def os_wf_distinct)
  moreover have "inj_on snd (set (ss_deadlines s))"
    by (rule inj_onI) (auto simp: deadline_iff [OF wf])
  ultimately show ?thesis by (simp add: distinct_map)
qed

definition ticket_of :: "session_state \<Rightarrow> request_id \<Rightarrow> request_ticket option" where
  "ticket_of s i = map_option pq_ticket (om_get (ss_pending s) i)"

lemma expire_due_ids:
  assumes wf: "session_wf s"
  shows "\<exists>is. distinct is \<and> (\<forall>i. i \<in> set is \<longleftrightarrow> overdue s now_ms i) \<and>
    fst (expire_due s now_ms) = map (\<lambda>i. ActResolve (the (ticket_of s i)) OcUnknown) is"
proof (intro exI conjI allI)
  let ?due = "takeWhile (due now_ms) (ss_deadlines s)"
  have "distinct (map snd (takeWhile (due now_ms) (ss_deadlines s) @ dropWhile (due now_ms) (ss_deadlines s)))"
    using deadline_ids_distinct [OF wf] by simp
  then show "distinct (map snd ?due)" unfolding map_append by simp
  show "i \<in> set (map snd ?due) \<longleftrightarrow> overdue s now_ms i" for i using overdue_deadlines [OF wf] by simp
  have "unknown_resolve s i = [ActResolve (the (ticket_of s i)) OcUnknown]" if "(d, i) \<in> set ?due" for d i
    using session_wf_deadline(2) [OF wf set_takeWhileD [OF that, THEN conjunct1]]
    by (auto simp: unknown_resolve_def ticket_of_def)
  then have "map (\<lambda>(d, i). unknown_resolve s i) ?due =
      map (\<lambda>e. [ActResolve (the (ticket_of s (snd e))) OcUnknown]) ?due"
    by (intro map_cong) auto
  then show "fst (expire_due s now_ms) = map (\<lambda>i. ActResolve (the (ticket_of s i)) OcUnknown) (map snd ?due)"
    using expire_due_actions [OF wf, of now_ms] by (simp only: concat_map_singleton map_map comp_def)
qed

lemma expire_due_again:
  assumes "session_wf s"
  shows "expire_due (snd (expire_due s now_ms)) now_ms = ([], snd (expire_due s now_ms))"
proof -
  let ?t = "snd (expire_due s now_ms)"
  have ds: "ss_deadlines ?t = dropWhile (due now_ms) (ss_deadlines s)"
    using expire_due_actions [OF assms] by blast
  show ?thesis
  proof (cases "ss_deadlines ?t")
    case Nil
    then show ?thesis by (rule expire_due_Nil)
  next
    case (Cons entry rest)
    obtain d i where e: "entry = (d, i)" by force
    have "dropWhile (due now_ms) (ss_deadlines s) = entry # rest" using ds Cons by simp
    then have "\<not> due now_ms entry" unfolding dropWhile_eq_Cons_conv by simp
    then have "\<not> d \<le> now_ms" using e by (simp add: due_def)
    with Cons e show ?thesis by (simp add: expire_due_Cons)
  qed
qed

section \<open>Responses\<close>

lemma pop_waiting_Some:
  "pop_waiting pending queue = Some (i, p, rest) \<Longrightarrow> om_get pending i = Some p"
  by (induction pending queue rule: pop_waiting.induct) (auto split: option.splits)

lemma write_request_failed:
  "write_request s ticket = (Inl e, s') \<longleftrightarrow>
     om_get (ss_pending s) (tk_id ticket) = None \<and> e = SeMissingRequest \<and> s' = s"
  by (auto simp: write_request_def split: option.splits)

lemma release_thread_ok:
  assumes wf: "session_wf s"
  obtains acts s' where "release_thread s thread i = (Inr acts, s')"
proof (cases "release_thread s thread i")
  case (Pair r s')
  have "False" if "r = Inl e" for e
    using Pair that
    by (auto simp: release_thread_def Let_def write_request_failed session_wf_ticket(1) [OF wf]
        split: option.splits if_splits prod.splits sum.splits dest!: pop_waiting_Some)
  then show thesis using Pair that by (cases r) auto
qed

lemma write_request_keys:
  "write_request s ticket = (r, s') \<Longrightarrow> ss_book s' = ss_book s \<and> ss_lifecycle s' = ss_lifecycle s \<and>
     (om_get (ss_pending s') j = None \<longleftrightarrow> om_get (ss_pending s) j = None)"
  by (auto simp: write_request_def split: option.splits if_splits)

lemma release_thread_keys:
  "release_thread s thread i = (r, s') \<Longrightarrow> ss_book s' = ss_book s \<and> ss_lifecycle s' = ss_lifecycle s \<and>
     (om_get (ss_pending s') j = None \<longleftrightarrow> om_get (ss_pending s) j = None)"
  by (auto simp: release_thread_def Let_def split: option.splits if_splits prod.splits sum.splits
      dest: write_request_keys [where j = j])

lemma settle_initialize_keys:
  "settle_initialize s method body = (acts, s') \<Longrightarrow> ss_pending s' = ss_pending s"
  by (auto simp: settle_initialize_def mark_unknown_def split: if_splits response_body.splits)

text \<open>
  A response settles a pending request at once: the reply is reported, the initialization is
  settled, and then the thread of the request is released.
\<close>

definition reply_late :: "session_state \<Rightarrow> request_id \<Rightarrow> pending_request \<Rightarrow> u64 option \<Rightarrow> bool" where
  "reply_late s i p at = (case at of None \<Rightarrow> \<not> book_pending (ss_book s) i | Some t \<Rightarrow> pq_deadline_ms p \<le> t)"

lemma receive_response_steps:
  assumes wf: "session_wf s" and p: "om_get (ss_pending s) i = Some p"
    and rec: "receive_response s i body at = (r, s')"
  obtains b t first u released where "remove_pending (s\<lparr>ss_book := b\<rparr>) i = (Some p, t)" "session_wf t"
    "settle_initialize t (tk_method (pq_ticket p)) body = (first, u)"
    "pq_serialized p \<and> pq_thread_id p \<noteq> None \<and> release_thread u (the (pq_thread_id p)) i = (Inr released, s')
      \<or> \<not> (pq_serialized p \<and> pq_thread_id p \<noteq> None) \<and> released = [] \<and> s' = u"
    "r = Inr (ActResolve (pq_ticket p) (OcReply body (reply_late s i p at)) # first @ released)"
proof -
  have book: "book_wf (ss_book s)" using wf by (simp add: session_wf_def)
  have open': "ss_lifecycle s \<noteq> LcClosed" using wf p by (auto simp: session_wf_def)
  obtain e where e: "om_get (bk_entries (ss_book s)) i = Some e"
    using session_wf_book [OF wf open', of i] p by auto
  obtain m b where m: "observe_response (ss_book s) i = (Inr m, b)"
    and late: "(case m of MatchLate _ \<Rightarrow> True | _ \<Rightarrow> False) = (\<not> book_pending (ss_book s) i)"
    using e entry_state [OF book e]
    by (cases "be_state e") (auto simp: observe_response_def Let_def book_pending_def)
  obtain t where t: "remove_pending (s\<lparr>ss_book := b\<rparr>) i = (Some p, t)"
    using p by (simp add: remove_pending_def)
  have t_wf: "session_wf t"
    using retired_wf [OF wf observe_response_retires [OF m] observe_response_wf [OF book m] p] t by simp
  obtain first u where u: "settle_initialize t (tk_method (pq_ticket p)) body = (first, u)" by force
  have u_wf: "session_wf u" by (rule settle_initialize_wf [OF t_wf u])
  have i: "tk_id (pq_ticket p) = i" by (rule session_wf_ticket(1) [OF wf p])
  show thesis
  proof (cases "pq_serialized p \<and> pq_thread_id p \<noteq> None")
    case False
    with rec m t u late show thesis
      by (intro that [OF t t_wf u, of "[]"])
        (auto simp: receive_response_def reply_late_def Let_def split: option.splits)
  next
    case True
    then obtain thread where thread: "pq_thread_id p = Some thread" by auto
    obtain released v where v: "release_thread u thread i = (Inr released, v)"
      using release_thread_ok [OF u_wf] .
    with True rec m t u thread late i show thesis
      by (intro that [OF t t_wf u, of released])
        (auto simp: receive_response_def reply_late_def Let_def split: option.splits)
  qed
qed

lemma receive_response_ok:
  assumes wf: "session_wf s" and p: "om_get (ss_pending s) i = Some p"
    and rec: "receive_response s i body at = (r, s')"
  shows "\<exists>rest. r = Inr (ActResolve (pq_ticket p) (OcReply body (reply_late s i p at)) # rest)"
    and "om_get (ss_pending s') j = None \<longleftrightarrow> j = i \<or> om_get (ss_pending s) j = None"
proof -
  obtain b t first u released where t: "remove_pending (s\<lparr>ss_book := b\<rparr>) i = (Some p, t)"
    and u: "settle_initialize t (tk_method (pq_ticket p)) body = (first, u)"
    and v: "pq_serialized p \<and> pq_thread_id p \<noteq> None \<and> release_thread u (the (pq_thread_id p)) i = (Inr released, s')
      \<or> \<not> (pq_serialized p \<and> pq_thread_id p \<noteq> None) \<and> released = [] \<and> s' = u"
    and r: "r = Inr (ActResolve (pq_ticket p) (OcReply body (reply_late s i p at)) # first @ released)"
    by (rule receive_response_steps [OF assms])
  have "om_get (ss_pending t) j = None \<longleftrightarrow> j = i \<or> om_get (ss_pending s) j = None"
    using t by (auto simp: remove_pending_def split: option.splits if_splits)
  with v settle_initialize_keys [OF u]
  show "om_get (ss_pending s') j = None \<longleftrightarrow> j = i \<or> om_get (ss_pending s) j = None"
    using release_thread_keys [of u "the (pq_thread_id p)" i _ s' j] by auto
  show "\<exists>rest. r = Inr (ActResolve (pq_ticket p) (OcReply body (reply_late s i p at)) # rest)"
    using r by blast
qed

text \<open>A response to anything else is swallowed.\<close>

lemma receive_response_stray:
  assumes wf: "session_wf s" and p: "om_get (ss_pending s) i = None" and "ss_lifecycle s \<noteq> LcClosed"
  shows "receive_response s i body at = (Inr [], s)"
  using assms session_wf_book [OF wf, of i]
  by (auto simp: receive_response_def observe_response_def)

text \<open>What follows the report of a reply.\<close>

definition initialize_follow_up ::
  "session_state \<Rightarrow> request_id \<Rightarrow> pending_request \<Rightarrow> response_body \<Rightarrow> session_action list" where
  "initialize_follow_up s i p body =
     (if tk_method (pq_ticket p) = ''initialize'' \<and> ss_lifecycle s = LcInitializing
      then case body of
             ResultBody _ \<Rightarrow> [ActWrite (Notification \<lparr>nf_method = ''initialized'', nf_params = None, nf_fields = []\<rparr>)]
           | ErrorBody _ \<Rightarrow> map (\<lambda>j. ActResolve (the (ticket_of s j)) OcUnknown)
               (filter (\<lambda>j. j \<noteq> i) (om_keys (ss_pending s))) @ [ActGenerationClosed (ss_generation s)]
      else [])"

definition hands_over :: "session_state \<Rightarrow> pending_request \<Rightarrow> session_action list \<Rightarrow> bool" where
  "hands_over s p acts \<longleftrightarrow> acts = [] \<or>
     (\<exists>thread j q. pq_serialized p \<and> pq_thread_id p = Some thread \<and> om_get (ss_pending s) j = Some q \<and>
        acts = [ActThreadReleased thread (pq_ticket q), ActWrite (Request \<lparr>rf_id = j,
          rf_method = tk_method (pq_ticket q), rf_params = Some (pq_params q), rf_fields = []\<rparr>)])"

lemma release_thread_actions:
  assumes wf: "session_wf s" and "release_thread s thread i = (Inr acts, s')"
  shows "acts = [] \<or> (\<exists>j q. om_get (ss_pending s) j = Some q \<and>
    acts = [ActThreadReleased thread (pq_ticket q), ActWrite (Request \<lparr>rf_id = j,
      rf_method = tk_method (pq_ticket q), rf_params = Some (pq_params q), rf_fields = []\<rparr>)])"
  using assms(2)
  by (auto simp: release_thread_def Let_def write_request_def session_wf_ticket(1) [OF wf]
      split: option.splits if_splits prod.splits sum.splits dest!: pop_waiting_Some)

lemma settle_initialize_actions:
  assumes "om_wf (ss_pending s)" "remove_pending (s\<lparr>ss_book := b\<rparr>) i = (Some p, t)"
    and "settle_initialize t (tk_method (pq_ticket p)) body = (first, u)"
  shows "first = initialize_follow_up s i p body"
proof -
  have t: "ss_pending t = om_remove i (ss_pending s)" "ss_lifecycle t = ss_lifecycle s"
    "ss_generation t = ss_generation s"
    using assms(2) by (auto simp: remove_pending_def split: option.splits)
  have "map (\<lambda>(_, p). ActResolve (pq_ticket p) OcUnknown) (om_remove i (ss_pending s)) =
      map (\<lambda>j. ActResolve (the (ticket_of s j)) OcUnknown) (filter (\<lambda>j. j \<noteq> i) (om_keys (ss_pending s)))"
    by (auto simp: om_remove_def filter_map comp_def ticket_of_def case_prod_beta
        om_get_in [OF assms(1), symmetric])
  with assms(3) t show ?thesis
    by (auto simp: initialize_follow_up_def settle_initialize_def mark_unknown_def split: if_splits response_body.splits)
qed

lemma receive_response_actions:
  assumes wf: "session_wf s" and p: "om_get (ss_pending s) i = Some p"
    and rec: "receive_response s i body at = (r, s')"
  shows "\<exists>released. r = Inr (ActResolve (pq_ticket p) (OcReply body (reply_late s i p at)) #
    initialize_follow_up s i p body @ released) \<and> hands_over s p released"
proof -
  obtain b t first u released where t: "remove_pending (s\<lparr>ss_book := b\<rparr>) i = (Some p, t)" "session_wf t"
    and u: "settle_initialize t (tk_method (pq_ticket p)) body = (first, u)"
    and v: "pq_serialized p \<and> pq_thread_id p \<noteq> None \<and> release_thread u (the (pq_thread_id p)) i = (Inr released, s')
      \<or> \<not> (pq_serialized p \<and> pq_thread_id p \<noteq> None) \<and> released = [] \<and> s' = u"
    and r: "r = Inr (ActResolve (pq_ticket p) (OcReply body (reply_late s i p at)) # first @ released)"
    by (rule receive_response_steps [OF assms])
  have u_wf: "session_wf u" by (rule settle_initialize_wf [OF t(2) u])
  have pend: "om_get (ss_pending s) j = Some q" if "om_get (ss_pending u) j = Some q" for j q
    using that t(1) settle_initialize_keys [OF u] by (auto simp: remove_pending_def split: option.splits if_splits)
  have "hands_over s p released"
    using v release_thread_actions [OF u_wf, of "the (pq_thread_id p)" i released s'] pend
    unfolding hands_over_def by fastforce
  moreover have "om_wf (ss_pending s)" using wf by (simp add: session_wf_def)
  ultimately show ?thesis using r settle_initialize_actions [OF _ t(1) u] by blast
qed

section \<open>Replies are reported once\<close>

fun reply_of :: "session_action \<Rightarrow> request_id option" where
  "reply_of (ActResolve ticket (OcReply body late)) = Some (tk_id ticket)"
| "reply_of _ = None"

definition no_reply :: "session_action list \<Rightarrow> bool" where
  "no_reply acts \<longleftrightarrow> (\<forall>a \<in> set acts. reply_of a = None)"

lemma no_reply_simps [simp]:
  "no_reply []" "no_reply (a # acts) \<longleftrightarrow> reply_of a = None \<and> no_reply acts"
  "no_reply (xs @ ys) \<longleftrightarrow> no_reply xs \<and> no_reply ys"
  by (auto simp: no_reply_def)

lemma write_request_no_reply: "write_request s ticket = (Inr acts, s') \<Longrightarrow> no_reply acts"
  by (auto simp: write_request_def split: option.splits)

lemma release_thread_no_reply: "release_thread s thread i = (Inr acts, s') \<Longrightarrow> no_reply acts"
  by (auto simp: release_thread_def Let_def split: option.splits if_splits prod.splits sum.splits
      dest: write_request_no_reply)

lemma mark_unknown_no_reply: "no_reply (fst (mark_unknown s lc))"
  by (auto simp: mark_unknown_def no_reply_def)

lemma settle_initialize_no_reply: "settle_initialize s method body = (acts, s') \<Longrightarrow> no_reply acts"
  using mark_unknown_no_reply [of "s\<lparr>ss_initialization_status := InRefused\<rparr>" LcLost]
  by (auto simp: settle_initialize_def split: if_splits response_body.splits)

lemma expire_due_no_reply: "no_reply (fst (expire_due s now_ms))"
  by (induction s rule: expire_due_induct)
    (auto simp: expire_due_Nil expire_due_Cons expire_one_def split: prod.splits sum.splits option.splits)

lemma remove_request_no_reply: "remove_request s ticket = (Inr acts, s') \<Longrightarrow> no_reply acts"
  by (auto simp: remove_request_def split: option.splits if_splits prod.splits dest: release_thread_no_reply)

lemma submit_no_reply:
  "submit_with_id_inner enc s requested method params now_ms timeout_ms thread_id light =
     (Inr (ticket, acts), s') \<Longrightarrow> no_reply acts"
  by (auto simp: submit_with_id_inner_def start_request_def Let_def
      split: if_splits prod.splits sum.splits option.splits dest: write_request_no_reply)

lemma receive_response_replies:
  assumes "session_wf s" "om_get (ss_pending s) i = Some p"
    and "receive_response s i body at = (Inr (a # rest), s')"
  shows "no_reply rest"
  using assms
  by (auto simp: receive_response_def Let_def split: option.splits if_splits prod.splits sum.splits
      dest: settle_initialize_no_reply release_thread_no_reply)

definition replies :: "request_id \<Rightarrow> session_action list \<Rightarrow> nat" where
  "replies i acts = length (filter (\<lambda>a. reply_of a = Some i) acts)"

lemma replies_simps [simp]:
  "replies i [] = 0" "replies i (xs @ ys) = replies i xs + replies i ys"
  "replies i (a # xs) = (if reply_of a = Some i then Suc (replies i xs) else replies i xs)"
  by (simp_all add: replies_def)

lemma no_reply_replies: "no_reply acts \<Longrightarrow> replies i acts = 0"
  by (auto simp: no_reply_def replies_def filter_empty_conv)

definition is_pending :: "session_state \<Rightarrow> request_id \<Rightarrow> nat" where
  "is_pending s i = (if om_get (ss_pending s) i = None then 0 else 1)"

text \<open>The times a run takes up a request under the id \<open>i\<close>, by submission or restoration.\<close>

fun registrations :: "to_writer \<Rightarrow> request_id \<Rightarrow> session_state \<Rightarrow> session_call list \<Rightarrow> nat" where
  "registrations enc i s [] = 0"
| "registrations enc i s (c # cs) =
     (let s' = snd (session_step enc s c) in
      (if om_get (ss_pending s) i = None \<and> om_get (ss_pending s') i \<noteq> None then 1 else 0)
        + registrations enc i s' cs)"

lemma session_step_no_reply:
  assumes "\<And>f at. c \<noteq> CallReceive f at"
  shows "no_reply (fst (session_step enc s c))"
proof (cases c)
  case (CallExpire now_ms)
  then show ?thesis
    using expire_due_no_reply [of s now_ms] by (simp add: expire_def Let_def split: prod.splits)
next
  case (CallCancel ticket)
  then show ?thesis
    by (auto simp: ok_actions_def cancel_request_def split: prod.splits sum.splits if_splits
        dest: remove_request_no_reply)
next
  case (CallRejectUnsent ticket)
  then show ?thesis
    by (auto simp: ok_actions_def reject_unsent_request_def split: prod.splits sum.splits if_splits
        dest: remove_request_no_reply)
qed (use assms mark_unknown_no_reply in \<open>auto simp: transport_lost_def close_session_def
       split: prod.splits sum.splits dest: submit_no_reply\<close>)

lemma reply_step:
  assumes wf: "session_wf s"
  shows "replies i (fst (session_step enc s c)) = 0 \<or>
    replies i (fst (session_step enc s c)) = 1 \<and> om_get (ss_pending s) i \<noteq> None \<and>
      om_get (ss_pending (snd (session_step enc s c))) i = None"
proof (cases "\<exists>j body fields at. c = CallReceive (Response j body fields) at \<and> ss_lifecycle s \<noteq> LcClosed")
  case False
  then have "no_reply (fst (session_step enc s c))"
    using session_step_no_reply [of c enc s]
    by (cases c) (auto simp: receive_inner_def ok_actions_def split: frame.splits if_splits)
  then show ?thesis by (simp add: no_reply_replies)
next
  case True
  then obtain j body fields at where c: "c = CallReceive (Response j body fields) at"
    "ss_lifecycle s \<noteq> LcClosed" by blast
  obtain r s' where r: "receive_response s j body at = (r, s')" by force
  show ?thesis
  proof (cases "om_get (ss_pending s) j")
    case None
    with c receive_response_stray [OF wf] show ?thesis by (simp add: receive_inner_def ok_actions_def)
  next
    case (Some p)
    obtain late rest where rest: "r = Inr (ActResolve (pq_ticket p) (OcReply body late) # rest)"
      using receive_response_ok(1) [OF wf Some r] by blast
    then have "no_reply rest" using receive_response_replies [OF wf Some] r by blast
    then show ?thesis
      using rest c r Some receive_response_ok(2) [OF wf Some r] session_wf_ticket(1) [OF wf Some]
      by (auto simp: receive_inner_def ok_actions_def no_reply_replies)
  qed
qed

lemma reply_count:
  "session_wf s \<Longrightarrow> replies i (fst (session_run enc s cs)) + is_pending (snd (session_run enc s cs)) i
     \<le> is_pending s i + registrations enc i s cs"
proof (induction cs arbitrary: s)
  case (Cons c cs)
  let ?t = "snd (session_step enc s c)"
  have "replies i (fst (session_step enc s c)) + is_pending ?t i \<le> is_pending s i +
      (if om_get (ss_pending s) i = None \<and> om_get (ss_pending ?t) i \<noteq> None then 1 else 0)"
    using reply_step [OF Cons.prems, of i enc c] by (auto simp: is_pending_def)
  with Cons.IH [OF session_step_wf [OF Cons.prems], of enc c] show ?case
    by (simp add: session_run_Cons Let_def)
qed simp

section \<open>After the connection is lost\<close>

definition lost :: "session_state \<Rightarrow> bool" where
  "lost s \<longleftrightarrow> (ss_lifecycle s = LcLost \<or> ss_lifecycle s = LcClosed) \<and>
     ss_active_threads s = [] \<and> ss_queued_threads s = []"

text \<open>The actions a lost session still produces: replies that arrive after the loss and frames to dispatch.\<close>

fun after_loss :: "session_action \<Rightarrow> bool" where
  "after_loss (ActResolve ticket (OcReply body late)) = True"
| "after_loss (ActDispatch f) = True"
| "after_loss _ = False"

lemma lost_release: "lost s \<Longrightarrow> release_thread s thread i = (Inr [], s)"
  by (simp add: lost_def release_thread_def)

lemma lost_settle: "lost s \<Longrightarrow> settle_initialize s method body = ([], s)"
  by (auto simp: lost_def settle_initialize_def)

lemma lost_frame [simp]:
  "lost (s\<lparr>ss_book := b\<rparr>) = lost s" "lost (s\<lparr>ss_pending := p\<rparr>) = lost s"
  "lost (s\<lparr>ss_deadlines := d\<rparr>) = lost s" "lost (s\<lparr>ss_initialization_status := st\<rparr>) = lost s"
  by (simp_all add: lost_def)

lemma lost_remove_pending: "lost s \<Longrightarrow> remove_pending s i = (p, s') \<Longrightarrow> lost s'"
  by (auto simp: remove_pending_def split: option.splits)

lemma lost_remove_request:
  assumes "lost s" "remove_request s ticket = (r, s')"
  shows "r = Inr [] \<and> lost s'"
proof -
  obtain p t where t: "remove_pending s (tk_id ticket) = (p, t)" by force
  have "lost t" by (rule lost_remove_pending [OF assms(1) t])
  moreover from this have "ss_active_threads t = []" "ss_queued_threads t = []"
    by (simp_all add: lost_def)
  ultimately show ?thesis
    using assms(2) t by (auto simp: remove_request_def split: option.splits if_splits)
qed

lemma lost_receive_response:
  assumes "lost s" "receive_response s i body at = (r, s')"
  shows "list_all after_loss (fst (ok_actions (r, s'))) \<and> lost s'"
proof -
  obtain m b where m: "observe_response (ss_book s) i = (m, b)" by force
  obtain p t where t: "remove_pending (s\<lparr>ss_book := b\<rparr>) i = (p, t)" by force
  have "lost t" using lost_remove_pending [OF _ t] assms(1) by simp
  then show ?thesis
    using assms m t
    by (auto simp: receive_response_def ok_actions_def Let_def lost_settle lost_release
        split: if_splits sum.splits option.splits)
qed

lemma lost_receive:
  assumes "lost s" "receive_inner s f at = (r, s')"
  shows "list_all after_loss (fst (ok_actions (r, s'))) \<and> lost s'"
  using assms lost_receive_response [OF assms(1)]
  by (auto simp: receive_inner_def ok_actions_def split: if_splits frame.splits)

lemma lost_step:
  assumes "lost s"
  shows "list_all after_loss (fst (session_step enc s c)) \<and> lost (snd (session_step enc s c))"
proof (cases c)
  case (CallReceive f at)
  then show ?thesis using lost_receive [OF assms prod.collapse [symmetric]] by simp
next
  case (CallCancel ticket)
  then show ?thesis
    using assms by (auto simp: cancel_request_def ok_actions_def split: prod.splits sum.splits
        dest!: lost_remove_request [rotated])
next
  case (CallRejectUnsent ticket)
  then show ?thesis
    using assms by (auto simp: reject_unsent_request_def ok_actions_def split: prod.splits sum.splits
        dest!: lost_remove_request [rotated])
next
  case (CallRestore ticket thread_id d unknown light)
  then show ?thesis
    using assms by (auto simp: restore_request_def track_existing_request_until_def lost_def Let_def)
qed (use assms in \<open>auto simp: submit_with_id_inner_def lost_def expire_def transport_lost_def
       close_session_def mark_unknown_def mark_initialized_notification_written_def
       split: initialization_status.splits\<close>)

lemma lost_run: "lost s \<Longrightarrow> list_all after_loss (fst (session_run enc s cs))"
  by (induction cs arbitrary: s) (simp_all add: session_run_Cons lost_step)

section \<open>Properties\<close>

text \<open>C24: one deadline pass of a live session reports as unknown exactly the requests whose finite
  deadline has passed and whose reply is still awaited, each once, says so in its result, and marks
  exactly these unknown. They stay pending for a late reply, and an immediate second pass reports
  nothing.\<close>

theorem expire_reports_overdue:
  assumes "session_reachable enc s" "live s" "expire s now_ms = (r, acts, s')"
  shows "(\<exists>is. distinct is \<and> (\<forall>i. i \<in> set is \<longleftrightarrow> overdue s now_ms i)
        \<and> acts = map (\<lambda>i. ActResolve (the (ticket_of s i)) OcUnknown) is
        \<and> r = (if is = [] then Inr () else Inl SeDeadlineUnknown))
    \<and> (\<forall>i. book_pending (ss_book s') i \<longleftrightarrow> book_pending (ss_book s) i \<and> \<not> overdue s now_ms i)
    \<and> ss_pending s' = ss_pending s \<and> expire s' now_ms = (Inr (), [], s')"
proof -
  have wf: "session_wf s" by (rule reachable_wf [OF assms(1)])
  let ?due = "takeWhile (due now_ms) (ss_deadlines s)"
  have r: "r = (if ?due = [] then Inr () else Inl SeDeadlineUnknown)"
    and acts: "acts = fst (expire_due s now_ms)" and s': "s' = snd (expire_due s now_ms)"
    using assms(2,3)
    by (auto simp: expire_def live_def Let_def due_def split: prod.splits list.splits if_splits)
  obtain "is" where ids: "distinct is" "\<And>i. i \<in> set is \<longleftrightarrow> overdue s now_ms i"
    "acts = map (\<lambda>i. ActResolve (the (ticket_of s i)) OcUnknown) is"
    using expire_due_ids [OF wf, of now_ms] acts by blast
  have "set is = snd ` set ?due" using ids(2) overdue_deadlines [OF wf, of now_ms] by blast
  then have "is = [] \<longleftrightarrow> ?due = []" by (metis image_is_empty set_empty)
  with ids r have "\<exists>is. distinct is \<and> (\<forall>i. i \<in> set is \<longleftrightarrow> overdue s now_ms i)
      \<and> acts = map (\<lambda>i. ActResolve (the (ticket_of s i)) OcUnknown) is
      \<and> r = (if is = [] then Inr () else Inl SeDeadlineUnknown)" by auto
  moreover have "\<forall>i. book_pending (ss_book s') i \<longleftrightarrow> book_pending (ss_book s) i \<and> \<not> overdue s now_ms i"
    using expire_due_pending [OF wf, of now_ms] overdue_deadlines [OF wf, of now_ms] s' by simp
  moreover have "\<not> d \<le> now_ms" if "ss_deadlines s' = (d, i) # rest" for d i rest
  proof -
    have "dropWhile (due now_ms) (ss_deadlines s) = (d, i) # rest"
      using expire_due_actions [OF wf, of now_ms] s' that by simp
    then show ?thesis unfolding dropWhile_eq_Cons_conv by (simp add: due_def)
  qed
  then have "expire s' now_ms = (Inr (), [], s')"
    using expire_due_again [OF wf, of now_ms] assms(2) s'
    by (auto simp: expire_def live_def split: list.splits)
  ultimately show ?thesis by (simp add: s')
qed

theorem expire_reports_overdue_witness:
  "fst (snd (expire sample_session 40)) =
     [ActResolve \<lparr>tk_generation = 7, tk_id = Number 1, tk_method = ''turn/start''\<rparr> OcUnknown] \<and>
   expire (snd (snd (expire sample_session 40))) 40 = (Inr (), [], snd (snd (expire sample_session 40)))"
proof -
  have "live sample_session" by code_simp
  moreover have "fst (snd (expire sample_session 40)) =
     [ActResolve \<lparr>tk_generation = 7, tk_id = Number 1, tk_method = ''turn/start''\<rparr> OcUnknown]" by code_simp
  moreover have "expire sample_session 40 = (fst (expire sample_session 40),
      fst (snd (expire sample_session 40)), snd (snd (expire sample_session 40)))" by simp
  ultimately show ?thesis
    using expire_reports_overdue [OF sample_session_reachable] by blast
qed

text \<open>C23: the response to a pending request succeeds. It reports the reply first, on the request's own
  ticket; the reply is late when it arrived at or after the deadline, or, without an arrival time,
  when the request was already unknown. What follows is the settlement of the initialization and the
  hand-over of the thread: the initialized notification when the response accepts the initialization of
  an initializing session, the report of every other pending request as unknown with the close of the
  generation when it refuses it, and at most one waiting request, released and written. Exactly the
  answered request is no longer pending, so that a response to it changes and reports nothing.\<close>

theorem response_resolves_request:
  assumes "session_reachable enc s" "om_get (ss_pending s) i = Some p"
    and "receive_inner s (Response i body extra) received_at = (r, s')"
  shows "(\<exists>released. r = Inr (ActResolve (pq_ticket p) (OcReply body (reply_late s i p received_at)) #
        initialize_follow_up s i p body @ released) \<and> hands_over s p released)
    \<and> tk_id (pq_ticket p) = i
    \<and> (\<forall>j. om_get (ss_pending s') j = None \<longleftrightarrow> j = i \<or> om_get (ss_pending s) j = None)
    \<and> receive_inner s' (Response i body' extra') received_at' = (Inr [], s')"
proof -
  have wf: "session_wf s" by (rule reachable_wf [OF assms(1)])
  have "ss_lifecycle s \<noteq> LcClosed" using wf assms(2) by (auto simp: session_wf_def)
  then have rec: "receive_response s i body received_at = (r, s')"
    using assms(3) by (simp add: receive_inner_def)
  have s': "session_wf s'" by (rule receive_wf [OF wf assms(3)])
  have gone: "om_get (ss_pending s') j = None \<longleftrightarrow> j = i \<or> om_get (ss_pending s) j = None" for j
    by (rule receive_response_ok(2) [OF wf assms(2) rec])
  then have "receive_inner s' (Response i body' extra') received_at' = (Inr [], s')"
    using receive_response_stray [OF s'] by (simp add: receive_inner_def)
  with receive_response_actions [OF wf assms(2) rec] gone session_wf_ticket(1) [OF wf assms(2)]
  show ?thesis by blast
qed

definition sample_turn :: request_ticket where
  "sample_turn = \<lparr>tk_generation = 7, tk_id = Number 1, tk_method = ''turn/start''\<rparr>"

theorem response_resolves_request_witness:
  "\<exists>rest s'. receive_inner sample_session (Response (Number 1) (ResultBody JNull) []) (Some 30) =
      (Inr (ActResolve sample_turn (OcReply (ResultBody JNull) True) # rest), s') \<and>
     receive_inner s' (Response (Number 1) (ErrorBody JNull) []) None = (Inr [], s')"
proof -
  have "om_get (ss_pending sample_session) (Number 1) = Some \<lparr>pq_ticket = sample_turn, pq_params = JNull,
      pq_deadline_ms = 30, pq_thread_id = Some ''t'', pq_serialized = True\<rparr>" by code_simp
  from response_resolves_request [OF sample_session_reachable this prod.collapse [symmetric],
      of "ResultBody JNull" "[]" "Some 30" "ErrorBody JNull" "[]" None]
  obtain rest where
    "fst (receive_inner sample_session (Response (Number 1) (ResultBody JNull) []) (Some 30)) =
       Inr (ActResolve sample_turn (OcReply (ResultBody JNull) True) # rest)"
    and "receive_inner (snd (receive_inner sample_session (Response (Number 1) (ResultBody JNull) []) (Some 30)))
       (Response (Number 1) (ErrorBody JNull) []) None = (Inr [],
         snd (receive_inner sample_session (Response (Number 1) (ResultBody JNull) []) (Some 30)))"
    by (auto simp: reply_late_def)
  then show ?thesis by (intro exI conjI) (rule prod_eqI, simp_all)
qed

text \<open>C21: in every run of a session, the replies reported under an id, with one more when the id is
  still pending at the end, are no more than the requests taken up under it, with one more when it was
  pending at the start. Reports of an unknown outcome are not replies and are not counted.\<close>

theorem replies_at_most_once:
  assumes "session_reachable enc s"
  shows "replies i (fst (session_run enc s calls)) + is_pending (snd (session_run enc s calls)) i
    \<le> is_pending s i + registrations enc i s calls"
  by (rule reply_count [OF reachable_wf [OF assms]])

theorem replies_at_most_once_witness:
  "let answer = CallReceive (Response (Number 1) (ResultBody JNull) []) None in
   replies (Number 1) (fst (session_run sample_enc sample_session [answer, answer, CallLost, answer])) = 1"
proof -
  let ?answer = "CallReceive (Response (Number 1) (ResultBody JNull) []) None"
  let ?calls = "[?answer, ?answer, CallLost, ?answer]"
  have "registrations sample_enc (Number 1) sample_session ?calls = 0" by code_simp
  moreover have "is_pending sample_session (Number 1) = 1" by code_simp
  moreover have "replies (Number 1) (fst (session_run sample_enc sample_session [?answer])) = 1" by code_simp
  ultimately show ?thesis
    using replies_at_most_once [OF sample_session_reachable, of "Number 1" ?calls]
    by (simp add: session_run_Cons Let_def)
qed

text \<open>C22: losing the connection of a live session reports every pending request as unknown, in the
  order of their ids, and then closes the generation. Afterwards no call writes a frame, reports
  another unknown outcome, releases a thread or closes a generation again: only replies and
  inbound frames still come out.\<close>

theorem loss_reports_every_request_then_quiet:
  assumes "session_reachable enc s" "live s" "transport_lost s = (acts, s')"
  shows "acts = map (\<lambda>i. ActResolve (the (ticket_of s i)) OcUnknown) (om_keys (ss_pending s)) @
      [ActGenerationClosed (ss_generation s)]
    \<and> list_all after_loss (fst (session_run enc s' calls))"
proof
  have wf: "session_wf s" by (rule reachable_wf [OF assms(1)])
  then have p: "om_wf (ss_pending s)" by (simp add: session_wf_def)
  have "map (\<lambda>(_, p). ActResolve (pq_ticket p) OcUnknown) (ss_pending s) =
      map (\<lambda>i. ActResolve (the (ticket_of s i)) OcUnknown) (om_keys (ss_pending s))"
    by (auto simp: ticket_of_def om_get_in [OF p, symmetric])
  with assms(2,3) show "acts = map (\<lambda>i. ActResolve (the (ticket_of s i)) OcUnknown) (om_keys (ss_pending s)) @
      [ActGenerationClosed (ss_generation s)]"
    by (simp add: transport_lost_def mark_unknown_def live_def)
  have "lost s'" using assms(2,3) by (auto simp: transport_lost_def mark_unknown_def live_def lost_def)
  then show "list_all after_loss (fst (session_run enc s' calls))" by (rule lost_run)
qed

theorem loss_reports_every_request_then_quiet_witness:
  "map reply_of (fst (transport_lost sample_session)) = [None, None, None] \<and>
   list_all after_loss (fst (session_run sample_enc (snd (transport_lost sample_session))
     [CallExpire 100, CallLost, CallClose]))"
proof -
  have "live sample_session" by code_simp
  from loss_reports_every_request_then_quiet [OF sample_session_reachable this prod.collapse [symmetric]]
  have "fst (transport_lost sample_session) =
      map (\<lambda>i. ActResolve (the (ticket_of sample_session i)) OcUnknown) (om_keys (ss_pending sample_session)) @
      [ActGenerationClosed (ss_generation sample_session)]"
    and "list_all after_loss (fst (session_run sample_enc (snd (transport_lost sample_session))
      [CallExpire 100, CallLost, CallClose]))" by blast+
  moreover have "om_keys (ss_pending sample_session) = [Number 1, Number 2]" by code_simp
  ultimately show ?thesis by simp
qed

end
