(* ===== verification/Session_Lanes.thy ===== *)
theory Session_Lanes
  imports Session_Outcomes
begin

text \<open>
  The per-thread lanes of the provider session: which request owns a thread, which requests wait
  behind it, that nothing waits behind nobody, that a settled owner hands the thread to the first
  request waiting, and that no request is written twice.
\<close>

section \<open>Lanes\<close>

text \<open>
  \<open>P\<close> gives the lane of a pending request (\<open>Some None\<close> for a request outside the lanes), \<open>A\<close> the owners
  of a thread and \<open>Q\<close> its queue. A queue may still hold ids whose request is gone: they are
  skipped when the thread is released.
\<close>

definition lanes_ok ::
  "(request_id \<Rightarrow> string option option) \<Rightarrow> (string \<Rightarrow> request_id list option) \<Rightarrow>
   (string \<Rightarrow> request_id list) \<Rightarrow> bool" where
  "lanes_ok P A Q \<longleftrightarrow>
     (\<forall>t os. A t = Some os \<longrightarrow> os \<noteq> [] \<and> (\<forall>i \<in> set os. P i = Some (Some t) \<and> i \<notin> set (Q t)))
     \<and> (\<forall>t. \<forall>i \<in> set (Q t). P i \<noteq> None \<longrightarrow> P i = Some (Some t) \<and> A t \<noteq> None)
     \<and> (\<forall>t. distinct (filter (\<lambda>i. P i \<noteq> None) (Q t)))
     \<and> (\<forall>i t. P i = Some (Some t) \<longrightarrow> (\<exists>os. A t = Some os \<and> i \<in> set os) \<or> i \<in> set (Q t))"

lemma lanes_okD:
  assumes "lanes_ok P A Q"
  shows lanes_ne: "A t = Some os \<Longrightarrow> os \<noteq> []"
    and lanes_own: "A t = Some os \<Longrightarrow> i \<in> set os \<Longrightarrow> P i = Some (Some t) \<and> i \<notin> set (Q t)"
    and lanes_wait: "i \<in> set (Q t) \<Longrightarrow> P i \<noteq> None \<Longrightarrow> P i = Some (Some t) \<and> A t \<noteq> None"
    and lanes_distinct: "distinct (filter (\<lambda>i. P i \<noteq> None) (Q t))"
    and lanes_all: "P i = Some (Some t) \<Longrightarrow> (\<exists>os. A t = Some os \<and> i \<in> set os) \<or> i \<in> set (Q t)"
  using assms unfolding lanes_ok_def by blast+

lemma lanes_okI:
  assumes "\<And>t os. A t = Some os \<Longrightarrow> os \<noteq> []"
    and "\<And>t os i. A t = Some os \<Longrightarrow> i \<in> set os \<Longrightarrow> P i = Some (Some t) \<and> i \<notin> set (Q t)"
    and "\<And>t i. i \<in> set (Q t) \<Longrightarrow> P i \<noteq> None \<Longrightarrow> P i = Some (Some t) \<and> A t \<noteq> None"
    and "\<And>t. distinct (filter (\<lambda>i. P i \<noteq> None) (Q t))"
    and "\<And>i t. P i = Some (Some t) \<Longrightarrow> (\<exists>os. A t = Some os \<and> i \<in> set os) \<or> i \<in> set (Q t)"
  shows "lanes_ok P A Q"
  using assms unfolding lanes_ok_def by blast

lemma filter_fresh: "i \<notin> set q \<Longrightarrow> filter (\<lambda>j. (P(i := v)) j \<noteq> None) q = filter (\<lambda>j. P j \<noteq> None) q"
  by (rule filter_cong) auto

lemma filter_gone:
  "filter (\<lambda>j. (P(i := None)) j \<noteq> None) q = filter (\<lambda>j. j \<noteq> i) (filter (\<lambda>j. P j \<noteq> None) q)"
  unfolding filter_filter by (rule filter_cong) auto

text \<open>A new request outside the lanes, or as one more owner of its thread.\<close>

lemma lanes_register_outside:
  assumes ok: "lanes_ok P A Q" and new: "P i = None" "\<And>t. i \<notin> set (Q t)"
  shows "lanes_ok (P(i \<mapsto> None)) A Q"
proof (rule lanes_okI)
  fix t os j assume a: "A t = Some os" "j \<in> set os"
  then have "P j = Some (Some t) \<and> j \<notin> set (Q t)" by (rule lanes_own [OF ok])
  with new show "(P(i \<mapsto> None)) j = Some (Some t) \<and> j \<notin> set (Q t)" by auto
next
  fix t j assume j: "j \<in> set (Q t)" "(P(i \<mapsto> None)) j \<noteq> None"
  with new(2) [of t] have "j \<noteq> i" by auto
  with j lanes_wait [OF ok j(1)] show "(P(i \<mapsto> None)) j = Some (Some t) \<and> A t \<noteq> None" by simp
next
  fix j t assume "(P(i \<mapsto> None)) j = Some (Some t)"
  then have "P j = Some (Some t)" by (simp split: if_splits)
  then show "(\<exists>os. A t = Some os \<and> j \<in> set os) \<or> j \<in> set (Q t)" by (rule lanes_all [OF ok])
qed (use lanes_ne [OF ok] lanes_distinct [OF ok] filter_fresh [OF new(2)] in metis)+

lemma lanes_register_owner:
  assumes ok: "lanes_ok P A Q" and new: "P i = None" "\<And>t. i \<notin> set (Q t)"
    and owners: "set owners' = insert i (set owners)" "A t = Some owners \<or> A t = None \<and> owners = []"
  shows "lanes_ok (P(i \<mapsto> Some t)) (A(t \<mapsto> owners')) Q"
proof (rule lanes_okI)
  fix u os assume "(A(t \<mapsto> owners')) u = Some os"
  then show "os \<noteq> []" using lanes_ne [OF ok] owners(1) by (auto split: if_splits)
next
  fix u os j assume a: "(A(t \<mapsto> owners')) u = Some os" "j \<in> set os"
  then consider "u = t" "j = i" | os' where "A u = Some os'" "j \<in> set os'"
    using owners by (auto split: if_splits)
  then show "(P(i \<mapsto> Some t)) j = Some (Some u) \<and> j \<notin> set (Q u)"
  proof cases
    case 1
    with new(2) show ?thesis by simp
  next
    case 2
    then have j: "P j = Some (Some u) \<and> j \<notin> set (Q u)" by (rule lanes_own [OF ok])
    with new(1) have "j \<noteq> i" by auto
    with j show ?thesis by simp
  qed
next
  fix u j assume j: "j \<in> set (Q u)" "(P(i \<mapsto> Some t)) j \<noteq> None"
  with new(2) [of u] have "j \<noteq> i" by auto
  with j lanes_wait [OF ok j(1)] show "(P(i \<mapsto> Some t)) j = Some (Some u) \<and> (A(t \<mapsto> owners')) u \<noteq> None"
    by simp
next
  fix j u assume j: "(P(i \<mapsto> Some t)) j = Some (Some u)"
  show "(\<exists>os. (A(t \<mapsto> owners')) u = Some os \<and> j \<in> set os) \<or> j \<in> set (Q u)"
  proof (cases "j = i")
    case True
    with j owners(1) show ?thesis by auto
  next
    case False
    with j have "P j = Some (Some u)" by simp
    from lanes_all [OF ok this] show ?thesis
    proof (elim disjE exE conjE)
      fix os assume os: "A u = Some os" "j \<in> set os"
      show ?thesis
      proof (cases "u = t")
        case True
        with os owners have "j \<in> set owners'" by auto
        with True show ?thesis by simp
      next
        case False
        with os show ?thesis by simp
      qed
    qed simp
  qed
qed (use lanes_distinct [OF ok] filter_fresh [OF new(2)] in metis)

text \<open>A new request at the end of the queue of an owned thread.\<close>

lemma lanes_register_waiting:
  assumes ok: "lanes_ok P A Q" and new: "P i = None" "\<And>t. i \<notin> set (Q t)" and t: "A t \<noteq> None"
  shows "lanes_ok (P(i \<mapsto> Some t)) A (Q(t := Q t @ [i]))"
proof (rule lanes_okI)
  fix u os j assume a: "A u = Some os" "j \<in> set os"
  then have "P j = Some (Some u) \<and> j \<notin> set (Q u)" by (rule lanes_own [OF ok])
  with new show "(P(i \<mapsto> Some t)) j = Some (Some u) \<and> j \<notin> set ((Q(t := Q t @ [i])) u)" by auto
next
  fix u j assume j: "j \<in> set ((Q(t := Q t @ [i])) u)" "(P(i \<mapsto> Some t)) j \<noteq> None"
  show "(P(i \<mapsto> Some t)) j = Some (Some u) \<and> A u \<noteq> None"
  proof (cases "j = i")
    case True
    then have "u = t" using j(1) new(2) by (auto split: if_splits)
    with True t show ?thesis by simp
  next
    case False
    then have "j \<in> set (Q u)" using j(1) by (auto split: if_splits)
    from lanes_wait [OF ok this] j(2) False show ?thesis by simp
  qed
next
  fix u
  have "distinct (filter (\<lambda>j. (P(i \<mapsto> Some t)) j \<noteq> None) (Q u))" for u
    unfolding filter_fresh [OF new(2)] by (rule lanes_distinct [OF ok])
  then show "distinct (filter (\<lambda>j. (P(i \<mapsto> Some t)) j \<noteq> None) ((Q(t := Q t @ [i])) u))"
    using new(2) by simp
next
  fix j u assume j: "(P(i \<mapsto> Some t)) j = Some (Some u)"
  show "(\<exists>os. A u = Some os \<and> j \<in> set os) \<or> j \<in> set ((Q(t := Q t @ [i])) u)"
  proof (cases "j = i")
    case True
    with j show ?thesis by simp
  next
    case False
    with j have "P j = Some (Some u)" by simp
    from lanes_all [OF ok this] show ?thesis by (cases "u = t") (elim disjE; simp)+
  qed
qed (rule lanes_ne [OF ok])

text \<open>A request that leaves without owning its thread.\<close>

lemma lanes_remove:
  assumes ok: "lanes_ok P A Q" and free: "\<And>t os. A t = Some os \<Longrightarrow> i \<notin> set os"
    and Q': "\<And>t. set (Q' t) \<subseteq> set (Q t)" "\<And>t. set (Q t) \<subseteq> insert i (set (Q' t))"
    "\<And>t. filter (\<lambda>j. (P(i := None)) j \<noteq> None) (Q' t) = filter (\<lambda>j. (P(i := None)) j \<noteq> None) (Q t)"
  shows "lanes_ok (P(i := None)) A Q'"
proof (rule lanes_okI)
  fix t os j assume a: "A t = Some os" "j \<in> set os"
  then have "P j = Some (Some t) \<and> j \<notin> set (Q t)" by (rule lanes_own [OF ok])
  with free [OF a(1)] a(2) Q'(1) show "(P(i := None)) j = Some (Some t) \<and> j \<notin> set (Q' t)" by auto
next
  fix t j assume j: "j \<in> set (Q' t)" "(P(i := None)) j \<noteq> None"
  then have "j \<noteq> i" by (auto split: if_splits)
  with lanes_wait [OF ok, of j t] j Q'(1) show "(P(i := None)) j = Some (Some t) \<and> A t \<noteq> None" by auto
next
  fix t
  show "distinct (filter (\<lambda>j. (P(i := None)) j \<noteq> None) (Q' t))"
    by (subst Q'(3), subst filter_gone, rule distinct_filter [OF lanes_distinct [OF ok]])
next
  fix j t assume j: "(P(i := None)) j = Some (Some t)"
  then have "j \<noteq> i" "P j = Some (Some t)" by (auto split: if_splits)
  with lanes_all [OF ok this(2)] Q'(2) [of t] show "(\<exists>os. A t = Some os \<and> j \<in> set os) \<or> j \<in> set (Q' t)"
    by blast
qed (rule lanes_ne [OF ok])

text \<open>An owner that leaves the thread to the other owners.\<close>

lemma lanes_remove_owner:
  assumes ok: "lanes_ok P A Q" and t: "A t = Some os" "i \<in> set os"
    and os': "set os' = set os - {i}" "os' \<noteq> []"
  shows "lanes_ok (P(i := None)) (A(t \<mapsto> os')) Q"
proof (rule lanes_okI)
  fix u us assume "(A(t \<mapsto> os')) u = Some us"
  then show "us \<noteq> []" using lanes_ne [OF ok, of u us] os'(2) by (auto split: if_splits)
next
  fix u us j assume a: "(A(t \<mapsto> os')) u = Some us" "j \<in> set us"
  then obtain vs where vs: "A u = Some vs" "j \<in> set vs" "u = t \<longrightarrow> j \<noteq> i"
    using t os' by (auto split: if_splits)
  then have j: "P j = Some (Some u) \<and> j \<notin> set (Q u)" by (simp add: lanes_own [OF ok])
  moreover have "j \<noteq> i" using vs(3) j lanes_own [OF ok t] by auto
  ultimately show "(P(i := None)) j = Some (Some u) \<and> j \<notin> set (Q u)" by simp
next
  fix u j assume j: "j \<in> set (Q u)" "(P(i := None)) j \<noteq> None"
  then have "j \<noteq> i" by (auto split: if_splits)
  with lanes_wait [OF ok, of j u] j show "(P(i := None)) j = Some (Some u) \<and> (A(t \<mapsto> os')) u \<noteq> None" by auto
next
  fix u
  show "distinct (filter (\<lambda>j. (P(i := None)) j \<noteq> None) (Q u))"
    unfolding filter_gone by (rule distinct_filter [OF lanes_distinct [OF ok]])
next
  fix j u assume j: "(P(i := None)) j = Some (Some u)"
  then have ji: "j \<noteq> i" "P j = Some (Some u)" by (auto split: if_splits)
  from lanes_all [OF ok ji(2)] show "(\<exists>os. (A(t \<mapsto> os')) u = Some os \<and> j \<in> set os) \<or> j \<in> set (Q u)"
  proof (elim disjE exE conjE)
    fix us assume "A u = Some us" "j \<in> set us"
    then show ?thesis using t os' ji by (cases "u = t") simp_all
  qed simp
qed

text \<open>
  The last owner leaves: the thread goes to the first waiting request, or becomes free when none
  waits. \<open>h\<close> is the new owner, \<open>q\<close> the rest of the queue.
\<close>

lemma lanes_hand_over:
  assumes ok: "lanes_ok P A Q" and t: "A t = Some os" "set os = {i}"
    and new: "filter (\<lambda>j. P j \<noteq> None) (Q t) = (case h of None \<Rightarrow> [] | Some j \<Rightarrow> [j]) @ filter (\<lambda>j. P j \<noteq> None) q"
    and q: "set q \<subseteq> set (Q t)" "h = None \<Longrightarrow> q = []"
  shows "lanes_ok (P(i := None)) (A(t := map_option (\<lambda>j. [j]) h)) (Q(t := q))"
proof -
  have i: "P i = Some (Some t)" "i \<notin> set (Q t)" using lanes_own [OF ok t(1)] t(2) by auto
  have waiting: "{j \<in> set (Q t). P j \<noteq> None} = set_option h \<union> {j \<in> set q. P j \<noteq> None}"
    using arg_cong [OF new, of set] by (cases h) auto
  have hand: "P j = Some (Some t) \<and> j \<noteq> i" if "h = Some j" for j
    using waiting lanes_wait [OF ok, of j t] i that by auto
  have head: "j \<notin> set q" if "h = Some j" for j
    using lanes_distinct [OF ok, of t] new that hand [OF that] by auto
  show ?thesis
  proof (rule lanes_okI)
    fix u us assume "(A(t := map_option (\<lambda>j. [j]) h)) u = Some us"
    then show "us \<noteq> []" using lanes_ne [OF ok, of u us] by (auto split: if_splits)
  next
    fix u us j assume a: "(A(t := map_option (\<lambda>j. [j]) h)) u = Some us" "j \<in> set us"
    show "(P(i := None)) j = Some (Some u) \<and> j \<notin> set ((Q(t := q)) u)"
    proof (cases "u = t")
      case True
      then have "h = Some j" using a by auto
      with hand head True show ?thesis by simp
    next
      case False
      with a have "P j = Some (Some u) \<and> j \<notin> set (Q u)" by (simp add: lanes_own [OF ok])
      with False i show ?thesis by auto
    qed
  next
    fix u j assume j: "j \<in> set ((Q(t := q)) u)" "(P(i := None)) j \<noteq> None"
    then have ji: "j \<in> set (Q u)" "P j \<noteq> None" "j \<noteq> i" using q(1) by (auto split: if_splits)
    with lanes_wait [OF ok this(1,2)] j(1) q(2)
    show "(P(i := None)) j = Some (Some u) \<and> (A(t := map_option (\<lambda>j. [j]) h)) u \<noteq> None"
      by (cases "u = t"; cases h) auto
  next
    fix u
    have "distinct (filter (\<lambda>j. P j \<noteq> None) ((Q(t := q)) u))"
      using lanes_distinct [OF ok, of u] new by (auto split: option.splits)
    then show "distinct (filter (\<lambda>j. (P(i := None)) j \<noteq> None) ((Q(t := q)) u))"
      unfolding filter_gone by (rule distinct_filter)
  next
    fix j u assume j: "(P(i := None)) j = Some (Some u)"
    then have ji: "j \<noteq> i" "P j = Some (Some u)" by (auto split: if_splits)
    show "(\<exists>os. (A(t := map_option (\<lambda>j. [j]) h)) u = Some os \<and> j \<in> set os) \<or> j \<in> set ((Q(t := q)) u)"
    proof (cases "u = t")
      case True
      then have "j \<in> set (Q t)" using lanes_all [OF ok ji(2)] t ji(1) by auto
      then have "j \<in> set_option h \<union> {j \<in> set q. P j \<noteq> None}" using waiting ji by blast
      with True show ?thesis by (cases h) auto
    next
      case False
      with lanes_all [OF ok ji(2)] show ?thesis by simp
    qed
  qed
qed

section \<open>The lanes of a session\<close>

definition lane_of :: "session_state \<Rightarrow> request_id \<Rightarrow> string option option" where
  "lane_of s i =
     map_option (\<lambda>p. if pq_serialized p then pq_thread_id p else None) (om_get (ss_pending s) i)"

definition owners_of :: "session_state \<Rightarrow> string \<Rightarrow> request_id list option" where
  "owners_of s t = om_get (ss_active_threads s) t"

definition queue_of :: "session_state \<Rightarrow> string \<Rightarrow> request_id list" where
  "queue_of s t = (case om_get (ss_queued_threads s) t of None \<Rightarrow> [] | Some q \<Rightarrow> q)"

text \<open>The requests that wait behind the owners of a thread, in the order of their submission.\<close>

definition waiting :: "session_state \<Rightarrow> string \<Rightarrow> request_id list" where
  "waiting s t = filter (\<lambda>i. om_get (ss_pending s) i \<noteq> None) (queue_of s t)"

definition lanes_wf :: "session_state \<Rightarrow> bool" where
  "lanes_wf s \<longleftrightarrow> (if live s then lanes_ok (lane_of s) (owners_of s) (queue_of s) else lost s)"

lemma lane_of_None: "lane_of s i = None \<longleftrightarrow> om_get (ss_pending s) i = None"
  by (simp add: lane_of_def)

lemma waiting_lanes: "waiting s t = filter (\<lambda>i. lane_of s i \<noteq> None) (queue_of s t)"
  by (simp add: waiting_def lane_of_None)

lemma pop_waiting_filter:
  "filter (\<lambda>j. om_get pending j \<noteq> None) queue =
     (case pop_waiting pending queue of
        None \<Rightarrow> [] | Some (j, p, rest) \<Rightarrow> j # filter (\<lambda>j. om_get pending j \<noteq> None) rest)"
  by (induction pending queue rule: pop_waiting.induct) (auto split: option.split)

lemma pop_waiting_rest: "pop_waiting pending queue = Some (j, p, rest) \<Longrightarrow> set rest \<subseteq> set queue"
  by (induction pending queue rule: pop_waiting.induct) (auto split: option.splits)

lemma write_request_lanes:
  "write_request s ticket = (r, s') \<Longrightarrow>
     lane_of s' = lane_of s \<and> owners_of s' = owners_of s \<and> queue_of s' = queue_of s"
  by (auto simp: write_request_def lane_of_def owners_of_def queue_of_def fun_eq_iff split: option.splits)

lemma owners_of_updates [simp]:
  "owners_of (s\<lparr>ss_active_threads := om_insert t v (ss_active_threads s)\<rparr>) = (owners_of s)(t \<mapsto> v)"
  "owners_of (s\<lparr>ss_active_threads := om_remove t (ss_active_threads s)\<rparr>) = (owners_of s)(t := None)"
  "queue_of (s\<lparr>ss_queued_threads := om_insert t q (ss_queued_threads s)\<rparr>) = (queue_of s)(t := q)"
  "queue_of (s\<lparr>ss_queued_threads := om_remove t (ss_queued_threads s)\<rparr>) = (queue_of s)(t := [])"
  by (auto simp: owners_of_def queue_of_def fun_eq_iff)

lemma lanes_frame [simp]:
  "owners_of (s\<lparr>ss_queued_threads := q\<rparr>) = owners_of s" "queue_of (s\<lparr>ss_active_threads := a\<rparr>) = queue_of s"
  "lane_of (s\<lparr>ss_queued_threads := q\<rparr>) = lane_of s" "lane_of (s\<lparr>ss_active_threads := a\<rparr>) = lane_of s"
  "owners_of (s\<lparr>ss_book := b\<rparr>) = owners_of s" "queue_of (s\<lparr>ss_book := b\<rparr>) = queue_of s"
  "lane_of (s\<lparr>ss_book := b\<rparr>) = lane_of s"
  "owners_of (s\<lparr>ss_deadlines := d\<rparr>) = owners_of s" "queue_of (s\<lparr>ss_deadlines := d\<rparr>) = queue_of s"
  "lane_of (s\<lparr>ss_deadlines := d\<rparr>) = lane_of s"
  "owners_of (s\<lparr>ss_pending := p\<rparr>) = owners_of s" "queue_of (s\<lparr>ss_pending := p\<rparr>) = queue_of s"
  by (simp_all add: owners_of_def queue_of_def lane_of_def fun_eq_iff)

lemma os_remove_absent: "i \<notin> set os \<Longrightarrow> os_remove i os = os"
  by (auto simp: os_remove_def filter_id_conv)

text \<open>What releasing a thread does, by the owners that remain.\<close>

lemma release_kept:
  assumes "owners_of s t = None \<or> (\<exists>os. owners_of s t = Some os \<and> i \<notin> set os)"
    and "release_thread s t i = (r, s')"
  shows "r = Inr []" "lane_of s' = lane_of s" "owners_of s' = owners_of s" "queue_of s' = queue_of s"
  using assms
  by (auto simp: release_thread_def owners_of_def [symmetric] Let_def os_remove_absent fun_eq_iff
      split: option.splits)

lemma release_shared:
  assumes "owners_of s t = Some os" "i \<in> set os" "os_remove i os \<noteq> []"
    and "release_thread s t i = (r, s')"
  shows "r = Inr []" "lane_of s' = lane_of s" "owners_of s' = (owners_of s)(t \<mapsto> os_remove i os)"
    "queue_of s' = queue_of s"
  using assms by (auto simp: release_thread_def owners_of_def [symmetric] Let_def split: option.splits)

lemma release_last:
  assumes wf: "session_wf s" and t: "owners_of s t = Some os" "i \<in> set os" "os_remove i os = []"
    and rel: "release_thread s t i = (r, s')"
  shows "case waiting s t of
      [] \<Rightarrow> r = Inr [] \<and> lane_of s' = lane_of s \<and> owners_of s' = (owners_of s)(t := None) \<and>
        queue_of s' = (queue_of s)(t := []) \<and> ss_pending s' = ss_pending s
    | j # ws \<Rightarrow> \<exists>p q. om_get (ss_pending s) j = Some p \<and> set q \<subseteq> set (queue_of s t) \<and>
        filter (\<lambda>i. om_get (ss_pending s) i \<noteq> None) q = ws \<and>
        r = Inr [ActThreadReleased t (pq_ticket p),
          ActWrite (Request \<lparr>rf_id = j, rf_method = tk_method (pq_ticket p),
            rf_params = Some (pq_params p), rf_fields = []\<rparr>)] \<and>
        lane_of s' = lane_of s \<and> owners_of s' = (owners_of s)(t \<mapsto> [j]) \<and> queue_of s' = (queue_of s)(t := q)"
proof -
  note unf = release_thread_def Let_def t(1) [unfolded owners_of_def] t(2,3)
  show ?thesis
  proof (cases "om_get (ss_queued_threads s) t")
    case None
    then have "queue_of s t = []" by (simp add: queue_of_def)
    with None rel show ?thesis by (auto simp: unf waiting_def fun_eq_iff owners_of_def)
  next
    case (Some queue)
    then have queue: "queue_of s t = queue" by (simp add: queue_of_def)
    note pop = pop_waiting_filter [of "ss_pending s" queue]
    show ?thesis
    proof (cases "pop_waiting (ss_pending s) queue")
      case None
      with Some rel pop queue show ?thesis
        by (auto simp: unf waiting_def owners_of_def queue_of_def fun_eq_iff lane_of_def)
    next
      case (Some popped)
      then obtain j p q where j: "pop_waiting (ss_pending s) queue = Some (j, p, q)" by (cases popped) auto
      have p: "om_get (ss_pending s) j = Some p" by (rule pop_waiting_Some [OF j])
      with session_wf_ticket(1) [OF wf p] \<open>om_get (ss_queued_threads s) t = Some queue\<close> rel j
      have "r = Inr [ActThreadReleased t (pq_ticket p), ActWrite (Request \<lparr>rf_id = j,
            rf_method = tk_method (pq_ticket p), rf_params = Some (pq_params p), rf_fields = []\<rparr>)]"
        and s': "s' = s\<lparr>ss_pending := om_insert j (p\<lparr>pq_params := JNull\<rparr>) (ss_pending s),
          ss_queued_threads := om_insert t q (ss_queued_threads s),
          ss_active_threads := om_insert t [j] (om_insert t [] (ss_active_threads s))\<rparr>"
        by (auto simp: unf write_request_def)
      moreover have "lane_of s' = lane_of s" using p s' by (auto simp: lane_of_def fun_eq_iff)
      moreover have "owners_of s' = (owners_of s)(t \<mapsto> [j])" "queue_of s' = (queue_of s)(t := q)"
        using s' by (auto simp: owners_of_def queue_of_def fun_eq_iff)
      moreover have "waiting s t = j # filter (\<lambda>i. om_get (ss_pending s) i \<noteq> None) q"
        using pop j queue by (simp add: waiting_def)
      ultimately show ?thesis using p pop_waiting_rest [OF j] queue by auto
    qed
  qed
qed

lemma release_lanes:
  assumes ok: "lanes_ok P (owners_of s) (queue_of s)" and P: "P i = Some (Some t)"
    and s: "lane_of s = P(i := None)" and wf: "session_wf s" and rel: "release_thread s t i = (r, s')"
  shows "lanes_ok (lane_of s') (owners_of s') (queue_of s')"
proof -
  consider (kept) "owners_of s t = None \<or> (\<exists>os. owners_of s t = Some os \<and> i \<notin> set os)"
    | (shared) os where "owners_of s t = Some os" "i \<in> set os" "os_remove i os \<noteq> []"
    | (last) os where "owners_of s t = Some os" "i \<in> set os" "os_remove i os = []"
    by (cases "owners_of s t") auto
  then show ?thesis
  proof cases
    case kept
    have "i \<notin> set os" if "owners_of s u = Some os" for u os
      using lanes_own [OF ok that, of i] P kept that by auto
    then have "lanes_ok (P(i := None)) (owners_of s) (queue_of s)"
      by (rule lanes_remove [OF ok]) auto
    with release_kept [OF kept rel] s show ?thesis by simp
  next
    case shared
    then have "lanes_ok (P(i := None)) ((owners_of s)(t \<mapsto> os_remove i os)) (queue_of s)"
      by (intro lanes_remove_owner [OF ok, of t os]) simp_all
    with release_shared [OF shared rel] s show ?thesis by simp
  next
    case last
    then have os: "set os = {i}" using os_set_remove [of i os] by auto
    have "i \<notin> set (queue_of s t)" using lanes_own [OF ok last(1,2)] by simp
    then have w: "filter (\<lambda>j. P j \<noteq> None) q = filter (\<lambda>j. om_get (ss_pending s) j \<noteq> None) q"
      if "set q \<subseteq> set (queue_of s t)" for q
      using that s by (intro filter_cong) (auto simp: lane_of_None [of s, symmetric])
    note last' = release_last [OF wf last rel]
    show ?thesis
    proof (cases "waiting s t")
      case Nil
      then have "lanes_ok (P(i := None)) ((owners_of s)(t := map_option (\<lambda>j. [j]) None)) ((queue_of s)(t := []))"
        using w [of "queue_of s t"] by (intro lanes_hand_over [OF ok last(1) os]) (auto simp: waiting_def)
      with last' Nil s show ?thesis by simp
    next
      case (Cons j ws)
      with last' obtain q where q: "set q \<subseteq> set (queue_of s t)"
        "filter (\<lambda>i. om_get (ss_pending s) i \<noteq> None) q = ws"
        "lane_of s' = lane_of s" "owners_of s' = (owners_of s)(t \<mapsto> [j])" "queue_of s' = (queue_of s)(t := q)"
        by auto
      have "lanes_ok (P(i := None)) ((owners_of s)(t := map_option (\<lambda>j. [j]) (Some j))) ((queue_of s)(t := q))"
        using w [of "queue_of s t"] w [OF q(1)] q(1,2) Cons
        by (intro lanes_hand_over [OF ok last(1) os]) (auto simp: waiting_def)
      with q s show ?thesis by simp
    qed
  qed
qed

text \<open>The lanes when a pending request leaves the session.\<close>

lemma remove_pending_lanes:
  assumes "remove_pending s i = (Some p, s')"
  shows "lane_of s' = (lane_of s)(i := None)" "owners_of s' = owners_of s" "queue_of s' = queue_of s"
    "lane_of s i = Some (if pq_serialized p then pq_thread_id p else None)"
    "ss_lifecycle s' = ss_lifecycle s"
  using assms
  by (auto simp: remove_pending_def lane_of_def owners_of_def queue_of_def fun_eq_iff split: option.splits)

lemma outside_lanes:
  assumes ok: "lanes_ok P A Q" and P: "P i = Some None"
  shows "lanes_ok (P(i := None)) A Q"
proof (rule lanes_remove [OF ok])
  show "i \<notin> set os" if "A t = Some os" for t os using lanes_own [OF ok that, of i] P by auto
qed auto

lemma live_lanes: "live s \<Longrightarrow> lanes_wf s \<longleftrightarrow> lanes_ok (lane_of s) (owners_of s) (queue_of s)"
  by (simp add: lanes_wf_def)

lemma live_frame [simp]:
  "live (s\<lparr>ss_book := b\<rparr>) = live s" "live (s\<lparr>ss_queued_threads := q\<rparr>) = live s"
  "live (s\<lparr>ss_active_threads := a\<rparr>) = live s" "live (s\<lparr>ss_pending := p\<rparr>) = live s"
  by (simp_all add: live_def)

lemma lanes_wf_book [simp]: "lanes_wf (s\<lparr>ss_book := b\<rparr>) = lanes_wf s"
  by (simp add: lanes_wf_def)

text \<open>A request that leaves its queue.\<close>

definition unqueue :: "session_state \<Rightarrow> string \<Rightarrow> request_id \<Rightarrow> session_state" where
  "unqueue s t i =
     (case om_get (ss_queued_threads s) t of
        None \<Rightarrow> s
      | Some queue \<Rightarrow>
          s\<lparr>ss_queued_threads := om_insert t (filter (\<lambda>j. j \<noteq> i) queue) (ss_queued_threads s)\<rparr>)"

lemma unqueue_simps [simp]:
  "lane_of (unqueue s t i) = lane_of s" "owners_of (unqueue s t i) = owners_of s"
  "queue_of (unqueue s t i) = (queue_of s)(t := filter (\<lambda>j. j \<noteq> i) (queue_of s t))"
  by (auto simp: unqueue_def queue_of_def fun_eq_iff split: option.split)

lemma unqueue_lanes:
  assumes ok: "lanes_ok P A Q" and i: "P i = Some (Some t)" "\<And>os. A t = Some os \<Longrightarrow> i \<notin> set os"
  shows "lanes_ok (P(i := None)) A (Q(t := filter (\<lambda>j. j \<noteq> i) (Q t)))"
proof (rule lanes_remove [OF ok])
  show "i \<notin> set os" if "A u = Some os" for u os using lanes_own [OF ok that, of i] i that by auto
next
  fix u
  show "filter (\<lambda>j. (P(i := None)) j \<noteq> None) ((Q(t := filter (\<lambda>j. j \<noteq> i) (Q t))) u) =
      filter (\<lambda>j. (P(i := None)) j \<noteq> None) (Q u)"
    by (auto intro: filter_cong)
qed auto

lemma remove_request_lanes:
  assumes wf: "session_wf (snd (remove_pending s (tk_id ticket)))" and lanes: "lanes_wf s" and live: "live s"
    and rem: "remove_request s ticket = (r, s')"
  shows "lanes_ok (lane_of s') (owners_of s') (queue_of s')"
proof -
  let ?i = "tk_id ticket"
  have ok: "lanes_ok (lane_of s) (owners_of s) (queue_of s)" using lanes live by (simp add: live_lanes)
  obtain po u where u: "remove_pending s ?i = (po, u)" by force
  then have wf_u: "session_wf u" using wf by simp
  consider (none) "po = None" | (outside) p where "po = Some p" "\<nexists>t. pq_serialized p \<and> pq_thread_id p = Some t"
    | (lane) p t where "po = Some p" "pq_serialized p" "pq_thread_id p = Some t"
    by (cases po) blast+
  then show ?thesis
  proof cases
    case none
    with u have "u = s" by (auto simp: remove_pending_def split: option.splits)
    with none u rem ok show ?thesis by (simp add: remove_request_def)
  next
    case outside
    note u' = remove_pending_lanes [OF u [unfolded outside]]
    have "lane_of s ?i = Some None" using outside(2) u'(4) by (cases "pq_thread_id p") auto
    moreover have "s' = u" using rem u outside by (auto simp: remove_request_def split: option.splits if_splits)
    ultimately show ?thesis using outside_lanes [OF ok] u' by simp
  next
    case lane
    note u' = remove_pending_lanes [OF u [unfolded lane]]
    have lane': "lane_of s ?i = Some (Some t)" using u'(4) lane by simp
    show ?thesis
    proof (cases "\<exists>os. owners_of u t = Some os \<and> ?i \<in> set os")
      case True
      then have "release_thread u t ?i = (r, s')"
        using rem u lane by (auto simp: remove_request_def owners_of_def)
      from release_lanes [OF _ lane' u'(1) wf_u this] ok u' show ?thesis by simp
    next
      case False
      then have "s' = unqueue u t ?i"
        using rem u lane
        by (auto simp: remove_request_def owners_of_def unqueue_def split: option.splits)
      with unqueue_lanes [OF ok lane'] False u' show ?thesis by simp
    qed
  qed
qed

section \<open>Every operation keeps the lanes\<close>

definition same_lanes :: "session_state \<Rightarrow> session_state \<Rightarrow> bool" where
  "same_lanes s s' \<longleftrightarrow> lane_of s' = lane_of s \<and> owners_of s' = owners_of s \<and> queue_of s' = queue_of s
     \<and> ss_lifecycle s' = ss_lifecycle s"

lemma same_lanes_wf:
  assumes "same_lanes s s'" "live s" "lanes_wf s"
  shows "lanes_wf s'"
  using assms by (auto simp: same_lanes_def lanes_wf_def live_def)

lemma id_registered_lanes:
  assumes "id_registered s mname r s'"
  shows "same_lanes s s'" "ss_pending s' = ss_pending s" "ss_generation s' = ss_generation s"
proof -
  obtain n q b where s': "s' = s\<lparr>ss_next_prefixed_id := n, ss_next_request_sequence := q, ss_book := b\<rparr>"
    using assms unfolding id_registered_def by blast
  show "same_lanes s s'" "ss_pending s' = ss_pending s" "ss_generation s' = ss_generation s"
    unfolding s' by (simp_all add: same_lanes_def lane_of_def owners_of_def queue_of_def fun_eq_iff)
qed

text \<open>A registered request is new and carries its lane.\<close>

lemma register_lanes:
  assumes wf: "session_wf s"
    and reg: "register enc s mname params now_ms timeout_ms thread_id serialized requested = (Inr ticket, s')"
  shows "lane_of s (tk_id ticket) = None" "owners_of s' = owners_of s" "queue_of s' = queue_of s"
    "lane_of s' = (lane_of s)(tk_id ticket \<mapsto> (if serialized then thread_id else None))"
    "ss_lifecycle s' = ss_lifecycle s" "map_option pq_thread_id (om_get (ss_pending s') (tk_id ticket)) = Some thread_id"
proof -
  have book: "book_wf (ss_book s)" using wf by (simp add: session_wf_def)
  obtain q u where u: "register_id enc s mname params requested = (q, u)" by force
  note idr = register_id_registered [OF book u]
  obtain i where i: "q = Inr i" using reg u by (cases q) (auto simp: register_def)
  then have "registers (ss_book s) i mname (ss_book u)" using idr by (simp add: id_registered_def)
  then have "om_get (ss_pending s) i = None"
    using session_wf_book [OF wf, of i] session_wf_open [OF wf] by (auto simp: registers_def)
  moreover have "ticket = \<lparr>tk_generation = ss_generation u, tk_id = i, tk_method = mname\<rparr>"
    and s': "s' = insert_pending u \<lparr>pq_ticket = ticket, pq_params = params,
      pq_deadline_ms = saturating_add now_ms timeout_ms, pq_thread_id = thread_id, pq_serialized = serialized\<rparr>"
    using reg u i by (auto simp: register_def Let_def)
  moreover note id_registered_lanes [OF idr]
  ultimately show "lane_of s (tk_id ticket) = None" "owners_of s' = owners_of s" "queue_of s' = queue_of s"
    "lane_of s' = (lane_of s)(tk_id ticket \<mapsto> (if serialized then thread_id else None))"
    "ss_lifecycle s' = ss_lifecycle s"
    "map_option pq_thread_id (om_get (ss_pending s') (tk_id ticket)) = Some thread_id"
    by (auto simp: same_lanes_def lane_of_def owners_of_def queue_of_def fun_eq_iff)
qed

lemma register_failed_lanes:
  assumes wf: "session_wf s"
    and reg: "register enc s mname params now_ms timeout_ms thread_id serialized requested = (Inl e, s')"
  shows "same_lanes s s'"
proof -
  have book: "book_wf (ss_book s)" using wf by (simp add: session_wf_def)
  obtain q u where u: "register_id enc s mname params requested = (q, u)" by force
  show ?thesis
    using reg u id_registered_lanes(1) [OF register_id_registered [OF book u]]
    by (auto simp: register_def Let_def split: sum.splits)
qed

text \<open>The ids a call takes up anew are not queued any more.\<close>

definition fresh_ids :: "session_state \<Rightarrow> session_state \<Rightarrow> bool" where
  "fresh_ids s s' \<longleftrightarrow>
     (\<forall>i t. om_get (ss_pending s) i = None \<and> om_get (ss_pending s') i \<noteq> None \<longrightarrow> i \<notin> set (queue_of s t))"

lemma start_request_pending:
  "start_request s ticket serialized = (r, s') \<Longrightarrow>
     (om_get (ss_pending s') j = None \<longleftrightarrow> om_get (ss_pending s) j = None) \<and> ss_lifecycle s' = ss_lifecycle s"
  by (auto simp: start_request_def Let_def split: option.splits if_splits dest: write_request_keys [where j = j])

text \<open>A request just registered takes its place: written outside the lanes, owner of a free thread,
  or last in the queue of an owned one.\<close>

lemma start_request_lanes:
  assumes R: "lanes_ok P (owners_of s) (queue_of s)" "P (tk_id ticket) = None" "\<And>t. tk_id ticket \<notin> set (queue_of s t)"
    and lane: "lane_of s = P(tk_id ticket \<mapsto> (if ser then pq_thread_id p else None))"
    and p: "om_get (ss_pending s) (tk_id ticket) = Some p" "ser \<longrightarrow> pq_thread_id p \<noteq> None"
    and start: "start_request s ticket ser = (r, s')"
  shows "lanes_ok (lane_of s') (owners_of s') (queue_of s')"
proof (cases ser)
  case False
  with start p have "write_request s ticket = (r, s')" by (simp add: start_request_def)
  from write_request_lanes [OF this] lanes_register_outside [OF R] lane False show ?thesis by simp
next
  case True
  with p obtain t where t: "pq_thread_id p = Some t" by auto
  show ?thesis
  proof (cases "owners_of s t")
    case None
    then have "write_request (s\<lparr>ss_active_threads := om_insert t [tk_id ticket] (ss_active_threads s)\<rparr>) ticket = (r, s')"
      using start p True t by (simp add: start_request_def owners_of_def)
    from write_request_lanes [OF this] lanes_register_owner [OF R, of "[tk_id ticket]" "[]" t] None lane True t
    show ?thesis by simp
  next
    case (Some os)
    then have "s' = s\<lparr>ss_queued_threads := om_insert t (queue_of s t @ [tk_id ticket]) (ss_queued_threads s)\<rparr>"
      using start p True t by (auto simp: start_request_def owners_of_def queue_of_def split: option.splits)
    with lanes_register_waiting [OF R, of t] Some lane True t show ?thesis by simp
  qed
qed

lemma submit_lanes:
  assumes wf: "session_wf s" and lanes: "lanes_wf s"
    and sub: "submit_with_id_inner enc s requested mname params now_ms timeout_ms thread_id light = (r, s')"
    and fresh: "fresh_ids s s'"
  shows "lanes_wf s'"
proof (cases "ss_lifecycle s \<noteq> LcReady \<or> request_serialized s mname params light \<and> thread_id = None")
  case True
  with sub lanes show ?thesis by (auto simp: submit_with_id_inner_def Let_def split: if_splits)
next
  case False
  let ?ser = "request_serialized s mname params light"
  have live: "live s" using False by (simp add: live_def)
  obtain q u where u: "register enc s mname params now_ms timeout_ms thread_id ?ser requested = (q, u)"
    by force
  show ?thesis
  proof (cases q)
    case (Inl e)
    with sub u False have "s' = u" by (auto simp: submit_with_id_inner_def Let_def split: if_splits)
    with register_failed_lanes [OF wf u [unfolded Inl]] live lanes show ?thesis by (simp add: same_lanes_wf)
  next
    case (Inr ticket)
    let ?i = "tk_id ticket"
    note reg = register_lanes [OF wf u [unfolded Inr]]
    obtain st where v: "start_request u ticket ?ser = (st, s')"
      using sub u Inr False by (auto simp: submit_with_id_inner_def Let_def split: sum.splits prod.splits if_splits)
    obtain p where p: "om_get (ss_pending u) ?i = Some p" "pq_thread_id p = thread_id" using reg(6) by auto
    have "om_get (ss_pending s') ?i \<noteq> None" using start_request_pending [OF v, of ?i] p by simp
    then have new: "?i \<notin> set (queue_of s t)" for t
      using fresh reg(1) by (simp add: fresh_ids_def lane_of_None)
    have "live s'" using start_request_pending [OF v, of ?i] reg(5) live by (simp add: live_def)
    moreover have "lanes_ok (lane_of s') (owners_of s') (queue_of s')"
      by (rule start_request_lanes [of "lane_of s", OF _ _ _ _ p(1) _ v])
        (use lanes live reg new False p(2) in \<open>auto simp: live_lanes\<close>)
    ultimately show ?thesis by (simp add: live_lanes)
  qed
qed

lemma track_existing_lanes:
  assumes wf: "session_wf s"
    and "track_existing_request_until s i mname thread_id d = (Inr ticket, s')"
  shows "live s" "lane_of s i = None" "lane_of s' = (lane_of s)(i \<mapsto> None)" "owners_of s' = owners_of s"
    "queue_of s' = queue_of s" "ss_lifecycle s' = ss_lifecycle s"
    "map_option pq_thread_id (om_get (ss_pending s') i) = Some thread_id"
proof -
  obtain b where live: "live s" and b: "book_register (ss_book s) i mname = (Inr (), b)"
    and s': "s' = insert_pending (s\<lparr>ss_book := b\<rparr>) \<lparr>pq_ticket = \<lparr>tk_generation = ss_generation s,
        tk_id = i, tk_method = mname\<rparr>, pq_params = JNull, pq_deadline_ms = d, pq_thread_id = thread_id,
        pq_serialized = False\<rparr>"
    using assms(2)
    by (auto simp: track_existing_request_until_def live_def Let_def split: if_splits prod.splits sum.splits)
  have "om_get (ss_pending s) i = None"
    using session_wf_book [OF wf, of i] book_register_registers [OF b] live
    by (simp add: registers_def live_def)
  with live s' show "live s" "lane_of s i = None" "lane_of s' = (lane_of s)(i \<mapsto> None)"
    "owners_of s' = owners_of s" "queue_of s' = queue_of s" "ss_lifecycle s' = ss_lifecycle s"
    "map_option pq_thread_id (om_get (ss_pending s') i) = Some thread_id"
    by (auto simp: lane_of_def owners_of_def queue_of_def fun_eq_iff)
qed

lemma track_existing_failed:
  "track_existing_request_until s i mname thread_id d = (Inl e, s') \<Longrightarrow> s' = s"
  by (auto simp: track_existing_request_until_def book_register_def Let_def split: if_splits)

lemma add_owner_lanes:
  assumes "lane_of s i = Some None" "map_option pq_thread_id (om_get (ss_pending s) i) = Some (Some t)"
  shows "lane_of (add_owner s t i) = (lane_of s)(i \<mapsto> Some t)"
    "owners_of (add_owner s t i) =
       (owners_of s)(t \<mapsto> os_insert i (case owners_of s t of None \<Rightarrow> [] | Some os \<Rightarrow> os))"
    "queue_of (add_owner s t i) = queue_of s"
  using assms
  by (auto simp: lane_of_def owners_of_def queue_of_def fun_eq_iff add_owner_def Let_def split: option.splits)

lemma restore_uncertainty_lanes:
  "restore_uncertainty s i d unknown = (r, s') \<Longrightarrow> same_lanes s s' \<and> ss_pending s' = ss_pending s"
  by (auto simp: restore_uncertainty_def same_lanes_def lane_of_def owners_of_def queue_of_def fun_eq_iff
      split: if_splits prod.splits sum.splits)

lemma restore_lanes:
  assumes wf: "session_wf s" and lanes: "lanes_wf s" and fresh: "fresh_ids s s'"
    and res: "restore_request s ticket thread_id d unknown light = (r, s')"
  shows "lanes_wf s'"
proof -
  let ?i = "tk_id ticket"
  obtain q u where u: "track_existing_request_until s ?i (tk_method ticket) thread_id d = (q, u)" by force
  show ?thesis
  proof (cases "s' = s")
    case True
    with lanes show ?thesis by simp
  next
    case False
    then obtain tk where tk: "q = Inr tk"
      using res u track_existing_failed
      by (cases q) (auto simp: restore_request_def Let_def split: if_splits)
    note tr = track_existing_lanes [OF wf u [unfolded tk]]
    have ok: "lanes_ok (lane_of s) (owners_of s) (queue_of s)" using lanes tr(1) by (simp add: live_lanes)
    obtain v where v: "restore_uncertainty v ?i d unknown = (r, s')"
      "v = u \<or> (\<exists>t. thread_id = Some t \<and> v = add_owner u t ?i)"
      using res u tk False
      by (auto simp: restore_request_def Let_def split: if_splits option.splits)
    have "om_get (ss_pending u) ?i \<noteq> None" using tr(7) by auto
    then have "om_get (ss_pending s') ?i \<noteq> None" using restore_uncertainty_lanes [OF v(1)] v(2) by auto
    then have new: "?i \<notin> set (queue_of s t)" for t
      using fresh tr(2) by (simp add: fresh_ids_def lane_of_None)
    have "lanes_ok (lane_of v) (owners_of v) (queue_of v)"
    proof (cases "v = u")
      case True
      with lanes_register_outside [OF ok tr(2) new] tr show ?thesis by simp
    next
      case False
      with v(2) obtain t where t: "thread_id = Some t" "v = add_owner u t ?i" by blast
      let ?os = "case owners_of s t of None \<Rightarrow> [] | Some os \<Rightarrow> os"
      have "lanes_ok ((lane_of s)(?i \<mapsto> Some t)) ((owners_of s)(t \<mapsto> os_insert ?i ?os)) (queue_of s)"
        by (rule lanes_register_owner [OF ok tr(2) new, of _ ?os]) (auto split: option.split)
      with add_owner_lanes [of u ?i t] t tr show ?thesis by simp
    qed
    moreover have "ss_lifecycle v = ss_lifecycle s" using v(2) tr(6) by auto
    ultimately show ?thesis
      using restore_uncertainty_lanes [OF v(1)] tr(1)
      by (auto simp: same_lanes_def lanes_wf_def live_def)
  qed
qed

lemma mark_unknown_lanes:
  assumes "lanes_wf s" "lc = LcLost \<or> lc = LcClosed" "mark_unknown s lc = (acts, s')"
  shows "lanes_wf s'"
  using assms by (auto simp: mark_unknown_def lanes_wf_def live_def lost_def split: if_splits)

lemma settle_initialize_lanes:
  assumes "settle_initialize s mname body = (acts, s')"
  shows "same_lanes s s' \<or> live s' \<and> lane_of s' = lane_of s \<and> owners_of s' = owners_of s \<and> queue_of s' = queue_of s
    \<or> live s \<and> lost s'"
  using assms
  by (auto simp: settle_initialize_def mark_unknown_def same_lanes_def lost_def live_def lane_of_def owners_of_def
      queue_of_def fun_eq_iff split: if_splits response_body.splits)

lemma release_thread_live: "release_thread s t i = (r, s') \<Longrightarrow> live s' = live s"
  using release_thread_keys [of s t i r s'] by (simp add: live_def)

lemma lost_not_live: "lost s \<Longrightarrow> \<not> live s"
  by (auto simp: lost_def live_def)

lemma lost_lanes: "lost s \<Longrightarrow> lanes_wf s"
  using lost_not_live by (simp add: lanes_wf_def)

text \<open>An accepted response: the request leaves the session, then its thread is released.\<close>

lemma receive_response_state:
  assumes wf: "session_wf s" and p: "om_get (ss_pending s) i = Some p"
    and rec: "receive_response s i body at = (r, s')"
  obtains b t acts u where "remove_pending (s\<lparr>ss_book := b\<rparr>) i = (Some p, t)" "session_wf t"
    "settle_initialize t (tk_method (pq_ticket p)) body = (acts, u)" "session_wf u"
    "if \<exists>th. pq_serialized p \<and> pq_thread_id p = Some th
     then \<exists>r'. release_thread u (the (pq_thread_id p)) i = (r', s') else s' = u"
proof -
  have book: "book_wf (ss_book s)" using wf by (simp add: session_wf_def)
  obtain e where e: "om_get (bk_entries (ss_book s)) i = Some e"
    using session_wf_book [OF wf, of i] p wf by (auto simp: session_wf_def)
  obtain m b where m: "observe_response (ss_book s) i = (Inr m, b)"
    using e entry_state [OF book e] by (cases "be_state e") (auto simp: observe_response_def Let_def)
  obtain t where t: "remove_pending (s\<lparr>ss_book := b\<rparr>) i = (Some p, t)"
    using p by (simp add: remove_pending_def)
  have t_wf: "session_wf t"
    using retired_wf [OF wf observe_response_retires [OF m] observe_response_wf [OF book m] p] t by simp
  obtain acts u where u: "settle_initialize t (tk_method (pq_ticket p)) body = (acts, u)" by force
  have i: "tk_id (pq_ticket p) = i" by (rule session_wf_ticket(1) [OF wf p])
  have "if \<exists>th. pq_serialized p \<and> pq_thread_id p = Some th
     then \<exists>r'. release_thread u (the (pq_thread_id p)) i = (r', s') else s' = u"
    using rec m t u i
    by (auto simp: receive_response_def Let_def split: option.splits if_splits prod.splits sum.splits)
  with that t t_wf u settle_initialize_wf [OF t_wf u] show thesis by blast
qed

lemma receive_response_lanes:
  assumes wf: "session_wf s" and lanes: "lanes_wf s" and live: "live s"
    and rec: "receive_response s i body at = (r, s')"
  shows "lanes_wf s'"
proof (cases "om_get (ss_pending s) i")
  case None
  with receive_response_stray [OF wf None] live rec lanes show ?thesis by (simp add: live_def)
next
  case (Some p)
  have ok: "lanes_ok (lane_of s) (owners_of s) (queue_of s)" using lanes live by (simp add: live_lanes)
  obtain b t acts u where t: "remove_pending (s\<lparr>ss_book := b\<rparr>) i = (Some p, t)"
    and u: "settle_initialize t (tk_method (pq_ticket p)) body = (acts, u)" "session_wf u"
    and rel: "if \<exists>th. pq_serialized p \<and> pq_thread_id p = Some th
      then \<exists>r'. release_thread u (the (pq_thread_id p)) i = (r', s') else s' = u"
    by (rule receive_response_state [OF wf Some rec])
  note t' = remove_pending_lanes [OF t]
  have "live t" using t'(5) live by (simp add: live_def)
  show ?thesis
  proof (cases "lost u")
    case True
    with rel lost_release [OF True] show ?thesis by (auto simp: lost_lanes split: if_splits)
  next
    case False
    with settle_initialize_lanes [OF u(1)] \<open>live t\<close>
    have u': "live u" "lane_of u = lane_of t" "owners_of u = owners_of t" "queue_of u = queue_of t"
      by (auto simp: same_lanes_def live_def)
    show ?thesis
    proof (cases "\<exists>th. pq_serialized p \<and> pq_thread_id p = Some th")
      case True
      then obtain th r' where th: "lane_of s i = Some (Some th)" and r': "release_thread u th i = (r', s')"
        using rel t'(4) by auto
      have "lanes_ok (lane_of s') (owners_of s') (queue_of s')"
        by (rule release_lanes [where P = "lane_of s", OF _ th _ u(2) r']) (use ok u' t' in simp_all)
      with release_thread_live [OF r'] u' show ?thesis by (simp add: live_lanes)
    next
      case False
      then have "lane_of s i = Some None" using t'(4) by (cases "pq_thread_id p") auto
      from outside_lanes [OF ok this] False rel u' t' show ?thesis by (simp add: live_lanes)
    qed
  qed
qed

lemma receive_lanes:
  assumes wf: "session_wf s" and lanes: "lanes_wf s" and rec: "receive_inner s f at = (r, s')"
  shows "lanes_wf s'"
proof (cases "live s")
  case True
  with rec lanes receive_response_lanes [OF wf lanes True] show ?thesis
    by (auto simp: receive_inner_def live_def split: frame.splits)
next
  case False
  then have "lost s" using lanes by (simp add: lanes_wf_def)
  with lost_receive [OF this rec] show ?thesis by (simp add: lost_lanes)
qed

lemma remove_request_live:
  "remove_request s ticket = (r, s') \<Longrightarrow> live s' = live s"
  by (auto simp: remove_request_def remove_pending_def live_def split: option.splits if_splits
      dest: release_thread_keys)

text \<open>Cancellation and rejection of a live session.\<close>

lemma retire_lanes:
  assumes wf: "session_wf s" and lanes: "lanes_wf s" and live: "live s"
    and ret: "retires (ss_book s) (tk_id ticket) b" "book_wf b"
    and rem: "remove_request (s\<lparr>ss_book := b\<rparr>) ticket = (r, s')"
  shows "lanes_wf s'"
proof -
  have "session_wf (snd (remove_pending (s\<lparr>ss_book := b\<rparr>) (tk_id ticket)))"
  proof (cases "om_get (ss_pending s) (tk_id ticket)")
    case None
    with retired_absent_wf [OF wf ret None] show ?thesis by simp
  next
    case (Some p)
    show ?thesis by (rule retired_wf [OF wf ret Some])
  qed
  from remove_request_lanes [OF this _ _ rem] lanes live remove_request_live [OF rem] show ?thesis
    by (simp add: live_lanes)
qed

lemma cancel_lanes:
  assumes wf: "session_wf s" and lanes: "lanes_wf s" and "cancel_request s ticket = (r, s')"
  shows "lanes_wf s'"
proof (cases "live s")
  case True
  have book: "book_wf (ss_book s)" using wf by (simp add: session_wf_def)
  show ?thesis
    using assms(3) lanes
    by (auto simp: cancel_request_def split: if_splits prod.splits sum.splits
        dest: retire_lanes [OF wf lanes True book_cancel_retires book_cancel_wf [OF book]])
next
  case False
  then have "lost s" using lanes by (simp add: lanes_wf_def)
  from lost_step [OF this, of _ "session_call.CallCancel ticket"] assms(3) show ?thesis
    by (simp add: lost_lanes)
qed

lemma reject_unsent_lanes:
  assumes wf: "session_wf s" and lanes: "lanes_wf s" and "reject_unsent_request s ticket = (r, s')"
  shows "lanes_wf s'"
proof (cases "live s")
  case True
  have book: "book_wf (ss_book s)" using wf by (simp add: session_wf_def)
  show ?thesis
    using assms(3) lanes
    by (auto simp: reject_unsent_request_def split: if_splits prod.splits sum.splits
        dest: retire_lanes [OF wf lanes True book_reject_unsent_retires book_reject_unsent_wf [OF book]])
next
  case False
  then have "lost s" using lanes by (simp add: lanes_wf_def)
  from lost_step [OF this, of _ "session_call.CallRejectUnsent ticket"] assms(3) show ?thesis
    by (simp add: lost_lanes)
qed

lemma lanes_wf_cong:
  assumes "ss_pending s' = ss_pending s" "ss_active_threads s' = ss_active_threads s"
    "ss_queued_threads s' = ss_queued_threads s" "ss_lifecycle s' = ss_lifecycle s"
  shows "lanes_wf s' = lanes_wf s"
proof -
  have "lane_of s' = lane_of s" "owners_of s' = owners_of s" "queue_of s' = queue_of s"
    using assms by (auto simp: lane_of_def owners_of_def queue_of_def fun_eq_iff)
  with assms show ?thesis by (simp add: lanes_wf_def live_def lost_def)
qed

lemma session_step_lanes:
  assumes wf: "session_wf s" and lanes: "lanes_wf s" and fresh: "fresh_ids s (snd (session_step enc s c))"
  shows "lanes_wf (snd (session_step enc s c))"
proof (cases c)
  case (CallSubmit requested mname params now_ms timeout_ms thread_id light)
  obtain r s' where s': "submit_with_id_inner enc s requested mname params now_ms timeout_ms thread_id light = (r, s')"
    by force
  with CallSubmit have "snd (session_step enc s c) = s'" by (auto split: sum.split prod.split)
  with submit_lanes [OF wf lanes s'] fresh show ?thesis by simp
next
  case (CallRestore ticket thread_id d unknown light)
  with restore_lanes [OF wf lanes _ prod.collapse [symmetric]] fresh show ?thesis by simp
next
  case CallInitializedWritten
  then have "lanes_wf (snd (session_step enc s c)) = lanes_wf s"
    by (intro lanes_wf_cong)
      (auto simp: mark_initialized_notification_written_def split: initialization_status.split)
  with lanes show ?thesis by simp
next
  case (CallReceive f at)
  with receive_lanes [OF wf lanes prod.collapse [symmetric]] show ?thesis by simp
next
  case (CallExpire now_ms)
  then have "lanes_wf (snd (session_step enc s c)) = lanes_wf s"
    by (intro lanes_wf_cong) (simp_all add: expire_state)
  with lanes show ?thesis by simp
next
  case CallLost
  with mark_unknown_lanes [OF lanes _ prod.collapse [symmetric], of LcLost] show ?thesis
    by (simp add: transport_lost_def)
next
  case CallClose
  with mark_unknown_lanes [OF lanes _ prod.collapse [symmetric], of LcClosed] show ?thesis
    by (simp add: close_session_def)
next
  case (CallCancel ticket)
  with cancel_lanes [OF wf lanes prod.collapse [symmetric]] show ?thesis by simp
next
  case (CallRejectUnsent ticket)
  with reject_unsent_lanes [OF wf lanes prod.collapse [symmetric]] show ?thesis by simp
qed

text \<open>A new session has no lanes: recovered requests are tracked outside them.\<close>

definition no_lanes :: "session_state \<Rightarrow> bool" where
  "no_lanes s \<longleftrightarrow> live s \<and> (\<forall>t. owners_of s t = None \<and> queue_of s t = []) \<and> (\<forall>i t. lane_of s i \<noteq> Some (Some t))"

lemma no_lanes_wf: "no_lanes s \<Longrightarrow> lanes_wf s"
  by (simp add: no_lanes_def lanes_wf_def lanes_ok_def)

lemma track_recovered_lanes:
  "session_wf s \<Longrightarrow> no_lanes s \<Longrightarrow> track_recovered s d recovered = (Inr u, s') \<Longrightarrow> no_lanes s'"
proof (induction s d recovered rule: track_recovered.induct)
  case (2 s d i mname thread_id recovered)
  obtain q t where t: "track_existing_request_until s i mname thread_id d = (q, t)" by force
  with 2 obtain tk where q: "q = Inr tk" by (cases q) auto
  note tr = track_existing_lanes [OF 2(2) t [unfolded q]]
  have "no_lanes t" using tr 2(3) by (auto simp: no_lanes_def live_def)
  with 2 t q track_existing_wf [OF 2(2) t] show ?case by simp
qed simp

lemma new_session_lanes:
  assumes "new_with_recovered_and_prefix enc g w now_ms timeout_ms params recovered id_prefix = Inr (s, acts)"
  shows "lanes_wf s"
proof -
  have "no_lanes (new_session_state g w id_prefix)"
    by (simp add: no_lanes_def new_session_state_def live_def owners_of_def queue_of_def lane_of_def)
  moreover obtain t ticket u where t: "track_recovered (new_session_state g w id_prefix)
        (saturating_add now_ms timeout_ms) recovered = (Inr (), t)"
    and u: "register enc t ''initialize'' params now_ms timeout_ms None False None = (Inr ticket, u)"
    and s: "write_request u ticket = (Inr acts, s)"
    using assms by (auto simp: new_with_recovered_and_prefix_def split: sum.splits prod.splits)
  ultimately have "no_lanes t" "session_wf t"
    using track_recovered_lanes [OF new_session_state_wf] track_recovered_wf [OF new_session_state_wf] by blast+
  with register_lanes [OF this(2) u] have "no_lanes u" by (auto simp: no_lanes_def live_def)
  with write_request_lanes [OF s] write_request_keys [OF s] have "no_lanes s" by (simp add: no_lanes_def live_def)
  then show ?thesis by (rule no_lanes_wf)
qed

text \<open>Sessions in which no id is taken up again while a queue still holds it.\<close>

inductive lanes_reachable :: "to_writer \<Rightarrow> session_state \<Rightarrow> bool" for enc where
  start: "new_with_recovered_and_prefix enc generation w now_ms timeout_ms params recovered id_prefix =
      Inr (s, acts) \<Longrightarrow> lanes_reachable enc s"
| step: "lanes_reachable enc s \<Longrightarrow> fresh_ids s (snd (session_step enc s c)) \<Longrightarrow>
      lanes_reachable enc (snd (session_step enc s c))"

lemma lanes_reachable_session: "lanes_reachable enc s \<Longrightarrow> session_reachable enc s"
  by (induction rule: lanes_reachable.induct) (auto intro: session_reachable.intros)

lemma lanes_reachable_wf: "lanes_reachable enc s \<Longrightarrow> session_wf s \<and> lanes_wf s"
proof (induction rule: lanes_reachable.induct)
  case (start generation w now_ms timeout_ms params recovered id_prefix s acts)
  then show ?case using new_session_wf new_session_lanes by blast
next
  case (step s c)
  then show ?case using session_step_wf session_step_lanes by blast
qed

end
