(* ===== verification/Session_Order.thy ===== *)
theory Session_Order
  imports Session_Lanes
begin

text \<open>
  The order in which the provider session writes requests: the request that owns a thread and the
  requests behind it, the hand-over on a response, the drain of a whole queue, and that a request
  is written once at most.
\<close>

section \<open>Hand-over of a thread\<close>

lemma sole_owner_request:
  assumes ok: "lanes_ok (lane_of s) (owners_of s) (queue_of s)" and own: "owners_of s t = Some os" "i \<in> set os"
  obtains p where "om_get (ss_pending s) i = Some p" "pq_serialized p" "pq_thread_id p = Some t"
proof -
  have "lane_of s i = Some (Some t)" using lanes_own [OF ok own] by simp
  then show thesis using that by (auto simp: lane_of_def split: if_splits)
qed

text \<open>The request that a thread is handed to is written from its pending record; the others keep theirs.\<close>

lemma release_pending:
  assumes "release_thread s t i = (Inr acts, s')" "ActThreadReleased t ticket \<in> set acts" "k \<noteq> tk_id ticket"
  shows "om_get (ss_pending s') k = om_get (ss_pending s) k"
  using assms
  by (auto simp: release_thread_def write_request_def Let_def split: option.splits if_splits prod.splits)

text \<open>The response to the only owner of a thread of a ready session hands the thread over.\<close>

lemma receive_hands_over:
  assumes wf: "session_wf s" and lanes: "lanes_wf s" and ready: "ss_lifecycle s = LcReady"
    and own: "owners_of s t = Some [i]"
    and rec: "receive_response s i body at = (r, s')"
  shows "case waiting s t of
      [] \<Rightarrow> owners_of s' t = None \<and> waiting s' t = []
    | j # ws \<Rightarrow> owners_of s' t = Some [j] \<and> waiting s' t = ws \<and>
        (\<forall>k \<in> set ws. om_get (ss_pending s') k = om_get (ss_pending s) k) \<and>
        (\<exists>p q outcome. om_get (ss_pending s) i = Some p \<and> om_get (ss_pending s) j = Some q \<and>
          r = Inr [ActResolve (pq_ticket p) outcome, ActThreadReleased t (pq_ticket q),
            ActWrite (Request \<lparr>rf_id = j, rf_method = tk_method (pq_ticket q),
              rf_params = Some (pq_params q), rf_fields = []\<rparr>)])"
    and "ss_lifecycle s' = LcReady"
proof -
  have live: "live s" using ready by (simp add: live_def)
  have ok: "lanes_ok (lane_of s) (owners_of s) (queue_of s)" using lanes live by (simp add: live_lanes)
  obtain p where p: "om_get (ss_pending s) i = Some p" "pq_serialized p" "pq_thread_id p = Some t"
    using sole_owner_request [OF ok own] by auto
  have i: "tk_id (pq_ticket p) = i" by (rule session_wf_ticket(1) [OF wf p(1)])
  have iq: "i \<notin> set (queue_of s t)" using lanes_own [OF ok own] by simp
  have book: "book_wf (ss_book s)" using wf by (simp add: session_wf_def)
  obtain e where e: "om_get (bk_entries (ss_book s)) i = Some e"
    using session_wf_book [OF wf, of i] p live by (auto simp: live_def)
  obtain m b where m: "observe_response (ss_book s) i = (Inr m, b)"
    using e entry_state [OF book e] by (cases "be_state e") (auto simp: observe_response_def Let_def)
  obtain u where u: "remove_pending (s\<lparr>ss_book := b\<rparr>) i = (Some p, u)"
    using p by (simp add: remove_pending_def)
  note u' = remove_pending_lanes [OF u]
  have u_wf: "session_wf u"
    using retired_wf [OF wf observe_response_retires [OF m] observe_response_wf [OF book m] p(1)] u by simp
  have u_pend: "om_get (ss_pending u) j = (if j = i then None else om_get (ss_pending s) j)" for j
    using u p by (auto simp: remove_pending_def)
  have w: "waiting u t = waiting s t"
    using iq u'(3) u_pend unfolding waiting_def by (intro filter_cong) auto
  obtain acts v where v: "release_thread u t i = (acts, v)" by force
  have settle: "settle_initialize u (tk_method (pq_ticket p)) body = ([], u)"
    using u'(5) ready by (simp add: settle_initialize_def)
  have r: "case acts of Inl e \<Rightarrow> r = Inl e | Inr released \<Rightarrow>
      \<exists>outcome. r = Inr (ActResolve (pq_ticket p) outcome # released)" and s': "s' = v"
    using rec m u settle v p i
    by (auto simp: receive_response_def Let_def split: sum.splits)
  have owner: "owners_of u t = Some [i]" "i \<in> set [i]" "os_remove i [i] = []"
    using own u'(2) by (simp_all add: os_remove_def)
  note last = release_last [OF u_wf owner v]
  show "ss_lifecycle s' = LcReady" using release_thread_keys [OF v] u'(5) ready s' by simp
  show "case waiting s t of
      [] \<Rightarrow> owners_of s' t = None \<and> waiting s' t = []
    | j # ws \<Rightarrow> owners_of s' t = Some [j] \<and> waiting s' t = ws \<and>
        (\<forall>k \<in> set ws. om_get (ss_pending s') k = om_get (ss_pending s) k) \<and>
        (\<exists>p q outcome. om_get (ss_pending s) i = Some p \<and> om_get (ss_pending s) j = Some q \<and>
          r = Inr [ActResolve (pq_ticket p) outcome, ActThreadReleased t (pq_ticket q),
            ActWrite (Request \<lparr>rf_id = j, rf_method = tk_method (pq_ticket q),
              rf_params = Some (pq_params q), rf_fields = []\<rparr>)])"
  proof (cases "waiting s t")
    case Nil
    with last w s' show ?thesis by (simp add: waiting_def)
  next
    case (Cons j ws)
    with last w obtain q c where q: "om_get (ss_pending u) j = Some q"
      "filter (\<lambda>i. om_get (ss_pending u) i \<noteq> None) c = ws"
      "acts = Inr [ActThreadReleased t (pq_ticket q), ActWrite (Request \<lparr>rf_id = j,
        rf_method = tk_method (pq_ticket q), rf_params = Some (pq_params q), rf_fields = []\<rparr>)]"
      "lane_of v = lane_of u" "owners_of v = (owners_of u)(t \<mapsto> [j])" "queue_of v = (queue_of u)(t := c)"
      by auto
    have "waiting v t = ws"
      using q(2,4,6) by (simp add: waiting_def lane_of_None [symmetric])
    moreover have j: "om_get (ss_pending s) j = Some q" using q(1) u_pend by (simp split: if_splits)
    moreover have "om_get (ss_pending v) k = om_get (ss_pending s) k" if "k \<in> set ws" for k
    proof -
      have "distinct (j # ws)" "set (j # ws) \<subseteq> set (queue_of s t)"
        unfolding Cons [symmetric] using lanes_distinct [OF ok, of t] by (auto simp: waiting_lanes)
      with that iq have "k \<noteq> i" "k \<noteq> tk_id (pq_ticket q)" using session_wf_ticket(1) [OF wf j] by auto
      with release_pending [OF v [unfolded q(3)], of "pq_ticket q" k] u_pend show ?thesis by simp
    qed
    ultimately show ?thesis using Cons q r s' p by auto
  qed
qed

section \<open>Draining a queue\<close>

fun released_on :: "string \<Rightarrow> session_action \<Rightarrow> request_id option" where
  "released_on t (ActThreadReleased u ticket) = (if u = t then Some (tk_id ticket) else None)"
| "released_on t _ = None"

definition released_ids :: "string \<Rightarrow> session_action list \<Rightarrow> request_id list" where
  "released_ids t acts = List.map_filter (released_on t) acts"

lemma released_ids_simps [simp]:
  "released_ids t [] = []" "released_ids t (xs @ ys) = released_ids t xs @ released_ids t ys"
  "released_ids t (a # xs) = (case released_on t a of None \<Rightarrow> [] | Some i \<Rightarrow> [i]) @ released_ids t xs"
  by (simp_all add: released_ids_def map_filter_def split: option.split)

text \<open>Every frame that is written, and the request a pending record stands for.\<close>

fun written_frame :: "session_action \<Rightarrow> frame option" where
  "written_frame (ActWrite f) = Some f"
| "written_frame _ = None"

definition written_frames :: "session_action list \<Rightarrow> frame list" where
  "written_frames acts = List.map_filter written_frame acts"

lemma written_frames_simps [simp]:
  "written_frames [] = []" "written_frames (xs @ ys) = written_frames xs @ written_frames ys"
  "written_frames (a # xs) = (case written_frame a of None \<Rightarrow> [] | Some f \<Rightarrow> [f]) @ written_frames xs"
  by (simp_all add: written_frames_def map_filter_def split: option.split)

definition pending_frame :: "session_state \<Rightarrow> request_id \<Rightarrow> frame option" where
  "pending_frame s i = map_option (\<lambda>p. Request \<lparr>rf_id = i, rf_method = tk_method (pq_ticket p),
     rf_params = Some (pq_params p), rf_fields = []\<rparr>) (om_get (ss_pending s) i)"

definition answer :: "response_body \<Rightarrow> request_id \<Rightarrow> session_call" where
  "answer body i = CallReceive (Response i body []) None"

text \<open>Answering the owner and then each released request in turn releases and writes all that wait,
  in order.\<close>

definition drained :: "string \<Rightarrow> session_state \<Rightarrow> request_id \<Rightarrow> request_id list \<Rightarrow> session_action list \<times> session_state \<Rightarrow> bool"
where
  "drained t s i ws run \<longleftrightarrow> released_ids t (fst run) = ws \<and>
     map Some (written_frames (fst run)) = map (pending_frame s) ws \<and>
     owners_of (snd run) t = Some [last (i # ws)] \<and> waiting (snd run) t = []"

lemma drain:
  assumes "session_wf s" "lanes_wf s" "ss_lifecycle s = LcReady" "owners_of s t = Some [i]" "waiting s t = ws"
  shows "drained t s i ws (session_run enc s (map (answer body) (butlast (i # ws))))"
  using assms
proof (induction ws arbitrary: s i)
  case Nil
  then show ?case by (simp add: drained_def)
next
  case (Cons j ws)
  let ?f = "Response i body []"
  obtain r s' where s': "receive_inner s ?f None = (r, s')" by force
  then have rec: "receive_response s i body None = (r, s')" using Cons.prems(3) by (simp add: receive_inner_def)
  note hand = receive_hands_over [OF Cons.prems(1-4) rec, unfolded Cons.prems(5) list.case]
  obtain p :: pending_request and q outcome where q: "om_get (ss_pending s) j = Some q"
    and r: "r = Inr [ActResolve (pq_ticket p) outcome, ActThreadReleased t (pq_ticket q),
      ActWrite (Request \<lparr>rf_id = j, rf_method = tk_method (pq_ticket q),
        rf_params = Some (pq_params q), rf_fields = []\<rparr>)]"
    using hand(1) by blast
  have step: "session_step enc s (answer body i) = (case r of Inr acts \<Rightarrow> (acts, s'))"
    using s' r by (simp add: answer_def ok_actions_def)
  have IH: "drained t s' j ws (session_run enc s' (map (answer body) (butlast (j # ws))))"
    by (rule Cons.IH [OF receive_wf [OF Cons.prems(1) s'] receive_lanes [OF Cons.prems(1,2) s']])
      (use hand in auto)
  have "map (pending_frame s') ws = map (pending_frame s) ws" using hand(1) by (simp add: pending_frame_def)
  moreover have "tk_id (pq_ticket q) = j" by (rule session_wf_ticket(1) [OF Cons.prems(1) q])
  ultimately show ?case using IH step r q by (simp add: session_run_Cons drained_def pending_frame_def)
qed

section \<open>Requests are written once\<close>

fun written_id :: "session_action \<Rightarrow> request_id option" where
  "written_id (ActWrite (Request f)) = Some (rf_id f)"
| "written_id _ = None"

definition writes :: "request_id \<Rightarrow> session_action list \<Rightarrow> nat" where
  "writes i acts = length (filter (\<lambda>a. written_id a = Some i) acts)"

lemma writes_simps [simp]:
  "writes i [] = 0" "writes i (xs @ ys) = writes i xs + writes i ys"
  "writes i (a # xs) = (if written_id a = Some i then Suc (writes i xs) else writes i xs)"
  by (simp_all add: writes_def)

lemma writes_none: "(\<And>a. a \<in> set acts \<Longrightarrow> written_id a = None) \<Longrightarrow> writes i acts = 0"
  by (simp add: writes_def filter_empty_conv)

text \<open>A request that is queued and not written yet.\<close>

definition unwritten :: "session_state \<Rightarrow> request_id \<Rightarrow> bool" where
  "unwritten s i \<longleftrightarrow> (\<exists>t. i \<in> set (waiting s t))"

definition taken_up :: "session_state \<Rightarrow> session_state \<Rightarrow> request_id \<Rightarrow> bool" where
  "taken_up s s' i \<longleftrightarrow> om_get (ss_pending s) i = None \<and> om_get (ss_pending s') i \<noteq> None"

text \<open>What a step may write: one request, which waited or is new, and which then waits no more.\<close>

definition writes_fresh :: "session_state \<Rightarrow> session_action list \<Rightarrow> session_state \<Rightarrow> bool" where
  "writes_fresh s acts s' \<longleftrightarrow>
     (\<forall>i. writes i acts = 0 \<or> writes i acts = 1 \<and> (unwritten s i \<or> taken_up s s' i)
        \<and> (lane_of s' i = Some None \<or> (\<exists>t os. owners_of s' t = Some os \<and> i \<in> set os)))"

lemma owner_not_unwritten:
  assumes ok: "lanes_ok (lane_of s) (owners_of s) (queue_of s)"
    and "lane_of s i = Some None \<or> (\<exists>t os. owners_of s t = Some os \<and> i \<in> set os)"
  shows "\<not> unwritten s i"
proof
  assume "unwritten s i"
  then obtain t where t: "i \<in> set (queue_of s t)" "lane_of s i \<noteq> None"
    by (auto simp: unwritten_def waiting_lanes)
  have lane: "lane_of s i = Some (Some t)" using lanes_wait [OF ok t] by simp
  with assms(2) obtain u os where os: "owners_of s u = Some os" "i \<in> set os" by auto
  with lanes_own [OF ok os] lane t(1) show False by simp
qed

lemma write_request_writes:
  "write_request s ticket = (Inr acts, s') \<Longrightarrow> writes j acts = (if j = tk_id ticket then 1 else 0)"
  by (auto simp: write_request_def split: option.splits)

lemma release_writes:
  assumes wf: "session_wf s" and rel: "release_thread s t i = (Inr acts, s')"
  shows "writes j acts = 0 \<or> writes j acts = 1 \<and> j \<in> set (waiting s t) \<and> owners_of s' t = Some [j]"
proof -
  consider (kept) "owners_of s t = None \<or> (\<exists>os. owners_of s t = Some os \<and> i \<notin> set os)"
    | (shared) os where "owners_of s t = Some os" "i \<in> set os" "os_remove i os \<noteq> []"
    | (last) os where "owners_of s t = Some os" "i \<in> set os" "os_remove i os = []"
    by (cases "owners_of s t") auto
  then show ?thesis
  proof cases
    case kept
    from release_kept(1) [OF kept rel] show ?thesis by simp
  next
    case shared
    from release_shared(1) [OF shared rel] show ?thesis by simp
  next
    case last
    show ?thesis
    proof (cases "waiting s t")
      case Nil
      with release_last [OF wf last rel] show ?thesis by simp
    next
      case (Cons a ws)
      with release_last [OF wf last rel] obtain p :: pending_request where
        "acts = [ActThreadReleased t (pq_ticket p), ActWrite (Request \<lparr>rf_id = a,
          rf_method = tk_method (pq_ticket p), rf_params = Some (pq_params p), rf_fields = []\<rparr>)]"
        "owners_of s' t = Some [a]" by auto
      with Cons show ?thesis by (cases "j = a") simp_all
    qed
  qed
qed

lemma settle_initialize_writes:
  "settle_initialize s mname body = (acts, s') \<Longrightarrow> writes j acts = 0"
  by (intro writes_none)
    (auto simp: settle_initialize_def mark_unknown_def split: if_splits response_body.splits)

lemma waiting_book [simp]: "waiting (s\<lparr>ss_book := b\<rparr>) t = waiting s t"
  by (simp add: waiting_def)

lemma lost_queue: "lost s \<Longrightarrow> queue_of s t = []"
  by (simp add: lost_def queue_of_def)

lemma waiting_remove:
  assumes "remove_pending s i = (Some p, s')"
  shows "set (waiting s' t) \<subseteq> set (waiting s t)"
  using remove_pending_lanes [OF assms] by (auto simp: waiting_lanes)

lemma release_writes_fresh:
  assumes wf: "session_wf u" and w: "set (waiting u t) \<subseteq> set (waiting s t)"
    and rel: "release_thread u t i = (Inr acts, s')"
  shows "writes_fresh s acts s'"
  unfolding writes_fresh_def
proof
  fix j
  from release_writes [OF wf rel, of j] w
  show "writes j acts = 0 \<or> writes j acts = 1 \<and> (unwritten s j \<or> taken_up s s' j) \<and>
      (lane_of s' j = Some None \<or> (\<exists>t os. owners_of s' t = Some os \<and> j \<in> set os))"
    unfolding unwritten_def by (elim disjE conjE) (simp, force)
qed

lemma writes_fresh_prefix: "(\<And>i. writes i acts = 0) \<Longrightarrow> writes_fresh s acts2 s' \<Longrightarrow> writes_fresh s (acts @ acts2) s'"
  by (simp add: writes_fresh_def)

lemma writes_fresh_none: "(\<And>i. writes i acts = 0) \<Longrightarrow> writes_fresh s acts s'"
  by (simp add: writes_fresh_def)

lemma receive_writes:
  assumes wf: "session_wf s" and rec: "receive_response s i body at = (Inr acts, s')"
  shows "writes_fresh s acts s'"
proof (cases "om_get (ss_pending s) i")
  case None
  then have "ss_lifecycle s = LcClosed \<or> acts = []" using receive_response_stray [OF wf None] rec by fastforce
  moreover have "acts = []" if "ss_lifecycle s = LcClosed"
    using rec None
    by (auto simp: receive_response_def split: prod.splits sum.splits if_splits)
  ultimately show ?thesis by (auto intro: writes_fresh_none)
next
  case (Some p)
  have i: "tk_id (pq_ticket p) = i" by (rule session_wf_ticket(1) [OF wf Some])
  have book: "book_wf (ss_book s)" using wf by (simp add: session_wf_def)
  obtain m b where m: "observe_response (ss_book s) i = (m, b)" by force
  obtain t where t: "remove_pending (s\<lparr>ss_book := b\<rparr>) i = (Some p, t)"
    using Some by (simp add: remove_pending_def)
  obtain first u where u: "settle_initialize t (tk_method (pq_ticket p)) body = (first, u)" by force
  have lanes: "lane_of u = lane_of t \<and> queue_of u = queue_of t \<or> lost u"
    using settle_initialize_lanes [OF u] by (auto simp: same_lanes_def)
  show ?thesis
  proof (cases "m")
    case (Inl e)
    with rec m show ?thesis by (auto simp: receive_response_def intro: writes_fresh_none split: if_splits)
  next
    case (Inr matched)
    have t_wf: "session_wf t"
      using retired_wf [OF wf observe_response_retires observe_response_wf [OF book m] Some] m Inr t by fastforce
    have u_wf: "session_wf u" by (rule settle_initialize_wf [OF t_wf u])
    have "waiting u th = waiting t th \<or> waiting u th = []" for th
      using lanes by (auto simp: waiting_lanes lost_queue)
    then have w: "set (waiting u th) \<subseteq> set (waiting s th)" for th
      using waiting_remove [OF t, of th] by (metis empty_set empty_subsetI waiting_book)
    note first = settle_initialize_writes [OF u]
    show ?thesis
    proof (cases "\<exists>th. pq_serialized p \<and> pq_thread_id p = Some th")
      case True
      then obtain th where th: "pq_serialized p" "pq_thread_id p = Some th" by blast
      obtain outcome released where acts: "acts = (ActResolve (pq_ticket p) outcome # first) @ released"
        and rel: "release_thread u th i = (Inr released, s')"
        using rec m Inr t u i th
        by (auto simp: receive_response_def Let_def split: option.splits prod.splits sum.splits)
      show ?thesis
        unfolding acts
        by (rule writes_fresh_prefix [OF _ release_writes_fresh [OF u_wf w rel]]) (simp add: first)
    next
      case False
      then obtain outcome where "acts = ActResolve (pq_ticket p) outcome # first"
        using rec m Inr t u i
        by (auto simp: receive_response_def Let_def split: option.splits prod.splits sum.splits if_splits)
      then show ?thesis using first by (auto intro!: writes_fresh_none)
    qed
  qed
qed

lemma remove_request_writes:
  assumes wf: "session_wf (snd (remove_pending s (tk_id ticket)))"
    and rem: "remove_request s ticket = (Inr acts, s')"
  shows "writes_fresh s acts s'"
proof -
  obtain po u where u: "remove_pending s (tk_id ticket) = (po, u)" by force
  consider (quiet) "acts = []" | (release) p t where "po = Some p" "release_thread u t (tk_id ticket) = (Inr acts, s')"
    using rem u by (auto simp: remove_request_def split: option.splits if_splits)
  then show ?thesis
  proof cases
    case quiet
    then show ?thesis by (simp add: writes_fresh_none)
  next
    case release
    have "session_wf u" using wf u by simp
    from release_writes_fresh [OF this waiting_remove [OF u [unfolded release(1)]] release(2)] show ?thesis .
  qed
qed

lemma retire_writes:
  assumes wf: "session_wf s" and ret: "retires (ss_book s) (tk_id ticket) b" "book_wf b"
    and rem: "remove_request (s\<lparr>ss_book := b\<rparr>) ticket = (Inr acts, s')"
  shows "writes_fresh s acts s'"
proof -
  have "session_wf (snd (remove_pending (s\<lparr>ss_book := b\<rparr>) (tk_id ticket)))"
  proof (cases "om_get (ss_pending s) (tk_id ticket)")
    case None
    with retired_absent_wf [OF wf ret None] show ?thesis by simp
  next
    case (Some p)
    show ?thesis by (rule retired_wf [OF wf ret Some])
  qed
  from remove_request_writes [OF this rem] show ?thesis
    by (simp add: writes_fresh_def unwritten_def taken_up_def)
qed

lemma start_request_writes:
  assumes "om_get (ss_pending s) (tk_id ticket) = Some p" "pq_serialized p = ser"
    and "start_request s ticket ser = (Inr acts, s')"
  shows "writes j acts = 0 \<or> writes j acts = 1 \<and> j = tk_id ticket \<and>
    (lane_of s' j = Some None \<or> (\<exists>t os. owners_of s' t = Some os \<and> j \<in> set os))"
proof (cases ser)
  case False
  with assms have w: "write_request s ticket = (Inr acts, s')" by (simp add: start_request_def)
  have "lane_of s (tk_id ticket) = Some None" using assms(1,2) False by (simp add: lane_of_def)
  with write_request_writes [OF w, of j] write_request_lanes [OF w] show ?thesis by simp
next
  case True
  define t where "t = (case pq_thread_id p of None \<Rightarrow> [] | Some t \<Rightarrow> t)"
  show ?thesis
  proof (cases "om_get (ss_active_threads s) t")
    case None
    with assms True have w: "write_request
        (s\<lparr>ss_active_threads := om_insert t [tk_id ticket] (ss_active_threads s)\<rparr>) ticket = (Inr acts, s')"
      by (simp add: start_request_def t_def [symmetric])
    from write_request_lanes [OF w] have "owners_of s' t = Some [tk_id ticket]" by simp
    with write_request_writes [OF w, of j] show ?thesis by force
  next
    case (Some os)
    with assms True show ?thesis by (auto simp: start_request_def t_def [symmetric] Let_def)
  qed
qed

lemma submit_writes:
  assumes wf: "session_wf s"
    and sub: "submit_with_id_inner enc s requested mname params now_ms timeout_ms thread_id light =
      (Inr (ticket, acts), s')"
  shows "writes_fresh s acts s'"
proof -
  let ?ser = "request_serialized s mname params light"
  obtain u where u: "register enc s mname params now_ms timeout_ms thread_id ?ser requested = (Inr ticket, u)"
    and st: "start_request u ticket ?ser = (Inr acts, s')"
    using sub by (auto simp: submit_with_id_inner_def Let_def split: if_splits prod.splits sum.splits)
  note reg = register_lanes [OF wf u]
  obtain p where p: "om_get (ss_pending u) (tk_id ticket) = Some p" "pq_serialized p = ?ser"
    using u by (auto simp: register_def Let_def split: sum.splits prod.splits)
  have "taken_up s s' (tk_id ticket)"
    using reg(1) start_request_pending [OF st, of "tk_id ticket"] p by (simp add: taken_up_def lane_of_None)
  then show ?thesis
    unfolding writes_fresh_def using start_request_writes [OF p st] by blast
qed

lemma after_loss_writes: "list_all after_loss acts \<Longrightarrow> writes i acts = 0"
proof (induction acts)
  case (Cons a acts)
  then show ?case by (cases a rule: after_loss.cases) simp_all
qed simp

lemma expire_due_writes: "writes j (fst (expire_due s now_ms)) = 0"
  by (induction s rule: expire_due_induct)
    (auto simp: expire_due_Nil expire_due_Cons expire_one_def split: prod.splits sum.splits option.splits)

lemma session_step_writes:
  assumes wf: "session_wf s" and lanes: "lanes_wf s"
  shows "writes_fresh s (fst (session_step enc s c)) (snd (session_step enc s c))"
proof (cases "live s")
  case False
  then have "lost s" using lanes by (simp add: lanes_wf_def)
  with lost_step [OF this, of enc c] show ?thesis by (auto intro: writes_fresh_none after_loss_writes)
next
  case True
  have book: "book_wf (ss_book s)" using wf by (simp add: session_wf_def)
  show ?thesis
  proof (cases c)
    case (CallSubmit requested mname params now_ms timeout_ms thread_id light)
    then show ?thesis
      using submit_writes [OF wf, of enc requested mname params now_ms timeout_ms thread_id light]
      by (auto intro: writes_fresh_none split: prod.split sum.split)
  next
    case (CallReceive f at)
    then show ?thesis
      using True receive_writes [OF wf]
      by (auto simp: receive_inner_def live_def ok_actions_def intro: writes_fresh_none
          split: frame.split sum.split prod.split)
  next
    case (CallExpire now_ms)
    then show ?thesis
      using expire_due_writes [of _ s now_ms]
      by (auto simp: expire_def Let_def intro!: writes_fresh_none split: prod.split)
  next
    case (CallCancel ticket)
    then show ?thesis
      by (auto simp: cancel_request_def ok_actions_def intro: writes_fresh_none split: sum.splits prod.splits
          dest: retire_writes [OF wf book_cancel_retires book_cancel_wf [OF book]])
  next
    case (CallRejectUnsent ticket)
    then show ?thesis
      by (auto simp: reject_unsent_request_def ok_actions_def intro: writes_fresh_none split: sum.splits prod.splits
          dest: retire_writes [OF wf book_reject_unsent_retires book_reject_unsent_wf [OF book]])
  qed (auto simp: transport_lost_def close_session_def mark_unknown_def intro!: writes_fresh_none writes_none)
qed

text \<open>Only a request that is taken up enters a queue.\<close>

lemma release_queue:
  assumes wf: "session_wf s" and rel: "release_thread s t i = (r, s')"
  shows "set (queue_of s' u) \<subseteq> set (queue_of s u)"
proof -
  consider (kept) "owners_of s t = None \<or> (\<exists>os. owners_of s t = Some os \<and> i \<notin> set os)"
    | (shared) os where "owners_of s t = Some os" "i \<in> set os" "os_remove i os \<noteq> []"
    | (last) os where "owners_of s t = Some os" "i \<in> set os" "os_remove i os = []"
    by (cases "owners_of s t") auto
  then show ?thesis
  proof cases
    case kept
    from release_kept(4) [OF kept rel] show ?thesis by simp
  next
    case shared
    from release_shared(4) [OF shared rel] show ?thesis by simp
  next
    case last
    from release_last [OF wf last rel] show ?thesis by (cases "waiting s t") (auto split: if_splits)
  qed
qed

lemma remove_request_queue:
  assumes wf: "session_wf (snd (remove_pending s (tk_id ticket)))" and rem: "remove_request s ticket = (r, s')"
  shows "set (queue_of s' t) \<subseteq> set (queue_of s t)"
proof -
  obtain po u where u: "remove_pending s (tk_id ticket) = (po, u)" by force
  have wf_u: "session_wf u" using wf u by simp
  have qu: "queue_of u = queue_of s"
    using u by (auto simp: remove_pending_def queue_of_def fun_eq_iff split: option.splits)
  have "s' = u \<or> (\<exists>th. s' = unqueue u th (tk_id ticket)) \<or> (\<exists>th. release_thread u th (tk_id ticket) = (r, s'))"
  proof (cases "\<exists>p th. po = Some p \<and> pq_serialized p \<and> pq_thread_id p = Some th")
    case False
    with rem u show ?thesis by (auto simp: remove_request_def split: option.splits if_splits)
  next
    case True
    then obtain p th where th: "po = Some p" "pq_serialized p" "pq_thread_id p = Some th" by blast
    show ?thesis
    proof (cases "\<exists>os. owners_of u th = Some os \<and> tk_id ticket \<in> set os")
      case True
      with rem u th have "release_thread u th (tk_id ticket) = (r, s')"
        by (auto simp: remove_request_def owners_of_def)
      then show ?thesis by blast
    next
      case False
      with rem u th have "s' = unqueue u th (tk_id ticket)"
        by (auto simp: remove_request_def owners_of_def unqueue_def split: option.splits)
      then show ?thesis by blast
    qed
  qed
  then show ?thesis
    using release_queue [OF wf_u, where u = t] qu by (auto split: if_splits) blast
qed

lemma start_request_queue:
  "start_request s ticket ser = (r, s') \<Longrightarrow> set (queue_of s' t) \<subseteq> insert (tk_id ticket) (set (queue_of s t))"
  by (auto simp: start_request_def Let_def queue_of_def write_request_def split: option.splits if_splits)

lemma submit_queue:
  assumes wf: "session_wf s"
    and sub: "submit_with_id_inner enc s requested mname params now_ms timeout_ms thread_id light = (r, s')"
    and i: "i \<in> set (queue_of s' t)" "i \<notin> set (queue_of s t)"
  shows "taken_up s s' i"
proof -
  let ?ser = "request_serialized s mname params light"
  obtain q u where u: "register enc s mname params now_ms timeout_ms thread_id ?ser requested = (q, u)" by force
  have "s' \<noteq> s" using i by auto
  then obtain ticket where q: "q = Inr ticket"
    using sub u register_failed_lanes [OF wf, of enc mname params now_ms timeout_ms thread_id ?ser requested _ u] i
    by (cases q) (auto simp: submit_with_id_inner_def Let_def same_lanes_def split: if_splits)
  obtain st where st: "start_request u ticket ?ser = (st, s')"
    using sub u q \<open>s' \<noteq> s\<close>
    by (auto simp: submit_with_id_inner_def Let_def split: if_splits prod.splits sum.splits)
  note reg = register_lanes [OF wf u [unfolded q]]
  have "i = tk_id ticket" using start_request_queue [OF st, of t] i reg(3) by auto
  then show ?thesis
    using reg(1,6) start_request_pending [OF st, of i] by (auto simp: taken_up_def lane_of_None)
qed

lemma receive_queue:
  assumes wf: "session_wf s" and rec: "receive_inner s f at = (r, s')"
  shows "set (queue_of s' t) \<subseteq> set (queue_of s t)"
proof (cases "\<exists>i body flds p. f = Response i body flds \<and> ss_lifecycle s \<noteq> LcClosed \<and> om_get (ss_pending s) i = Some p")
  case False
  then have "s' = s"
    using rec receive_response_stray [OF wf] by (auto simp: receive_inner_def split: frame.splits if_splits)
  then show ?thesis by simp
next
  case True
  then obtain i body flds p where f: "f = Response i body flds" "ss_lifecycle s \<noteq> LcClosed"
    and p: "om_get (ss_pending s) i = Some p" by blast
  have rec': "receive_response s i body at = (r, s')" using rec f by (simp add: receive_inner_def)
  obtain b v acts u where v: "remove_pending (s\<lparr>ss_book := b\<rparr>) i = (Some p, v)"
    and u: "settle_initialize v (tk_method (pq_ticket p)) body = (acts, u)" "session_wf u"
    and rel: "if \<exists>th. pq_serialized p \<and> pq_thread_id p = Some th
      then \<exists>r'. release_thread u (the (pq_thread_id p)) i = (r', s') else s' = u"
    by (rule receive_response_state [OF wf p rec'])
  have "queue_of u t = queue_of v t \<or> queue_of u t = []"
    using settle_initialize_lanes [OF u(1)] by (auto simp: same_lanes_def lost_queue)
  moreover have "set (queue_of s' t) \<subseteq> set (queue_of u t)"
    using rel release_queue [OF u(2)] by (auto split: if_splits) blast
  ultimately show ?thesis using remove_pending_lanes(3) [OF v] by auto
qed

lemma cancel_queue:
  assumes wf: "session_wf s" and "cancel_request s ticket = (r, s') \<or> reject_unsent_request s ticket = (r, s')"
  shows "set (queue_of s' t) \<subseteq> set (queue_of s t)"
proof (cases "\<exists>b. retires (ss_book s) (tk_id ticket) b \<and> book_wf b \<and> remove_request (s\<lparr>ss_book := b\<rparr>) ticket = (r, s')")
  case True
  then obtain b where b: "retires (ss_book s) (tk_id ticket) b" "book_wf b"
    "remove_request (s\<lparr>ss_book := b\<rparr>) ticket = (r, s')" by blast
  have "session_wf (snd (remove_pending (s\<lparr>ss_book := b\<rparr>) (tk_id ticket)))"
    using retired_wf [OF wf b(1,2)] retired_absent_wf [OF wf b(1,2)]
    by (cases "om_get (ss_pending s) (tk_id ticket)") auto
  from remove_request_queue [OF this b(3)] show ?thesis by simp
next
  case False
  have book: "book_wf (ss_book s)" using wf by (simp add: session_wf_def)
  have "\<exists>b. s' = s\<lparr>ss_book := b\<rparr> \<or> s' = s"
    using assms(2) False book_cancel_retires book_cancel_wf [OF book] book_reject_unsent_retires
      book_reject_unsent_wf [OF book]
    by (auto simp: cancel_request_def reject_unsent_request_def split: if_splits prod.splits sum.splits)
  then show ?thesis by auto
qed

lemma add_owner_queue: "queue_of (add_owner s t i) = queue_of s"
  by (simp add: queue_of_def fun_eq_iff)

lemma session_step_queue:
  assumes wf: "session_wf s" and i: "i \<in> set (queue_of (snd (session_step enc s c)) t)" "i \<notin> set (queue_of s t)"
  shows "taken_up s (snd (session_step enc s c)) i"
proof (cases c)
  case (CallSubmit requested mname params now_ms timeout_ms thread_id light)
  obtain r s' where s': "submit_with_id_inner enc s requested mname params now_ms timeout_ms thread_id light = (r, s')"
    by force
  with CallSubmit have "snd (session_step enc s c) = s'" by (auto split: sum.split prod.split)
  with submit_queue [OF wf s'] i show ?thesis by simp
next
  case (CallRestore ticket thread_id d unknown light)
  obtain r s' where s': "restore_request s ticket thread_id d unknown light = (r, s')" by force
  have "queue_of s' = queue_of s"
  proof (cases "s' = s")
    case False
    obtain q u where u: "track_existing_request_until s (tk_id ticket) (tk_method ticket) thread_id d = (q, u)" by force
    obtain tk where q: "q = Inr tk"
      using s' u False track_existing_failed
      by (cases q) (auto simp: restore_request_def Let_def split: if_splits)
    then show ?thesis
      using s' u track_existing_lanes(5) [OF wf u [unfolded q]]
      by (auto simp: restore_request_def Let_def same_lanes_def add_owner_queue
          split: if_splits option.splits dest!: restore_uncertainty_lanes)
  qed simp
  with CallRestore s' i show ?thesis by simp
next
  case (CallReceive f at)
  with receive_queue [OF wf prod.collapse [symmetric], of f at t] i show ?thesis by auto
next
  case (CallCancel ticket)
  with cancel_queue [OF wf, of ticket "fst (cancel_request s ticket)" "snd (cancel_request s ticket)" t] i
  show ?thesis by auto
next
  case (CallRejectUnsent ticket)
  with cancel_queue [OF wf, of ticket "fst (reject_unsent_request s ticket)" "snd (reject_unsent_request s ticket)" t] i
  show ?thesis by auto
qed (use i in \<open>auto simp: mark_initialized_notification_written_def expire_state transport_lost_def
       close_session_def mark_unknown_def queue_of_def split: initialization_status.splits if_splits\<close>)

definition of_flag :: "bool \<Rightarrow> nat" where
  "of_flag b = (if b then 1 else 0)"

lemma write_step:
  assumes wf: "session_wf s" and lanes: "lanes_wf s" and fresh: "fresh_ids s (snd (session_step enc s c))"
  shows "writes i (fst (session_step enc s c)) + of_flag (unwritten (snd (session_step enc s c)) i)
    \<le> of_flag (unwritten s i) + of_flag (taken_up s (snd (session_step enc s c)) i)"
proof -
  let ?s = "snd (session_step enc s c)"
  have lanes': "lanes_wf ?s" by (rule session_step_lanes [OF wf lanes fresh])
  have not_both: "\<not> (unwritten s i \<and> taken_up s ?s i)"
    by (auto simp: unwritten_def taken_up_def waiting_def)
  have grow: "unwritten s i \<or> taken_up s ?s i" if new: "unwritten ?s i"
  proof -
    obtain t where t: "i \<in> set (queue_of ?s t)" "om_get (ss_pending ?s) i \<noteq> None"
      using new by (auto simp: unwritten_def waiting_def)
    show ?thesis
    proof (cases "i \<in> set (queue_of s t) \<and> om_get (ss_pending s) i \<noteq> None")
      case True
      then show ?thesis by (auto simp: unwritten_def waiting_def)
    next
      case False
      with t session_step_queue [OF wf t(1)] show ?thesis by (auto simp: taken_up_def)
    qed
  qed
  have stop: "\<not> unwritten ?s i"
    if "lane_of ?s i = Some None \<or> (\<exists>t os. owners_of ?s t = Some os \<and> i \<in> set os)"
  proof (cases "live ?s")
    case True
    with owner_not_unwritten [OF _ that] lanes' show ?thesis by (simp add: live_lanes)
  next
    case False
    then have "lost ?s" using lanes' by (simp add: lanes_wf_def)
    then show ?thesis by (simp add: unwritten_def waiting_def lost_queue)
  qed
  show ?thesis
    using session_step_writes [OF wf lanes, of enc c, unfolded writes_fresh_def, rule_format, of i]
      grow stop not_both
    by (auto simp: of_flag_def)
qed

fun fresh_run :: "to_writer \<Rightarrow> session_state \<Rightarrow> session_call list \<Rightarrow> bool" where
  "fresh_run enc s [] = True"
| "fresh_run enc s (c # cs) \<longleftrightarrow>
     fresh_ids s (snd (session_step enc s c)) \<and> fresh_run enc (snd (session_step enc s c)) cs"

lemma write_count:
  assumes "session_wf s" "lanes_wf s" "fresh_run enc s cs"
  shows "writes i (fst (session_run enc s cs)) + of_flag (unwritten (snd (session_run enc s cs)) i)
    \<le> of_flag (unwritten s i) + registrations enc i s cs"
  using assms
proof (induction cs arbitrary: s)
  case (Cons c cs)
  let ?t = "snd (session_step enc s c)"
  have "session_wf ?t" "lanes_wf ?t"
    using session_step_wf session_step_lanes Cons.prems by auto
  with Cons.IH Cons.prems(3) have "writes i (fst (session_run enc ?t cs)) +
      of_flag (unwritten (snd (session_run enc ?t cs)) i) \<le> of_flag (unwritten ?t i) + registrations enc i ?t cs"
    by simp
  with write_step [OF Cons.prems(1,2), of enc c i] Cons.prems(3) show ?case
    by (simp add: session_run_Cons Let_def of_flag_def taken_up_def)
qed simp

section \<open>The concrete session\<close>

lemma fresh_empty: "ss_queued_threads s = [] \<Longrightarrow> fresh_ids s s'"
  by (simp add: fresh_ids_def queue_of_def)

lemma fresh_run_empty:
  "(\<And>n. n < length cs \<Longrightarrow> ss_queued_threads (snd (session_run enc s (take n cs))) = []) \<Longrightarrow> fresh_run enc s cs"
proof (induction cs arbitrary: s)
  case (Cons c cs)
  have "ss_queued_threads s = []" using Cons.prems [of 0] by simp
  moreover have "fresh_run enc (snd (session_step enc s c)) cs"
    by (rule Cons.IH) (use Cons.prems [of "Suc _"] in \<open>simp add: session_run_Cons\<close>)
  ultimately show ?case by (simp add: fresh_empty)
qed simp

lemma lanes_reachable_run:
  "lanes_reachable enc s \<Longrightarrow> fresh_run enc s cs \<Longrightarrow> lanes_reachable enc (snd (session_run enc s cs))"
  by (induction cs arbitrary: s) (auto simp: session_run_Cons intro: lanes_reachable.step)

definition sample_initial :: session_state where
  "sample_initial = (case sample_start of Inl _ \<Rightarrow> new_session_state 0 (wire Codex) None | Inr (s, _) \<Rightarrow> s)"

lemma sample_initial_reachable: "lanes_reachable sample_enc sample_initial"
proof -
  obtain s acts where s: "sample_start = Inr (s, acts)" using sample_start_ok by blast
  then have "lanes_reachable sample_enc s"
    unfolding sample_start_def new_session_def new_with_recovered_def by (rule lanes_reachable.start)
  then show ?thesis unfolding sample_initial_def s by simp
qed

lemma sample_session_run: "sample_session = snd (session_run sample_enc sample_initial sample_calls)"
proof -
  obtain s acts where s: "sample_start = Inr (s, acts)" using sample_start_ok by blast
  show ?thesis unfolding sample_session_def sample_initial_def s by simp
qed

lemma sample_calls_fresh: "fresh_run sample_enc sample_initial sample_calls"
proof (rule fresh_run_empty)
  have "list_all (\<lambda>n. ss_queued_threads (snd (session_run sample_enc sample_initial (take n sample_calls))) = [])
      [0, 1, 2]"
    by code_simp
  moreover fix n assume "n < length sample_calls"
  then have "n \<in> set [0, 1, 2]" by (auto simp: sample_calls_def)
  ultimately show "ss_queued_threads (snd (session_run sample_enc sample_initial (take n sample_calls))) = []"
    unfolding list_all_iff by blast
qed

lemma sample_session_lanes: "lanes_reachable sample_enc sample_session"
  unfolding sample_session_run
  by (rule lanes_reachable_run [OF sample_initial_reachable sample_calls_fresh])

section \<open>Properties\<close>

text \<open>C18: from its construction, with whatever requests it recovers, and after any sequence of
  submissions, restorations, responses, deadlines, losses, cancellations and rejections, a session
  keeps its pending requests, its request book, its deadline index and its lifecycle in agreement. When
  no id is taken up again while a queue still holds it, the thread tables agree as well: in a live
  session every request of a thread owns the thread or waits in its queue, never both, a queue waits
  behind an owner, and a lost session has no owners and no queues.\<close>

theorem session_invariant:
  assumes "session_reachable enc s"
  shows "session_wf s \<and> (lanes_reachable enc s \<longrightarrow> lanes_wf s)"
  using reachable_wf [OF assms] lanes_reachable_wf by blast

theorem session_invariant_witness:
  "session_wf sample_session \<and> length (ss_pending sample_session) = 2 \<and>
   lanes_wf sample_session \<and> waiting sample_session ''t'' = [Number 2]"
proof -
  have "length (ss_pending sample_session) = 2" "waiting sample_session ''t'' = [Number 2]" by code_simp+
  with session_invariant [OF sample_session_reachable] sample_session_lanes show ?thesis by simp
qed

text \<open>In a live session, a request that has to wait its turn on a thread either owns the thread or
  waits behind the requests that own it, never both; the waiting requests are distinct, and there
  is always an owner for them to wait for, itself a pending request of the same thread.\<close>

lemma thread_owned_or_waiting:
  assumes "lanes_reachable enc s" "live s"
    and "om_get (ss_pending s) i = Some p" "pq_serialized p" "pq_thread_id p = Some t"
  shows "\<exists>os. owners_of s t = Some os \<and> os \<noteq> [] \<and> distinct (waiting s t) \<and>
    (\<forall>j. j \<in> set os \<longrightarrow> lane_of s j = Some (Some t)) \<and>
    (i \<in> set os \<longleftrightarrow> i \<notin> set (waiting s t))"
proof -
  have "lanes_wf s" using lanes_reachable_wf [OF assms(1)] by blast
  then have ok: "lanes_ok (lane_of s) (owners_of s) (queue_of s)" using assms(2) by (simp add: live_lanes)
  have lane: "lane_of s i = Some (Some t)" using assms(3-5) by (simp add: lane_of_def)
  have pend: "i \<in> set (waiting s t) \<longleftrightarrow> i \<in> set (queue_of s t)" using lane by (simp add: waiting_lanes)
  obtain os where os: "owners_of s t = Some os"
    using lanes_all [OF ok lane] lanes_wait [OF ok, of i t] lane by auto
  have "i \<in> set os \<longleftrightarrow> i \<notin> set (waiting s t)"
    unfolding pend using lanes_all [OF ok lane] lanes_own [OF ok os, of i] os by auto
  then show ?thesis
    using os lanes_ne [OF ok os] lanes_own [OF ok os] lanes_distinct [OF ok, of t] by (auto simp: waiting_lanes)
qed

text \<open>C19: in a ready session in which no id was taken up again while a queue still held it, answering the
  only owner of a thread and then each request the thread is handed to releases the waiting requests one
  after another in the order they wait in, and writes exactly these requests in the same order, each
  with the method and the parameters the session kept for it; then the last of them owns the thread
  and none waits.\<close>

theorem waiting_requests_are_released_in_order:
  assumes "lanes_reachable enc s" "ss_lifecycle s = LcReady" "owners_of s t = Some [i]"
  shows "let calls = map (answer body) (butlast (i # waiting s t)); (acts, s') = session_run enc s calls in
    released_ids t acts = waiting s t \<and>
    map Some (written_frames acts) = map (pending_frame s) (waiting s t) \<and>
    owners_of s' t = Some [last (i # waiting s t)] \<and> waiting s' t = []"
  using drain [OF _ _ assms(2,3) refl, of enc body] lanes_reachable_wf [OF assms(1)]
  by (auto simp: Let_def drained_def split: prod.splits)

theorem waiting_requests_are_released_in_order_witness:
  "let (acts, s') = session_run sample_enc sample_session [answer (ResultBody JNull) (Number 1)] in
     released_ids ''t'' acts = [Number 2] \<and> map Some (written_frames acts) = [pending_frame sample_session (Number 2)]"
proof -
  have "ss_lifecycle sample_session = LcReady" "owners_of sample_session ''t'' = Some [Number 1]"
    "waiting sample_session ''t'' = [Number 2]" by code_simp+
  with waiting_requests_are_released_in_order [OF sample_session_lanes, of "''t''" "Number 1" "ResultBody JNull"]
  show ?thesis by (auto simp: Let_def split: prod.splits)
qed

text \<open>The response to the only owner of a thread, in a ready session, reports the reply and then
  releases and writes the first waiting request, with the parameters it was submitted with; the
  other waiting requests keep their places.\<close>

lemma response_hands_thread_over:
  assumes "lanes_reachable enc s" "ss_lifecycle s = LcReady" "owners_of s t = Some [i]"
    and "waiting s t = j # ws" "receive_inner s (Response i body extra) received_at = (r, s')"
  shows "owners_of s' t = Some [j] \<and> waiting s' t = ws \<and>
    (\<exists>p q outcome. om_get (ss_pending s) i = Some p \<and> om_get (ss_pending s) j = Some q \<and>
      r = Inr [ActResolve (pq_ticket p) outcome, ActThreadReleased t (pq_ticket q),
        ActWrite (Request \<lparr>rf_id = j, rf_method = tk_method (pq_ticket q),
          rf_params = Some (pq_params q), rf_fields = []\<rparr>)])"
proof -
  have "receive_response s i body received_at = (r, s')" using assms(2,5) by (simp add: receive_inner_def)
  from receive_hands_over(1) [OF _ _ assms(2,3) this] lanes_reachable_wf [OF assms(1)] assms(4)
  show ?thesis by simp
qed

text \<open>C20: in every run in which no id is taken up again while a queue still holds it, the writes of
  a request under an id, with one more when it still waits at the end, are no more than the
  requests taken up under the id, with one more when it was waiting at the start. No call replays
  a request.\<close>

theorem requests_written_at_most_once:
  assumes "lanes_reachable enc s" "fresh_run enc s calls"
  shows "writes i (fst (session_run enc s calls)) + of_flag (unwritten (snd (session_run enc s calls)) i)
    \<le> of_flag (unwritten s i) + registrations enc i s calls"
  using write_count [OF _ _ assms(2)] lanes_reachable_wf [OF assms(1)] by blast

theorem requests_written_at_most_once_witness:
  "writes (Number 2) (fst (session_run sample_enc sample_initial sample_calls)) = 0 \<and>
   unwritten (snd (session_run sample_enc sample_initial sample_calls)) (Number 2)"
proof -
  have "waiting sample_session ''t'' = [Number 2]" by code_simp
  then have "unwritten (snd (session_run sample_enc sample_initial sample_calls)) (Number 2)"
    unfolding sample_session_run [symmetric] unwritten_def by (metis list.set_intros(1))
  moreover have "registrations sample_enc (Number 2) sample_initial sample_calls = 1" by code_simp
  moreover have "\<not> unwritten sample_initial (Number 2)"
  proof -
    have "om_get (ss_pending sample_initial) (Number 2) = None" by code_simp
    then show ?thesis by (simp add: unwritten_def waiting_def)
  qed
  ultimately show ?thesis
    using requests_written_at_most_once [OF sample_initial_reachable sample_calls_fresh, of "Number 2"]
    by (simp add: of_flag_def)
qed

lemma register_not_missing:
  "fst (register enc s mname params now_ms timeout_ms thread_id serialized requested) \<noteq> Inl SeMissingRequest"
proof -
  have checked: "e \<noteq> SeMissingRequest" if "register_checked enc t i mname params = (Inl e, t')" for t t' i e
    using that
    by (auto simp: register_checked_def validate_request_encoding_def split: sum.splits prod.splits)
  have "fst (register_id enc s mname params requested) \<noteq> Inl SeMissingRequest"
    by (auto simp: register_id_def validate_request_encoding_def Let_def dest: checked
        split: option.splits sum.splits prod.splits request_id_scheme.splits)
  then show ?thesis by (auto simp: register_def Let_def split: sum.splits prod.splits)
qed

lemma submit_not_missing:
  assumes wf: "session_wf s"
  shows "fst (submit_with_id_inner enc s requested mname params now_ms timeout_ms thread_id light)
    \<noteq> Inl SeMissingRequest"
proof -
  let ?ser = "request_serialized s mname params light"
  obtain q u where u: "register enc s mname params now_ms timeout_ms thread_id ?ser requested = (q, u)" by force
  have q: "q \<noteq> Inl SeMissingRequest"
    using register_not_missing [of enc s mname params now_ms timeout_ms thread_id ?ser requested] u by simp
  have "fst (start_request u ticket ?ser) \<noteq> Inl SeMissingRequest" if "q = Inr ticket" for ticket
    using register_lanes(6) [OF wf u [unfolded that]]
    by (auto simp: start_request_def write_request_def Let_def split: option.splits)
  with u q show ?thesis
    by (auto simp: submit_with_id_inner_def Let_def split: sum.splits prod.splits)
qed

lemma receive_not_missing:
  assumes wf: "session_wf s"
  shows "fst (receive_inner s f received_at) \<noteq> Inl SeMissingRequest"
proof (cases "\<exists>i body flds. f = Response i body flds \<and> ss_lifecycle s \<noteq> LcClosed")
  case False
  then show ?thesis by (auto simp: receive_inner_def split: frame.splits)
next
  case True
  then obtain i body flds where f: "f = Response i body flds" "ss_lifecycle s \<noteq> LcClosed" by blast
  obtain r s' where r: "receive_response s i body received_at = (r, s')" by force
  show ?thesis
    using receive_response_ok(1) [OF wf _ r] receive_response_stray [OF wf _ f(2), of i body received_at] f r
    by (cases "om_get (ss_pending s) i") (auto simp: receive_inner_def)
qed

lemma remove_request_not_missing:
  assumes wf: "session_wf s" and ret: "retires (ss_book s) (tk_id ticket) b" "book_wf b"
  shows "fst (remove_request (s\<lparr>ss_book := b\<rparr>) ticket) \<noteq> Inl SeMissingRequest"
proof (cases "om_get (ss_pending s) (tk_id ticket)")
  case None
  then show ?thesis by (simp add: remove_request_def)
next
  case (Some p)
  obtain u where u: "remove_pending (s\<lparr>ss_book := b\<rparr>) (tk_id ticket) = (Some p, u)"
    using Some by (simp add: remove_pending_def)
  have "session_wf u" using retired_wf [OF wf ret Some] u by simp
  then have "fst (release_thread u t (tk_id ticket)) \<noteq> Inl SeMissingRequest" for t
    using release_thread_ok [of u t "tk_id ticket"] by fastforce
  with u show ?thesis by (auto simp: remove_request_def split: option.splits)
qed

text \<open>The errors that would mean a broken bookkeeping do not occur: no operation of a reachable
  session reports a registered request as missing.\<close>

lemma registered_requests_are_never_missing:
  assumes "session_reachable enc s"
  shows "fst (submit_with_id_inner enc s requested mname params now_ms timeout_ms thread_id light) \<noteq> Inl SeMissingRequest
    \<and> fst (receive_inner s f received_at) \<noteq> Inl SeMissingRequest
    \<and> fst (cancel_request s ticket) \<noteq> Inl SeMissingRequest
    \<and> fst (reject_unsent_request s ticket) \<noteq> Inl SeMissingRequest"
proof -
  have wf: "session_wf s" by (rule reachable_wf [OF assms])
  then have book: "book_wf (ss_book s)" by (simp add: session_wf_def)
  note retired = remove_request_not_missing [OF wf]
  have "fst (cancel_request s ticket) \<noteq> Inl SeMissingRequest"
    using retired [OF book_cancel_retires book_cancel_wf [OF book]]
    by (auto simp: cancel_request_def split: prod.splits sum.splits)
  moreover have "fst (reject_unsent_request s ticket) \<noteq> Inl SeMissingRequest"
    using retired [OF book_reject_unsent_retires book_reject_unsent_wf [OF book]]
    by (auto simp: reject_unsent_request_def split: prod.splits sum.splits)
  ultimately show ?thesis using submit_not_missing [OF wf] receive_not_missing [OF wf] by blast
qed

end
