(* ===== verification/Voice_Session.thy ===== *)
theory Voice_Session
  imports Json_Value Rust_Text
begin

text \<open>
  Voice sessions: the pure policy of \<open>runtime-services/src/voice/policy.rs\<close> (stored rows, start
  requests, signals, audio uploads) and the statements of \<open>runtime-services/src/voice/provider.rs\<close>
  that read and write the \<open>voice_sessions\<close> table around it.
\<close>

definition valid_time :: "f64 \<Rightarrow> bool" where
  "valid_time x = (\<not> (\<not> is_finite x \<or> f64_less x (Finite 0)))"

section \<open>Sessions\<close>

definition MAX_SESSION_ID_CHARS :: int where "MAX_SESSION_ID_CHARS = 120"
definition MAX_OFFER_CHARS :: int where "MAX_OFFER_CHARS = 100000"
definition MAX_AUDIO_BYTES :: int where "MAX_AUDIO_BYTES = 4 * 1024 * 1024"

datatype voice_error =
    InvalidSessionIdentity | InvalidOffer | InvalidStoredSession | SessionIdentityConflict
  | ActiveSessionExists | UnknownSession | UnsupportedAudioFormat | InvalidAudioEncoding
  | AudioTooLarge | AudioIdentityConflict | InvalidClock

definition parse_session_id :: "string \<Rightarrow> voice_error + string" where
  "parse_session_id s =
     (if s = [] \<or> int (chars_count s) > MAX_SESSION_ID_CHARS then Inl InvalidSessionIdentity else Inr s)"

datatype voice_state =
  VsConnecting | VsReady | VsStopping | VsEnded | VsFailed | VsLost | VsUnknown

definition parse_voice_state :: "string \<Rightarrow> voice_state option" where
  "parse_voice_state s =
     (if s = ''connecting'' then Some VsConnecting else if s = ''ready'' then Some VsReady
      else if s = ''stopping'' then Some VsStopping else if s = ''ended'' then Some VsEnded
      else if s = ''failed'' then Some VsFailed else if s = ''lost'' then Some VsLost
      else if s = ''unknown'' then Some VsUnknown else None)"

fun voice_state_str :: "voice_state \<Rightarrow> string" where
  "voice_state_str VsConnecting = ''connecting''"
| "voice_state_str VsReady = ''ready''"
| "voice_state_str VsStopping = ''stopping''"
| "voice_state_str VsEnded = ''ended''"
| "voice_state_str VsFailed = ''failed''"
| "voice_state_str VsLost = ''lost''"
| "voice_state_str VsUnknown = ''unknown''"

record voice_session =
  vs_id :: string
  vs_agent :: string
  vs_created :: f64
  vs_ended :: "f64 option"
  vs_offer :: "string option"
  vs_answer :: "string option"
  vs_native_thread :: "string option"
  vs_account_key :: "string option"
  vs_connection_id :: "string option"
  vs_state :: "voice_state option"
  vs_error :: "string option"

record voice_row =
  vr_id :: string
  vr_agent :: string
  vr_created :: f64
  vr_ended :: "f64 option"
  vr_offer :: "string option"
  vr_answer :: "string option"
  vr_native_thread :: "string option"
  vr_account_key :: "string option"
  vr_connection_id :: "string option"
  vr_state :: "string option"
  vr_error :: "string option"

definition stored_state :: "string option \<Rightarrow> voice_error + voice_state option" where
  "stored_state v =
     (case v of
        None \<Rightarrow> Inr None
      | Some s \<Rightarrow> (case parse_voice_state s of None \<Rightarrow> Inl InvalidStoredSession | Some st \<Rightarrow> Inr (Some st)))"

definition session_from_row :: "voice_row \<Rightarrow> voice_error + voice_session" where
  "session_from_row row =
     try_result (stored_state (vr_state row)) (\<lambda>state.
       if \<not> valid_time (vr_created row)
         \<or> (case vr_ended row of None \<Rightarrow> False | Some e \<Rightarrow> \<not> valid_time e)
         \<or> (case vr_offer row of None \<Rightarrow> False | Some s \<Rightarrow> int (chars_count s) > MAX_OFFER_CHARS)
       then Inl InvalidStoredSession
       else case parse_session_id (vr_id row) of
              Inl _ \<Rightarrow> Inl InvalidStoredSession
            | Inr i \<Rightarrow>
                Inr \<lparr>vs_id = i, vs_agent = vr_agent row, vs_created = vr_created row,
                     vs_ended = vr_ended row, vs_offer = vr_offer row, vs_answer = vr_answer row,
                     vs_native_thread = vr_native_thread row, vs_account_key = vr_account_key row,
                     vs_connection_id = vr_connection_id row, vs_state = state,
                     vs_error = vr_error row\<rparr>)"

definition is_active :: "voice_session \<Rightarrow> bool" where
  "is_active s \<longleftrightarrow> vs_state s \<noteq> None \<and> vs_ended s = None"

section \<open>Starting\<close>

record voice_start_request =
  st_agent :: string
  st_session_id :: string
  st_offer :: string

definition new_start_request :: "string \<Rightarrow> string \<Rightarrow> string \<Rightarrow> voice_error + voice_start_request" where
  "new_start_request agent session_id offer =
     try_result (parse_session_id session_id) (\<lambda>i.
       if \<not> prefix ''v=0'' offer \<or> int (chars_count offer) > MAX_OFFER_CHARS then Inl InvalidOffer
       else Inr \<lparr>st_agent = agent, st_session_id = i, st_offer = offer\<rparr>)"

datatype start_decision = Replay voice_session | Create string string string f64

definition decide_start ::
  "f64 option \<Rightarrow> voice_start_request \<Rightarrow> voice_session option \<Rightarrow> voice_session option \<Rightarrow>
   voice_error + start_decision" where
  "decide_start now request existing active =
     (case existing of
        Some old \<Rightarrow>
          (if vs_id old \<noteq> st_session_id request \<or> vs_agent old \<noteq> st_agent request
             \<or> (case vs_offer old of None \<Rightarrow> False | Some sdp \<Rightarrow> sdp \<noteq> st_offer request)
           then Inl SessionIdentityConflict else Inr (Replay old))
      | None \<Rightarrow>
          (case active of
             Some session \<Rightarrow>
               (if vs_agent session \<noteq> st_agent request then Inl InvalidStoredSession
                else Inl ActiveSessionExists)
           | None \<Rightarrow>
               (case now of
                  None \<Rightarrow> Inl InvalidClock
                | Some t \<Rightarrow>
                    (if \<not> valid_time t then Inl InvalidClock
                     else Inr (Create (st_agent request) (st_session_id request) (st_offer request) t)))))"

section \<open>Signals\<close>

datatype session_signal =
    AnswerReceived string
  | ProviderFailed "string option"
  | PeerClosed "string option"
  | ProviderDisconnected
  | StopRequested bool
  | StopRejected string

record session_transition =
  tr_session :: voice_session
  tr_stop_provider :: bool

text \<open>\<open>Option::filter\<close> and \<open>Option::get_or_insert\<close>.\<close>

definition opt_filter :: "('a \<Rightarrow> bool) \<Rightarrow> 'a option \<Rightarrow> 'a option" where
  "opt_filter f v = (case v of Some x \<Rightarrow> if f x then Some x else None | None \<Rightarrow> None)"

definition get_or_insert :: "'a \<Rightarrow> 'a option \<Rightarrow> 'a option" where
  "get_or_insert x v = (case v of Some y \<Rightarrow> Some y | None \<Rightarrow> Some x)"

fun apply_signal :: "voice_session \<Rightarrow> session_signal \<Rightarrow> f64 \<Rightarrow> voice_error + voice_session \<times> bool" where
  "apply_signal s (AnswerReceived answer) now =
     (if int (chars_count answer) > MAX_OFFER_CHARS then Inl InvalidOffer
      else let s = s\<lparr>vs_answer := Some answer\<rparr> in
           Inr (if vs_ended s = None then s\<lparr>vs_state := Some VsReady\<rparr> else s, False))"
| "apply_signal s (ProviderFailed error) now =
     Inr (s\<lparr>vs_state := Some VsFailed,
            vs_error := Some (case opt_filter (\<lambda>v. v \<noteq> []) error of
                                Some v \<Rightarrow> v | None \<Rightarrow> ''Voice failed'')\<rparr>, True)"
| "apply_signal s (PeerClosed reason) now =
     (let s = (if vs_state s \<noteq> Some VsFailed
               then s\<lparr>vs_state := Some VsEnded,
                      vs_error := map_option (\<lambda>_. ''Voice disconnected. The saved transcript remains.'')
                        (opt_filter (\<lambda>v. v \<noteq> [] \<and> v \<noteq> ''requested'') reason)\<rparr>
               else s)
      in Inr (s\<lparr>vs_ended := get_or_insert now (vs_ended s)\<rparr>, False))"
| "apply_signal s ProviderDisconnected now =
     Inr (s\<lparr>vs_state := Some VsLost,
            vs_error := Some ''Codex disconnected. The saved transcript remains.'',
            vs_ended := get_or_insert now (vs_ended s)\<rparr>, False)"
| "apply_signal s (StopRequested start_dispatched) now =
     (if start_dispatched \<and> vs_ended s = None
      then Inr (if vs_state s \<noteq> Some VsFailed then s\<lparr>vs_state := Some VsStopping\<rparr> else s, True)
      else Inr (s\<lparr>vs_state := Some VsEnded, vs_ended := get_or_insert now (vs_ended s)\<rparr>, False))"
| "apply_signal s (StopRejected error) now =
     Inr (s\<lparr>vs_state := Some VsUnknown, vs_error := Some error\<rparr>, False)"

definition transition_session ::
  "voice_session \<Rightarrow> session_signal \<Rightarrow> f64 \<Rightarrow> voice_error + session_transition" where
  "transition_session current signal now =
     (if \<not> valid_time now then Inl InvalidClock
      else case apply_signal current signal now of
             Inl e \<Rightarrow> Inl e
           | Inr (session, stop) \<Rightarrow> Inr \<lparr>tr_session = session, tr_stop_provider = stop\<rparr>)"

section \<open>Audio uploads\<close>

text \<open>Sizes are compared as integers. The base64 decoder and the digest are parameters.\<close>

record audio_chunk_request =
  ar_agent :: string
  ar_session_id :: string
  ar_chunk_id :: string
  ar_base64 :: string
  ar_mime :: string

record audio_chunk =
  ac_file_name :: string
  ac_bytes :: bytes
  ac_mime :: string

datatype audio_decision = AdStore audio_chunk | AdReuse audio_chunk

definition decide_audio ::
  "(string \<Rightarrow> bytes option) \<Rightarrow> (string \<Rightarrow> string) \<Rightarrow> audio_chunk_request \<Rightarrow> bool \<Rightarrow> bytes option \<Rightarrow>
   voice_error + audio_decision" where
  "decide_audio decode sha256_hex request session_exists existing_bytes =
     (if \<not> session_exists then Inl UnknownSession
      else if takeWhile (\<lambda>c. c \<noteq> CHR '';'') (ar_mime request)
                \<notin> {''audio/mp4'', ''audio/webm'', ''audio/ogg''}
      then Inl UnsupportedAudioFormat
      else if int (length (ar_base64 request)) > (MAX_AUDIO_BYTES + 2) div 3 * 4 then Inl AudioTooLarge
      else case decode (ar_base64 request) of
             None \<Rightarrow> Inl InvalidAudioEncoding
           | Some bs \<Rightarrow>
               (if int (length bs) > MAX_AUDIO_BYTES then Inl AudioTooLarge
                else let chunk = \<lparr>ac_file_name = sha256_hex (ar_agent request @ '':'' @
                             ar_session_id request @ '':'' @ ar_chunk_id request),
                           ac_bytes = bs, ac_mime = ar_mime request\<rparr>
                     in case existing_bytes of
                          Some existing \<Rightarrow>
                            if existing = ac_bytes chunk then Inr (AdReuse chunk)
                            else Inl AudioIdentityConflict
                        | None \<Rightarrow> Inr (AdStore chunk)))"

section \<open>The session table\<close>

text \<open>The rows of \<open>voice_sessions\<close> by their primary key.\<close>

type_synonym voice_table = "(string, voice_row) omap"

datatype voice_provider_error =
    VpPolicy voice_error
  | VpStore
  | VpContextUnavailable
  | VpContextChanged
  | VpOperation

definition load_row_any :: "voice_table \<Rightarrow> string \<Rightarrow> voice_row option" where
  "load_row_any t session = om_get t session"

definition load_row :: "voice_table \<Rightarrow> string \<Rightarrow> string \<Rightarrow> voice_row option" where
  "load_row t session agent = opt_filter (\<lambda>r. vr_agent r = agent) (om_get t session)"

text \<open>\<open>ORDER BY created DESC LIMIT 1\<close>; of rows created at the same time the first is taken.\<close>

fun newest :: "voice_row list \<Rightarrow> voice_row option" where
  "newest [] = None"
| "newest (r # rs) =
     (case newest rs of
        None \<Rightarrow> Some r
      | Some q \<Rightarrow> if f64_le (vr_created q) (vr_created r) then Some r else Some q)"

definition active_row :: "voice_table \<Rightarrow> string \<Rightarrow> voice_row option" where
  "active_row t agent =
     newest (filter (\<lambda>r. vr_agent r = agent \<and> vr_state r \<noteq> None \<and> vr_ended r = None) (map snd t))"

definition read_session :: "voice_row option \<Rightarrow> voice_provider_error + voice_session option" where
  "read_session v =
     (case v of
        None \<Rightarrow> Inr None
      | Some row \<Rightarrow> (case session_from_row row of Inl e \<Rightarrow> Inl (VpPolicy e) | Inr s \<Rightarrow> Inr (Some s)))"

definition update_session :: "voice_table \<Rightarrow> voice_session \<Rightarrow> voice_table" where
  "update_session t s =
     (case om_get t (vs_id s) of
        None \<Rightarrow> t
      | Some r \<Rightarrow>
          om_insert (vs_id s)
            (r\<lparr>vr_state := map_option voice_state_str (vs_state s), vr_error := vs_error s,
               vr_ended := vs_ended s, vr_answer := vs_answer s\<rparr>) t)"

text \<open>The part of an agent record that the voice service reads and writes.\<close>

record voice_agent =
  va_thread_id :: "string option"
  va_account_key :: string
  va_epoch :: int
  va_auto_wake :: "bool option"
  va_turn_epoch :: "int option"

definition connecting_row :: "string \<Rightarrow> string \<Rightarrow> string \<Rightarrow> string \<Rightarrow> string \<Rightarrow> f64 \<Rightarrow> voice_row" where
  "connecting_row session_id agent offer thread_id account_key created =
     \<lparr>vr_id = session_id, vr_agent = agent, vr_created = created, vr_ended = None,
      vr_offer = Some offer, vr_answer = None,
      vr_native_thread = (if thread_id \<noteq> [] then Some thread_id else None),
      vr_account_key = Some account_key, vr_connection_id = None,
      vr_state = Some ''connecting'', vr_error = None\<rparr>"

text \<open>The transaction of \<open>create_session\<close>: nothing is written when a step fails. The agent is
  stored with the session and returned as it is then.\<close>

definition create_session ::
  "voice_agent option \<Rightarrow> bool \<Rightarrow> voice_table \<Rightarrow> string \<Rightarrow> string \<Rightarrow> string \<Rightarrow> string \<Rightarrow> string \<Rightarrow> int \<Rightarrow> f64 \<Rightarrow>
   ((voice_provider_error + start_decision) \<times> voice_agent option) \<times> voice_table" where
  "create_session agent available t agent_id session_id offer account_key thread_id epoch now =
     (case new_start_request agent_id session_id offer of
        Inl e \<Rightarrow> ((Inl (VpPolicy e), agent), t)
      | Inr request \<Rightarrow>
          (case agent of
             None \<Rightarrow> ((Inl VpContextUnavailable, agent), t)
           | Some a \<Rightarrow>
               if va_epoch a \<noteq> epoch
                 \<or> (case va_thread_id a of None \<Rightarrow> [] | Some th \<Rightarrow> th) \<noteq> thread_id
                 \<or> va_account_key a \<noteq> account_key \<or> \<not> available
               then ((Inl VpContextChanged, agent), t)
               else case read_session (load_row_any t session_id) of
                      Inl e \<Rightarrow> ((Inl e, agent), t)
                    | Inr old \<Rightarrow>
                        (case read_session (active_row t agent_id) of
                           Inl e \<Rightarrow> ((Inl e, agent), t)
                         | Inr active \<Rightarrow>
                             (case decide_start (Some now) request old active of
                                Inl e \<Rightarrow> ((Inl (VpPolicy e), agent), t)
                              | Inr (Replay s) \<Rightarrow> ((Inr (Replay s), agent), t)
                              | Inr (Create _ _ _ created) \<Rightarrow>
                                  (let row = connecting_row session_id agent_id offer thread_id
                                         account_key created
                                   in case session_from_row row of
                                        Inl e \<Rightarrow> ((Inl (VpPolicy e), agent), t)
                                      | Inr _ \<Rightarrow>
                                          ((Inr (Create agent_id session_id offer created),
                                            Some (a\<lparr>va_auto_wake := Some True,
                                                    va_turn_epoch := Some (va_epoch a)\<rparr>)),
                                           om_insert session_id row t))))))"

text \<open>A session ended before it starts leaves a row that a later start with its id finds.\<close>

definition tombstone_row :: "string \<Rightarrow> string \<Rightarrow> f64 \<Rightarrow> voice_row" where
  "tombstone_row session_id agent now =
     \<lparr>vr_id = session_id, vr_agent = agent, vr_created = now, vr_ended = Some now,
      vr_offer = None, vr_answer = None, vr_native_thread = None, vr_account_key = None,
      vr_connection_id = None, vr_state = Some ''ended'', vr_error = None\<rparr>"

definition set_state :: "voice_table \<Rightarrow> string \<Rightarrow> (voice_row \<Rightarrow> bool) \<Rightarrow> (voice_row \<Rightarrow> voice_row) \<Rightarrow> voice_table"
where
  "set_state t session cond f =
     (case om_get t session of
        Some r \<Rightarrow> if cond r then om_insert session (f r) t else t
      | None \<Rightarrow> t)"

text \<open>
  The transaction of \<open>prepare_end\<close>. \<open>stopped\<close> says whether a stop of the session is already staged;
  \<open>scope\<close> whether the captured connection of the session is still current, \<open>None\<close> when the session
  has no captured connection. The result carries whether a provider stop is to be sent.
\<close>

definition end_signal :: "voice_agent \<Rightarrow> voice_session \<Rightarrow> session_signal" where
  "end_signal a s =
     (case (vs_native_thread s, vs_account_key s, vs_connection_id s) of
        (Some thread, Some account, Some _) \<Rightarrow>
          if va_thread_id a \<noteq> Some thread \<or> va_account_key a \<noteq> account then ProviderDisconnected
          else StopRequested True
      | _ \<Rightarrow> StopRequested False)"

text \<open>The row is read back before the transaction commits.\<close>

definition commit_end ::
  "voice_table \<Rightarrow> voice_table \<Rightarrow> string \<Rightarrow> string \<Rightarrow> bool \<Rightarrow> (voice_provider_error + bool) \<times> voice_table" where
  "commit_end t t' session_id agent_id stop =
     (case load_row t' session_id agent_id of
        None \<Rightarrow> (Inl VpContextUnavailable, t)
      | Some row \<Rightarrow>
          (case session_from_row row of
             Inl e \<Rightarrow> (Inl (VpPolicy e), t)
           | Inr _ \<Rightarrow> (Inr stop, t')))"

definition end_session ::
  "voice_agent \<Rightarrow> bool option \<Rightarrow> voice_table \<Rightarrow> string \<Rightarrow> voice_session \<Rightarrow> f64 \<Rightarrow>
   (voice_provider_error + bool) \<times> voice_table" where
  "end_session a scope t agent_id s now =
     (case transition_session s (end_signal a s) now of
        Inl e \<Rightarrow> (Inl (VpPolicy e), t)
      | Inr tr \<Rightarrow>
          (let t' = update_session t (tr_session tr) in
           if end_signal a s = ProviderDisconnected then (Inr False, t')
           else if end_signal a s = StopRequested True
           then case scope of
                  None \<Rightarrow> (Inl VpContextUnavailable, t)
                | Some True \<Rightarrow> commit_end t t' (vs_id s) agent_id True
                | Some False \<Rightarrow>
                    commit_end t
                      (set_state t' (vs_id s) (\<lambda>r. vr_agent r = agent_id)
                         (\<lambda>r. r\<lparr>vr_state := Some ''unknown'',
                                vr_error := Some ''Voice stop outcome is unresolved''\<rparr>))
                      (vs_id s) agent_id False
           else commit_end t t' (vs_id s) agent_id False))"

definition prepare_end ::
  "voice_agent option \<Rightarrow> bool \<Rightarrow> bool option \<Rightarrow> voice_table \<Rightarrow> string \<Rightarrow> string \<Rightarrow> f64 \<Rightarrow>
   (voice_provider_error + bool) \<times> voice_table" where
  "prepare_end agent stopped scope t agent_id session_id now =
     (case parse_session_id session_id of
        Inl e \<Rightarrow> (Inl (VpPolicy e), t)
      | Inr i \<Rightarrow>
          if \<not> valid_time now then (Inl (VpPolicy InvalidClock), t)
          else case agent of
                 None \<Rightarrow> (Inl VpContextUnavailable, t)
               | Some a \<Rightarrow>
                   (case load_row t i agent_id of
                      None \<Rightarrow>
                        if om_has t i then (Inl VpStore, t)
                        else (Inr False, om_insert i (tombstone_row i agent_id now) t)
                    | Some row \<Rightarrow>
                        (case session_from_row row of
                           Inl e \<Rightarrow> (Inl (VpPolicy e), t)
                         | Inr s \<Rightarrow>
                             if stopped \<or> vs_ended s \<noteq> None
                               \<or> vs_state s \<in> {Some VsEnded, Some VsStopping, Some VsUnknown}
                             then (Inr False, t)
                             else end_session a scope t agent_id s now)))"

text \<open>
  A realtime notification reads the newest open session of the connection, and writes the
  session it computed in a second transaction.
\<close>

definition notification_target ::
  "voice_table \<Rightarrow> string \<Rightarrow> string \<Rightarrow> string \<Rightarrow> voice_provider_error + voice_session option" where
  "notification_target t thread_id account_key connection_id =
     read_session (newest (filter (\<lambda>r. vr_native_thread r = Some thread_id
         \<and> vr_account_key r = Some account_key \<and> vr_connection_id r = Some connection_id
         \<and> vr_ended r = None) (map snd t)))"

definition notification_write ::
  "voice_table \<Rightarrow> voice_session \<Rightarrow> session_signal \<Rightarrow> f64 \<Rightarrow> (voice_provider_error + unit) \<times> voice_table"
where
  "notification_write t s signal now =
     (case transition_session s signal now of
        Inl e \<Rightarrow> (Inl (VpPolicy e), t)
      | Inr tr \<Rightarrow> (Inr (), update_session t (tr_session tr)))"

text \<open>
  What a realtime notification asks for: a transcript segment is handed to the transcript
  service, an answer, an error or a close is a signal for the session. The digest of a
  transcript text (\<open>sha2\<close>, printed in lower-case hexadecimal) is a parameter.
\<close>

record native_transcript =
  nt_event_id :: string
  nt_role :: string
  nt_text :: string
  nt_item_id :: string

datatype notification_effect =
    NeNone
  | NeTranscript native_transcript
  | NeSignal session_signal

definition str_or_default :: "json \<Rightarrow> string" where
  "str_or_default v = (case as_str v of Some s \<Rightarrow> s | None \<Rightarrow> [])"

definition segment_transcript :: "json \<Rightarrow> string \<Rightarrow> native_transcript" where
  "segment_transcript item session_id =
     (let item_id = str_or_default (json_index item ''id'') in
      \<lparr>nt_event_id = ''native:'' @ session_id @ '':'' @ item_id,
       nt_role = (if as_str (json_index item ''role'') = Some ''user'' then ''user'' else ''assistant''),
       nt_text = str_or_default (json_index item ''text''), nt_item_id = item_id\<rparr>)"

definition done_transcript :: "(string \<Rightarrow> string) \<Rightarrow> json \<Rightarrow> string \<Rightarrow> native_transcript option" where
  "done_transcript digest params session_id =
     (case as_str (json_index params ''role'') of
        None \<Rightarrow> None
      | Some role \<Rightarrow>
          let text = str_or_default (json_index params ''text'') in
          if (role = ''user'' \<or> role = ''assistant'') \<and> text \<noteq> []
          then Some \<lparr>nt_event_id = ''native:'' @ session_id @ '':fallback:'' @ role @ '':'' @ digest text,
                     nt_role = role, nt_text = text, nt_item_id = []\<rparr>
          else None)"

definition notification_effect_of ::
  "(string \<Rightarrow> string) \<Rightarrow> string \<Rightarrow> json \<Rightarrow> string \<Rightarrow> voice_provider_error + notification_effect" where
  "notification_effect_of digest method params session_id =
     (let item = json_index params ''item'';
          segment = (as_str (json_index item ''type'') = Some ''transcriptSegment'') in
      if method = ''thread/realtime/item/started'' \<and> segment then Inr NeNone
      else if method = ''thread/realtime/item/completed'' then
        Inr (if segment then NeTranscript (segment_transcript item session_id) else NeNone)
      else if method = ''thread/realtime/transcript/done'' then
        Inr (case done_transcript digest params session_id of None \<Rightarrow> NeNone | Some tr \<Rightarrow> NeTranscript tr)
      else if method = ''thread/realtime/sdp'' then
        (case as_str (json_index params ''sdp'') of
           None \<Rightarrow> Inl VpOperation
         | Some answer \<Rightarrow> Inr (NeSignal (AnswerReceived answer)))
      else if method = ''thread/realtime/error'' then Inr (NeSignal (ProviderFailed None))
      else if method = ''thread/realtime/closed'' then
        Inr (NeSignal (PeerClosed (as_str (json_index params ''reason''))))
      else Inr NeNone)"

definition event_session :: "json \<Rightarrow> string option" where
  "event_session params =
     (case as_str (json_index params ''realtimeSessionId'') of
        Some i \<Rightarrow> Some i
      | None \<Rightarrow> as_str (json_index (json_index params ''item'') ''realtimeSessionId''))"

definition apply_notification ::
  "(string \<Rightarrow> string) \<Rightarrow> voice_table \<Rightarrow> voice_session \<Rightarrow> string \<Rightarrow> json \<Rightarrow> f64 \<Rightarrow>
   (voice_provider_error + bool \<times> native_transcript option) \<times> voice_table" where
  "apply_notification digest t s method params now =
     (if event_session params \<noteq> None \<and> event_session params \<noteq> Some (vs_id s) then (Inr (True, None), t)
      else case notification_effect_of digest method params (vs_id s) of
             Inl e \<Rightarrow> (Inl e, t)
           | Inr NeNone \<Rightarrow> (Inr (True, None), t)
           | Inr (NeTranscript tr) \<Rightarrow> (Inr (True, Some tr), t)
           | Inr (NeSignal signal) \<Rightarrow>
               (case notification_write t s signal now of
                  (Inl e, t) \<Rightarrow> (Inl e, t)
                | (Inr _, t) \<Rightarrow> (Inr (True, None), t)))"

text \<open>
  The whole handler, without another writer between its read and its write. The result says
  whether the message was a realtime notification, with the transcript it hands on.
\<close>

definition handle_notification ::
  "(string \<Rightarrow> string) \<Rightarrow> voice_table \<Rightarrow> string \<Rightarrow> string \<Rightarrow> json \<Rightarrow> f64 \<Rightarrow>
   (voice_provider_error + bool \<times> native_transcript option) \<times> voice_table" where
  "handle_notification digest t account_key connection_id message now =
     (let method = str_or_default (json_index message ''method'');
          params = json_index message ''params'' in
      if \<not> prefix ''thread/realtime/'' method then (Inr (False, None), t)
      else if \<not> is_object params then (Inl VpOperation, t)
      else case notification_target t (str_or_default (json_index params ''threadId'')) account_key connection_id of
             Inl e \<Rightarrow> (Inl e, t)
           | Inr None \<Rightarrow> (Inr (True, None), t)
           | Inr (Some s) \<Rightarrow> apply_notification digest t s method params now)"

fun read_all :: "voice_row list \<Rightarrow> voice_provider_error + voice_session list" where
  "read_all [] = Inr []"
| "read_all (r # rs) =
     (case session_from_row r of
        Inl e \<Rightarrow> Inl (VpPolicy e)
      | Inr s \<Rightarrow> (case read_all rs of Inl e \<Rightarrow> Inl e | Inr ss \<Rightarrow> Inr (s # ss)))"

fun disconnect_all :: "voice_table \<Rightarrow> voice_session list \<Rightarrow> f64 \<Rightarrow> nat \<Rightarrow> (voice_provider_error + nat) \<times> voice_table"
where
  "disconnect_all t [] now count = (Inr count, t)"
| "disconnect_all t (s # ss) now count =
     (case notification_write t s ProviderDisconnected now of
        (Inl e, t) \<Rightarrow> (Inl e, t)
      | (Inr _, t) \<Rightarrow> disconnect_all t ss now (Suc count))"

definition handle_disconnect ::
  "voice_table \<Rightarrow> string \<Rightarrow> string \<Rightarrow> f64 \<Rightarrow> (voice_provider_error + nat) \<times> voice_table" where
  "handle_disconnect t account_key connection_id now =
     (case read_all (filter (\<lambda>r. vr_account_key r = Some account_key
               \<and> vr_connection_id r = Some connection_id \<and> vr_ended r = None) (map snd t)) of
        Inl e \<Rightarrow> (Inl e, t)
      | Inr ss \<Rightarrow> disconnect_all t ss now 0)"

definition recover_after_restart :: "voice_table \<Rightarrow> f64 \<Rightarrow> nat \<times> voice_table" where
  "recover_after_restart t now =
     (length (filter (\<lambda>(_, r). vr_state r \<noteq> None \<and> vr_ended r = None) t),
      map (\<lambda>(i, r). (i, if vr_state r \<noteq> None \<and> vr_ended r = None
                        then r\<lparr>vr_state := Some ''lost'', vr_ended := Some now,
                               vr_error := Some ''Voice connection ended. The transcript is saved.''\<rparr>
                        else r)) t)"

datatype voice_prepare_failure = PfExpired | PfNotSent | PfUnknown | PfRejected

definition set_start_failure :: "voice_table \<Rightarrow> string \<Rightarrow> voice_prepare_failure \<Rightarrow> f64 \<Rightarrow> voice_table" where
  "set_start_failure t session_id certainty now =
     set_state t session_id (\<lambda>_. True)
       (\<lambda>r. r\<lparr>vr_state := Some (if certainty = PfUnknown then ''unknown'' else ''failed''),
              vr_error := Some (if certainty = PfExpired then ''Request id expired''
                                else ''Voice start outcome is unresolved''),
              vr_ended := get_or_insert now (vr_ended r)\<rparr>)"

text \<open>The outcome of a provider stop, for the session the stop was staged for.\<close>

datatype voice_stop_outcome = SoSubmitted | SoNotSent | SoWritten | SoUnknown | SoRejected | SoExpired

definition settle_stop ::
  "voice_table \<Rightarrow> string \<Rightarrow> string \<Rightarrow> string \<Rightarrow> string \<Rightarrow> string \<Rightarrow> voice_stop_outcome \<Rightarrow> f64 \<Rightarrow> voice_table" where
  "settle_stop t session_id agent account thread connection outcome now =
     (let same = (\<lambda>r. vr_agent r = agent \<and> vr_account_key r = Some account
            \<and> vr_native_thread r = Some thread \<and> vr_connection_id r = Some connection) in
      case outcome of
        SoWritten \<Rightarrow>
          set_state t session_id same
            (\<lambda>r. r\<lparr>vr_state := Some ''ended'', vr_ended := get_or_insert now (vr_ended r)\<rparr>)
      | SoUnknown \<Rightarrow>
          set_state t session_id same
            (\<lambda>r. r\<lparr>vr_state := Some ''unknown'', vr_error := Some ''Voice stop outcome is unresolved''\<rparr>)
      | SoRejected \<Rightarrow>
          set_state t session_id same
            (\<lambda>r. r\<lparr>vr_state := Some ''unknown'', vr_error := Some ''Voice stop outcome is unresolved''\<rparr>)
      | SoExpired \<Rightarrow>
          set_state t session_id (\<lambda>r. vr_agent r = agent)
            (\<lambda>r. r\<lparr>vr_state := Some ''failed'', vr_error := Some ''Request id expired''\<rparr>)
      | _ \<Rightarrow> t)"

text \<open>Attach the provider connection to a session that still waits for it. \<open>scope\<close> is what reading the
  current provider scope of the agent gave: an error, or whether it is the captured connection.\<close>

datatype scope_error = ScopeUnavailable | ScopeStore

definition attach_start_context ::
  "voice_agent option \<Rightarrow> scope_error + bool \<Rightarrow> voice_table \<Rightarrow> string \<Rightarrow> string \<Rightarrow> string \<Rightarrow> string \<Rightarrow> string \<Rightarrow>
   int \<Rightarrow> (voice_provider_error + unit) \<times> voice_table" where
  "attach_start_context agent scope t agent_id session_id thread_id account_key connection_id epoch =
     (case agent of
        None \<Rightarrow> (Inl VpContextUnavailable, t)
      | Some a \<Rightarrow>
          if va_epoch a \<noteq> epoch \<or> (case va_thread_id a of None \<Rightarrow> [] | Some th \<Rightarrow> th) \<noteq> thread_id
            \<or> va_account_key a \<noteq> account_key
          then (Inl VpContextChanged, t)
          else case scope of
                 Inl ScopeUnavailable \<Rightarrow> (Inl VpContextUnavailable, t)
               | Inl ScopeStore \<Rightarrow> (Inl VpStore, t)
               | Inr current \<Rightarrow>
                   if \<not> current then (Inl VpContextChanged, t)
                   else (case om_get t session_id of
                           None \<Rightarrow> (Inl VpContextChanged, t)
                         | Some r \<Rightarrow>
                             if vr_agent r = agent_id \<and> vr_native_thread r = Some thread_id
                               \<and> vr_account_key r = Some account_key \<and> vr_state r = Some ''connecting''
                               \<and> vr_ended r = None
                             then (Inr (), om_insert session_id (r\<lparr>vr_connection_id := Some connection_id\<rparr>) t)
                             else (Inl VpContextChanged, t)))"

section \<open>Rows only move forward\<close>

definition row_le :: "voice_row \<Rightarrow> voice_row \<Rightarrow> bool" where
  "row_le r r' \<longleftrightarrow> vr_id r' = vr_id r \<and> vr_agent r' = vr_agent r
     \<and> (vr_state r \<noteq> None \<longrightarrow> vr_state r' \<noteq> None)
     \<and> (\<forall>e. vr_ended r = Some e \<longrightarrow> vr_ended r' = Some e)"

text \<open>The same rows, each moved forward.\<close>

definition table_le :: "voice_table \<Rightarrow> voice_table \<Rightarrow> bool" where
  "table_le t t' \<longleftrightarrow> (om_wf t \<longrightarrow> om_wf t') \<and> (\<forall>i. rel_option row_le (om_get t i) (om_get t' i))"

lemma row_le_refl [simp]: "row_le r r"
  by (simp add: row_le_def)

lemma row_le_trans: "row_le a b \<Longrightarrow> row_le b c \<Longrightarrow> row_le a c"
  by (auto simp: row_le_def)

lemma table_le_refl [simp]: "table_le t t"
  by (simp add: table_le_def option.rel_refl)

lemma table_le_trans:
  assumes "table_le a b" "table_le b c"
  shows "table_le a c"
proof -
  have "rel_option row_le (om_get a i) (om_get c i)" for i
    using assms row_le_trans unfolding table_le_def
    by (cases "om_get a i"; cases "om_get b i"; cases "om_get c i")
      (metis option.rel_distinct(1) option.rel_distinct(2) option.rel_inject(2) option.rel_refl)+
  then show ?thesis using assms by (simp add: table_le_def)
qed

lemma table_le_insert: "om_get t i = Some r \<Longrightarrow> row_le r r' \<Longrightarrow> table_le t (om_insert i r' t)"
  by (auto simp: table_le_def option.rel_refl)

lemma set_state_le: "(\<And>r. row_le r (f r)) \<Longrightarrow> table_le t (set_state t i cond f)"
  by (auto simp: set_state_def intro: table_le_insert split: option.split)

definition voice_wf :: "voice_table \<Rightarrow> bool" where
  "voice_wf t \<longleftrightarrow> om_wf t
     \<and> (\<forall>i r. om_get t i = Some r \<longrightarrow> vr_id r = i \<and> (vr_ended r = None \<longrightarrow> vr_state r \<noteq> None))
     \<and> (\<forall>i j r q. om_get t i = Some r \<longrightarrow> om_get t j = Some q \<longrightarrow> vr_agent r = vr_agent q \<longrightarrow>
          vr_ended r = None \<longrightarrow> vr_ended q = None \<longrightarrow> i = j)"

lemma voice_wf_row:
  assumes "voice_wf t" "om_get t i = Some r"
  shows "vr_id r = i" "vr_ended r = None \<Longrightarrow> vr_state r \<noteq> None"
  using assms by (auto simp: voice_wf_def)

lemma voice_wf_one:
  "voice_wf t \<Longrightarrow> om_get t i = Some r \<Longrightarrow> om_get t j = Some q \<Longrightarrow> vr_agent r = vr_agent q \<Longrightarrow>
   vr_ended r = None \<Longrightarrow> vr_ended q = None \<Longrightarrow> i = j"
  unfolding voice_wf_def by blast

lemma table_le_row:
  assumes "table_le t t'" "om_get t' i = Some r'"
  obtains r where "om_get t i = Some r" "row_le r r'"
  using assms unfolding table_le_def by (metis option.rel_cases option.sel option.simps(3))

lemma table_le_wf:
  assumes wf: "voice_wf t" and le: "table_le t t'"
  shows "voice_wf t'"
  unfolding voice_wf_def
proof (intro conjI allI impI)
  show "om_wf t'" using wf le by (simp add: voice_wf_def table_le_def)
next
  fix i r' assume r': "om_get t' i = Some r'"
  obtain r where r: "om_get t i = Some r" "row_le r r'" by (rule table_le_row [OF le r'])
  show "vr_id r' = i" using voice_wf_row(1) [OF wf r(1)] r(2) by (simp add: row_le_def)
  assume "vr_ended r' = None"
  then have "vr_ended r = None" using r(2) by (cases "vr_ended r") (auto simp: row_le_def)
  then show "vr_state r' \<noteq> None" using voice_wf_row(2) [OF wf r(1)] r(2) by (simp add: row_le_def)
next
  fix i j r' q' assume r': "om_get t' i = Some r'" and q': "om_get t' j = Some q'"
    and same: "vr_agent r' = vr_agent q'" "vr_ended r' = None" "vr_ended q' = None"
  obtain r where r: "om_get t i = Some r" "row_le r r'" by (rule table_le_row [OF le r'])
  obtain q where q: "om_get t j = Some q" "row_le q q'" by (rule table_le_row [OF le q'])
  have "vr_ended r = None" "vr_ended q = None"
    using r(2) q(2) same by (cases "vr_ended r"; cases "vr_ended q"; auto simp: row_le_def)+
  then show "i = j" using voice_wf_one [OF wf r(1) q(1)] r(2) q(2) same(1) by (simp add: row_le_def)
qed

section \<open>Sessions and their rows\<close>

lemma parse_voice_state_str [simp]: "parse_voice_state (voice_state_str st) = Some st"
  by (cases st) (simp_all add: parse_voice_state_def)

lemma stored_state_str [simp]: "stored_state (map_option voice_state_str st) = Inr st"
  by (cases st) (simp_all add: stored_state_def)

text \<open>A session is read from a row exactly when the row is the session's own image and is valid.\<close>

lemma parse_voice_state_Some: "parse_voice_state s = Some st \<longleftrightarrow> s = voice_state_str st"
  by (cases st) (auto simp: parse_voice_state_def split: if_splits)

lemma voice_state_str_inject [simp]: "voice_state_str a = voice_state_str b \<longleftrightarrow> a = b"
  by (metis option.inject parse_voice_state_str)

lemma stored_state_Inr: "stored_state v = Inr st \<longleftrightarrow> v = map_option voice_state_str st"
  by (cases v; cases st) (auto simp: stored_state_def parse_voice_state_Some split: option.splits)

definition session_ok :: "voice_session \<Rightarrow> bool" where
  "session_ok s \<longleftrightarrow> valid_time (vs_created s)
     \<and> (case vs_ended s of None \<Rightarrow> True | Some e \<Rightarrow> valid_time e)
     \<and> (case vs_offer s of None \<Rightarrow> True | Some o' \<Rightarrow> int (chars_count o') \<le> MAX_OFFER_CHARS)
     \<and> vs_id s \<noteq> [] \<and> int (chars_count (vs_id s)) \<le> MAX_SESSION_ID_CHARS"

definition row_of :: "voice_session \<Rightarrow> voice_row" where
  "row_of s = \<lparr>vr_id = vs_id s, vr_agent = vs_agent s, vr_created = vs_created s, vr_ended = vs_ended s,
     vr_offer = vs_offer s, vr_answer = vs_answer s, vr_native_thread = vs_native_thread s,
     vr_account_key = vs_account_key s, vr_connection_id = vs_connection_id s,
     vr_state = map_option voice_state_str (vs_state s), vr_error = vs_error s\<rparr>"

lemma session_from_row_iff: "session_from_row r = Inr s \<longleftrightarrow> r = row_of s \<and> session_ok s"
proof
  assume "session_from_row r = Inr s"
  then show "r = row_of s \<and> session_ok s"
    by (cases r; cases "stored_state (vr_state r)")
      (auto simp: session_from_row_def parse_session_id_def row_of_def session_ok_def stored_state_Inr
        split: if_splits option.splits)
next
  assume "r = row_of s \<and> session_ok s"
  then show "session_from_row r = Inr s"
    by (cases s) (auto simp: session_from_row_def parse_session_id_def row_of_def session_ok_def split: option.splits)
qed

lemma apply_signal_shape:
  assumes "apply_signal s signal now = Inr (s', stop)"
  shows "s' = s\<lparr>vs_state := vs_state s', vs_error := vs_error s', vs_ended := vs_ended s', vs_answer := vs_answer s'\<rparr>"
    and "vs_ended s' = vs_ended s \<or> vs_ended s = None \<and> vs_ended s' = Some now"
    and "vs_state s \<noteq> None \<Longrightarrow> vs_state s' \<noteq> None"
proof -
  show "s' = s\<lparr>vs_state := vs_state s', vs_error := vs_error s', vs_ended := vs_ended s', vs_answer := vs_answer s'\<rparr>"
    using assms by (cases s; cases signal) (auto simp: Let_def split: if_splits)
  show "vs_ended s' = vs_ended s \<or> vs_ended s = None \<and> vs_ended s' = Some now"
    using assms by (cases signal) (auto simp: Let_def get_or_insert_def split: if_splits option.splits)
  show "vs_state s' \<noteq> None" if "vs_state s \<noteq> None"
    using assms that by (cases signal) (auto simp: Let_def split: if_splits)
qed

lemma apply_signal_ok:
  assumes "apply_signal s signal now = Inr (s', stop)" "session_ok s" "valid_time now"
  shows "session_ok s'" "row_le (row_of s) (row_of s')"
    "row_of s' = (row_of s)\<lparr>vr_state := map_option voice_state_str (vs_state s'), vr_error := vs_error s',
       vr_ended := vs_ended s', vr_answer := vs_answer s'\<rparr>"
proof -
  obtain st er en an where s': "s' = s\<lparr>vs_state := st, vs_error := er, vs_ended := en, vs_answer := an\<rparr>"
    using apply_signal_shape(1) [OF assms(1)] by blast
  show "session_ok s'" "row_le (row_of s) (row_of s')"
    "row_of s' = (row_of s)\<lparr>vr_state := map_option voice_state_str (vs_state s'), vr_error := vs_error s',
       vr_ended := vs_ended s', vr_answer := vs_answer s'\<rparr>"
    using s' apply_signal_shape(2,3) [OF assms(1)] assms(2,3)
    by (auto simp: session_ok_def row_le_def row_of_def)
qed

text \<open>Writing back a session that was read from its row in the same table.\<close>

lemma update_transition:
  assumes row: "om_get t (vs_id s) = Some (row_of s)" and ok: "session_ok s"
    and tr: "transition_session s signal now = Inr tr"
  shows "table_le t (update_session t (tr_session tr))"
    "om_get (update_session t (tr_session tr)) (vs_id s) = Some (row_of (tr_session tr))"
    "session_ok (tr_session tr)" "vs_id (tr_session tr) = vs_id s"
proof -
  obtain stop where s': "apply_signal s signal now = Inr (tr_session tr, stop)" and now: "valid_time now"
    using tr by (auto simp: transition_session_def split: if_splits sum.splits prod.splits)
  note shape = apply_signal_ok [OF s' ok now]
  have i: "vs_id (tr_session tr) = vs_id s" using shape(2) by (simp add: row_le_def row_of_def)
  have upd: "update_session t (tr_session tr) = om_insert (vs_id s) (row_of (tr_session tr)) t"
    using row i shape(3) by (simp add: update_session_def)
  show "table_le t (update_session t (tr_session tr))"
    unfolding upd by (rule table_le_insert [OF row shape(2)])
  show "om_get (update_session t (tr_session tr)) (vs_id s) = Some (row_of (tr_session tr))"
    by (simp add: upd)
  show "session_ok (tr_session tr)" "vs_id (tr_session tr) = vs_id s" by (fact shape(1), fact i)
qed

lemma newest_member: "newest rs = Some r \<Longrightarrow> r \<in> set rs"
  by (induction rs) (auto split: option.splits if_splits)

lemma newest_None: "newest rs = None \<longleftrightarrow> rs = []"
  by (cases rs) (auto split: option.splits)

lemma table_row_member: "om_wf t \<Longrightarrow> r \<in> set (map snd t) \<longleftrightarrow> (\<exists>i. om_get t i = Some r)"
  by (force simp: om_get_in)

lemma read_session_row:
  assumes wf: "voice_wf t" and mem: "r \<in> set (map snd t)" and s: "session_from_row r = Inr s"
  shows "om_get t (vs_id s) = Some (row_of s)" "session_ok s"
proof -
  have "r = row_of s \<and> session_ok s" using s by (simp only: session_from_row_iff)
  then have r: "r = row_of s" "session_ok s" by blast+
  obtain i where i: "om_get t i = Some r"
    using mem wf table_row_member [of t r] by (auto simp: voice_wf_def)
  with voice_wf_row(1) [OF wf i] r show "om_get t (vs_id s) = Some (row_of s)" by (simp add: row_of_def)
  show "session_ok s" by (fact r(2))
qed

lemma notification_write_le:
  assumes "om_get t (vs_id s) = Some (row_of s)" "session_ok s" "notification_write t s signal now = (r, t')"
  shows "table_le t t'"
  using assms update_transition(1) [OF assms(1,2)]
  by (auto simp: notification_write_def split: sum.splits)

lemma notification_target_row:
  assumes wf: "voice_wf t" and "notification_target t th ac co = Inr (Some s)"
  shows "om_get t (vs_id s) = Some (row_of s)" "session_ok s"
proof -
  from assms(2) obtain row where new: "newest (filter (\<lambda>r. vr_native_thread r = Some th \<and> vr_account_key r = Some ac
      \<and> vr_connection_id r = Some co \<and> vr_ended r = None) (map snd t)) = Some row" and row: "session_from_row row = Inr s"
    by (auto simp: notification_target_def read_session_def split: option.splits sum.splits)
  have "row \<in> set (map snd t)" using newest_member [OF new] by (simp only: set_filter mem_Collect_eq)
  from read_session_row [OF wf this row]
  show "om_get t (vs_id s) = Some (row_of s)" "session_ok s" by simp_all
qed

lemma apply_notification_le:
  assumes "om_get t (vs_id s) = Some (row_of s)" "session_ok s" "apply_notification digest t s method params now = (r, t')"
  shows "table_le t t'"
  using assms(3) notification_write_le [OF assms(1,2)]
  by (auto simp: apply_notification_def split: if_splits sum.splits notification_effect.splits prod.splits)

lemma handle_notification_le:
  assumes wf: "voice_wf t" and "handle_notification digest t ac co message now = (r, t')"
  shows "table_le t t'"
  using assms(2) apply_notification_le [OF notification_target_row [OF wf]]
  by (auto simp: handle_notification_def Let_def split: if_splits sum.splits option.splits)

lemma read_all_rows: "read_all rs = Inr ss \<Longrightarrow> s \<in> set ss \<Longrightarrow> \<exists>r \<in> set rs. session_from_row r = Inr s"
  by (induction rs arbitrary: ss) (auto split: sum.splits)

lemma read_all_ids: "read_all rs = Inr ss \<Longrightarrow> map vs_id ss = map vr_id rs"
  by (induction rs arbitrary: ss) (auto simp: session_from_row_iff row_of_def split: sum.splits)

lemma update_session_other: "i \<noteq> vs_id s \<Longrightarrow> om_get (update_session t s) i = om_get t i"
  by (auto simp: update_session_def split: option.split)

lemma disconnect_all_le:
  "(\<And>s. s \<in> set ss \<Longrightarrow> om_get t (vs_id s) = Some (row_of s) \<and> session_ok s) \<Longrightarrow> distinct (map vs_id ss) \<Longrightarrow>
   disconnect_all t ss now count = (r, t') \<Longrightarrow> table_le t t'"
proof (induction t ss now count rule: disconnect_all.induct)
  case (2 t s ss now count)
  obtain q u where u: "notification_write t s ProviderDisconnected now = (q, u)" by force
  have s: "om_get t (vs_id s) = Some (row_of s)" "session_ok s" using 2(2) [of s] by auto
  have le: "table_le t u" by (rule notification_write_le [OF s u])
  show ?case
  proof (cases q)
    case (Inl e)
    with u 2(4) le show ?thesis by simp
  next
    case (Inr x)
    then obtain tr where tr: "transition_session s ProviderDisconnected now = Inr tr" "u = update_session t (tr_session tr)"
      using u by (auto simp: notification_write_def split: sum.splits)
    have i: "vs_id (tr_session tr) = vs_id s" by (rule update_transition(4) [OF s tr(1)])
    have "table_le u t'"
    proof (rule 2(1) [OF u [symmetric] Inr])
      show "om_get u (vs_id s') = Some (row_of s') \<and> session_ok s'" if "s' \<in> set ss" for s'
      proof -
        have "vs_id s' \<noteq> vs_id (tr_session tr)" using 2(3) that i by (metis distinct.simps(2) imageI list.simps(9) list.set_map)
        with 2(2) [of s'] that tr(2) show ?thesis by (simp add: update_session_other)
      qed
      show "distinct (map vs_id ss)" using 2(3) by simp
      show "disconnect_all u ss now (Suc count) = (r, t')" using 2(4) u Inr by simp
    qed
    with le show ?thesis by (rule table_le_trans)
  qed
qed simp

lemma handle_disconnect_le:
  assumes wf: "voice_wf t" and dis: "handle_disconnect t ac co now = (r, t')"
  shows "table_le t t'"
proof -
  define rs where "rs = filter (\<lambda>r. vr_account_key r = Some ac \<and> vr_connection_id r = Some co \<and> vr_ended r = None) (map snd t)"
  have om: "om_wf t" using wf by (simp add: voice_wf_def)
  have key: "vr_id (snd e) = fst e" if "e \<in> set t" for e
    using voice_wf_row(1) [OF wf, of "fst e" "snd e"] om_get_in [OF om, of "fst e" "snd e"] that by simp
  have "map vr_id (map snd t) = om_keys t" using key by (simp cong: map_cong)
  then have "distinct (map vr_id (map snd t))" using om_wf_distinct [OF om] by (simp only:)
  then have "distinct (map vr_id rs)" unfolding rs_def by (rule distinct_map_filter)
  show ?thesis
  proof (cases "read_all rs")
    case (Inl e)
    with dis show ?thesis by (simp add: handle_disconnect_def rs_def)
  next
    case (Inr ss)
    with dis have all: "disconnect_all t ss now 0 = (r, t')" by (simp add: handle_disconnect_def rs_def)
    show ?thesis
    proof (rule disconnect_all_le [OF _ _ all])
      show "om_get t (vs_id s) = Some (row_of s) \<and> session_ok s" if s: "s \<in> set ss" for s
      proof -
        obtain row where "row \<in> set rs" "session_from_row row = Inr s" using read_all_rows [OF Inr s] by blast
        with read_session_row [OF wf, of row s] show ?thesis by (auto simp: rs_def)
      qed
      show "distinct (map vs_id ss)" using read_all_ids [OF Inr] \<open>distinct (map vr_id rs)\<close> by simp
    qed
  qed
qed

section \<open>Every operation\<close>

text \<open>The rows of a table stay and move forward; new rows may join.\<close>

definition keeps :: "voice_table \<Rightarrow> voice_table \<Rightarrow> bool" where
  "keeps t t' \<longleftrightarrow> (\<forall>i r. om_get t i = Some r \<longrightarrow> (\<exists>r'. om_get t' i = Some r' \<and> row_le r r'))"

lemma keeps_refl [simp]: "keeps t t"
  by (simp add: keeps_def)

lemma keeps_trans: "keeps a b \<Longrightarrow> keeps b c \<Longrightarrow> keeps a c"
  unfolding keeps_def by (meson row_le_trans)

lemma table_le_keeps: "table_le t t' \<Longrightarrow> keeps t t'"
  unfolding keeps_def table_le_def by (metis option_rel_Some1)

lemma keeps_insert: "om_get t i = None \<Longrightarrow> keeps t (om_insert i r t)"
  by (auto simp: keeps_def)

lemma insert_new_wf:
  assumes wf: "voice_wf t" and new: "om_get t i = None" "vr_id r = i"
    and only: "vr_ended r = None \<Longrightarrow> vr_state r \<noteq> None"
      "\<And>j q. vr_ended r = None \<Longrightarrow> om_get t j = Some q \<Longrightarrow> vr_agent q = vr_agent r \<Longrightarrow> vr_ended q \<noteq> None"
  shows "voice_wf (om_insert i r t)"
  unfolding voice_wf_def
proof (intro conjI allI impI)
  show "om_wf (om_insert i r t)" using wf by (simp add: voice_wf_def)
next
  fix j q assume q: "om_get (om_insert i r t) j = Some q"
  show "vr_id q = j" using q new voice_wf_row(1) [OF wf, of j q] by (auto split: if_splits)
  assume "vr_ended q = None"
  then show "vr_state q \<noteq> None" using q only(1) voice_wf_row(2) [OF wf, of j q] by (auto split: if_splits)
next
  fix j k p q
  assume "om_get (om_insert i r t) j = Some p" "om_get (om_insert i r t) k = Some q"
    "vr_agent p = vr_agent q" "vr_ended p = None" "vr_ended q = None"
  then show "j = k"
    using only(2) [of j p] only(2) [of k q] voice_wf_one [OF wf, of j p k q] by (auto split: if_splits)
qed

lemma active_row_None:
  assumes wf: "voice_wf t" and none: "active_row t agent = None" and q: "om_get t j = Some q" "vr_agent q = agent"
  shows "vr_ended q \<noteq> None"
proof
  assume open': "vr_ended q = None"
  have "q \<in> set (map snd t)" using q(1) wf table_row_member [of t q] by (auto simp: voice_wf_def)
  moreover have "vr_state q \<noteq> None" using voice_wf_row(2) [OF wf q(1) open'] .
  ultimately have "q \<in> set (filter (\<lambda>r. vr_agent r = agent \<and> vr_state r \<noteq> None \<and> vr_ended r = None) (map snd t))"
    using q(2) open' by simp
  with none show False unfolding active_row_def newest_None by (metis empty_iff empty_set)
qed

lemma create_session_cases:
  assumes "create_session agent available t agent_id sid offer ac th ep now = (r, t')"
  shows "t' = t \<or> t' = om_insert sid (connecting_row sid agent_id offer th ac now) t \<and>
    om_get t sid = None \<and> active_row t agent_id = None"
proof (cases "t' = t")
  case False
  then obtain request created where
    req: "new_start_request agent_id sid offer = Inr request"
    and old: "load_row_any t sid = None" and act: "active_row t agent_id = None"
    and dec: "decide_start (Some now) request None None = Inr (Create (st_agent request) (st_session_id request) (st_offer request) created)"
    and t': "t' = om_insert sid (connecting_row sid agent_id offer th ac created) t"
    using assms
    by (auto simp: create_session_def read_session_def decide_start_def Let_def
        split: sum.splits option.splits if_splits start_decision.splits)
  have "created = now" using dec by (auto simp: decide_start_def split: if_splits)
  with t' old act show ?thesis by (simp add: load_row_any_def)
qed simp

lemma create_session_wf:
  assumes wf: "voice_wf t" and cr: "create_session agent available t agent_id sid offer ac th ep now = (r, t')"
  shows "voice_wf t' \<and> keeps t t'"
  using create_session_cases [OF cr]
proof (elim disjE conjE)
  assume t': "t' = om_insert sid (connecting_row sid agent_id offer th ac now) t"
    and new: "om_get t sid = None" and act: "active_row t agent_id = None"
  show ?thesis
    unfolding t' using active_row_None [OF wf act] new
    by (auto simp: connecting_row_def intro!: insert_new_wf [OF wf new] keeps_insert)
qed (use wf in simp)

lemma load_row_Some: "load_row t i agent = Some r \<longleftrightarrow> om_get t i = Some r \<and> vr_agent r = agent"
  by (auto simp: load_row_def opt_filter_def split: option.splits if_splits)

lemma end_session_le:
  assumes row: "om_get t (vs_id s) = Some (row_of s)" and ok: "session_ok s"
    and "end_session a scope t agent_id s now = (r, t')"
  shows "table_le t t'"
proof (cases "transition_session s (end_signal a s) now")
  case (Inl e)
  with assms(3) show ?thesis by (simp add: end_session_def)
next
  case (Inr tr)
  let ?u = "update_session t (tr_session tr)"
  let ?f = "\<lambda>r. r\<lparr>vr_state := Some ''unknown'', vr_error := Some ''Voice stop outcome is unresolved''\<rparr>"
  have u: "table_le t ?u" by (rule update_transition(1) [OF row ok Inr])
  have v: "table_le t (set_state ?u (vs_id s) c ?f)" for c
    by (rule table_le_trans [OF u set_state_le]) (simp add: row_le_def)
  have "t' \<in> {t, ?u, set_state ?u (vs_id s) (\<lambda>r. vr_agent r = agent_id) ?f}"
    using assms(3) Inr
    by (auto simp: end_session_def commit_end_def Let_def split: if_splits option.splits bool.splits sum.splits)
  with u v show ?thesis by auto
qed

lemma prepare_end_wf:
  assumes wf: "voice_wf t" and pe: "prepare_end agent stopped scope t agent_id sid now = (r, t')"
  shows "voice_wf t' \<and> keeps t t'"
proof (cases "\<exists>a row s. agent = Some a \<and> load_row t sid agent_id = Some row \<and> session_from_row row = Inr s \<and>
    end_session a scope t agent_id s now = (r, t')")
  case True
  then obtain a row s where row: "om_get t sid = Some row" and s: "session_from_row row = Inr s"
    and es: "end_session a scope t agent_id s now = (r, t')" by (auto simp: load_row_Some)
  have "row \<in> set (map snd t)" using row wf table_row_member [of t row] by (auto simp: voice_wf_def)
  from end_session_le [OF read_session_row [OF wf this s] es] wf show ?thesis
    by (auto intro: table_le_wf table_le_keeps)
next
  case False
  then have "t' = t \<or> t' = om_insert sid (tombstone_row sid agent_id now) t \<and> om_get t sid = None"
    using pe
    by (auto simp: prepare_end_def parse_session_id_def om_has_def split: sum.splits option.splits if_splits)
  then show ?thesis
    using wf by (auto simp: tombstone_row_def intro!: insert_new_wf [OF wf] keeps_insert)
qed

lemma recover_after_restart_le: "table_le t (snd (recover_after_restart t now))"
proof -
  have "om_keys (snd (recover_after_restart t now)) = om_keys t"
    by (simp add: recover_after_restart_def comp_def case_prod_beta)
  then have "om_wf t \<longrightarrow> om_wf (snd (recover_after_restart t now))" by (simp add: om_wf_def)
  moreover have "om_get (snd (recover_after_restart t now)) i = map_option (\<lambda>r.
      if vr_state r \<noteq> None \<and> vr_ended r = None
      then r\<lparr>vr_state := Some ''lost'', vr_ended := Some now,
             vr_error := Some ''Voice connection ended. The transcript is saved.''\<rparr> else r) (om_get t i)" for i
    by (simp add: recover_after_restart_def map_of_map comp_def)
  ultimately show ?thesis by (auto simp: table_le_def row_le_def option.rel_map option.rel_refl)
qed

lemma set_start_failure_le: "table_le t (set_start_failure t i c now)"
  unfolding set_start_failure_def by (rule set_state_le) (auto simp: row_le_def get_or_insert_def)

lemma settle_stop_le: "table_le t (settle_stop t i ag ac th co outcome now)"
  by (cases outcome) (auto simp: settle_stop_def Let_def row_le_def get_or_insert_def intro!: set_state_le)

lemma attach_le:
  assumes "attach_start_context agent sc t ag i th ac co ep = (r, t')"
  shows "table_le t t'"
  using assms
  by (auto simp: attach_start_context_def row_le_def intro: table_le_insert
      split: option.splits if_splits sum.splits scope_error.splits)

section \<open>Runs\<close>

datatype voice_op =
    VoCreate "voice_agent option" bool string string string string string int f64
  | VoAttach "voice_agent option" "scope_error + bool" string string string string string int
  | VoStartFailed string voice_prepare_failure f64
  | VoNotify "string \<Rightarrow> string" string string json f64
  | VoDisconnect string string f64
  | VoEnd "voice_agent option" bool "bool option" string string f64
  | VoStopSettled string string string string string voice_stop_outcome f64
  | VoRecover f64

fun voice_step :: "voice_table \<Rightarrow> voice_op \<Rightarrow> voice_table" where
  "voice_step t (VoCreate agent av ag i offer ac th ep now) = snd (create_session agent av t ag i offer ac th ep now)"
| "voice_step t (VoAttach agent sc ag i th ac co ep) = snd (attach_start_context agent sc t ag i th ac co ep)"
| "voice_step t (VoStartFailed i c now) = set_start_failure t i c now"
| "voice_step t (VoNotify digest ac co message now) = snd (handle_notification digest t ac co message now)"
| "voice_step t (VoDisconnect ac co now) = snd (handle_disconnect t ac co now)"
| "voice_step t (VoEnd agent stopped scope ag i now) = snd (prepare_end agent stopped scope t ag i now)"
| "voice_step t (VoStopSettled i ag ac th co outcome now) = settle_stop t i ag ac th co outcome now"
| "voice_step t (VoRecover now) = snd (recover_after_restart t now)"

abbreviation voice_run :: "voice_table \<Rightarrow> voice_op list \<Rightarrow> voice_table" where
  "voice_run t ops \<equiv> foldl voice_step t ops"

lemma table_le_both: "voice_wf t \<Longrightarrow> table_le t t' \<Longrightarrow> voice_wf t' \<and> keeps t t'"
  by (auto intro: table_le_wf table_le_keeps)

lemma voice_step_wf:
  assumes wf: "voice_wf t"
  shows "voice_wf (voice_step t op) \<and> keeps t (voice_step t op)"
proof (cases op)
  case (VoCreate agent av ag i offer ac th ep now)
  with create_session_wf [OF wf prod.collapse [symmetric]] show ?thesis by simp
next
  case (VoAttach agent sc ag i th ac co ep)
  with table_le_both [OF wf attach_le [OF prod.collapse [symmetric]]] show ?thesis by simp
next
  case (VoStartFailed i c now)
  with table_le_both [OF wf set_start_failure_le] show ?thesis by simp
next
  case (VoNotify digest ac co message now)
  with table_le_both [OF wf handle_notification_le [OF wf prod.collapse [symmetric]]] show ?thesis by simp
next
  case (VoDisconnect ac co now)
  with table_le_both [OF wf handle_disconnect_le [OF wf prod.collapse [symmetric]]] show ?thesis by simp
next
  case (VoEnd agent stopped scope ag i now)
  with prepare_end_wf [OF wf prod.collapse [symmetric]] show ?thesis by simp
next
  case (VoStopSettled i ag ac th co outcome now)
  with table_le_both [OF wf settle_stop_le] show ?thesis by simp
next
  case (VoRecover now)
  with table_le_both [OF wf recover_after_restart_le] show ?thesis by simp
qed

interpretation voice: ordered_machine voice_step voice_wf keeps
  by unfold_locales (use voice_step_wf keeps_trans in \<open>auto simp: keeps_refl\<close>)

lemma voice_run_wf: "voice_wf t \<Longrightarrow> voice_wf (voice_run t ops) \<and> keeps t (voice_run t ops)"
  using voice.run_inv voice.run_le by blast

lemma empty_voice_wf: "voice_wf []"
  by (simp add: voice_wf_def)

section \<open>Properties\<close>

text \<open>C25: whatever is started, attached, answered, stopped, disconnected, settled or recovered, one
  operation after the other, an agent never has two voice sessions that have not ended.\<close>

theorem voice_one_open_session:
  assumes "om_get (voice_run [] ops) i = Some r" "om_get (voice_run [] ops) j = Some q"
    and "vr_agent r = vr_agent q" "vr_ended r = None" "vr_ended q = None"
  shows "i = j"
  using voice_wf_one [OF _ assms] voice_run_wf [OF empty_voice_wf] by blast

definition sample_voice_agent :: "voice_agent option" where
  "sample_voice_agent = Some \<lparr>va_thread_id = Some ''t'', va_account_key = ''acc'', va_epoch = 1,
     va_auto_wake = None, va_turn_epoch = None\<rparr>"

definition sample_voice_ops :: "voice_op list" where
  "sample_voice_ops =
     [VoCreate sample_voice_agent True ''a'' ''s1'' ''v=0'' ''acc'' ''t'' 1 (Finite 1),
      VoCreate sample_voice_agent True ''a'' ''s2'' ''v=0'' ''acc'' ''t'' 1 (Finite 1),
      VoAttach sample_voice_agent (Inr True) ''a'' ''s1'' ''t'' ''acc'' ''c'' 1]"

theorem voice_one_open_session_witness:
  "\<exists>r. om_get (voice_run [] sample_voice_ops) ''s1'' = Some r \<and> vr_ended r = None \<and>
     \<not> (\<exists>q. om_get (voice_run [] sample_voice_ops) ''s2'' = Some q \<and> vr_agent q = vr_agent r \<and> vr_ended q = None)"
proof -
  have "map_option vr_ended (om_get (voice_run [] sample_voice_ops) ''s1'') = Some None" by code_simp
  then obtain r where r: "om_get (voice_run [] sample_voice_ops) ''s1'' = Some r" "vr_ended r = None" by auto
  have "\<not> (\<exists>q. om_get (voice_run [] sample_voice_ops) ''s2'' = Some q \<and> vr_agent q = vr_agent r \<and> vr_ended q = None)"
  proof (rule notI, elim exE conjE)
    fix q assume q: "om_get (voice_run [] sample_voice_ops) ''s2'' = Some q" "vr_agent q = vr_agent r" "vr_ended q = None"
    from voice_one_open_session [OF r(1) q(1) q(2) [symmetric] r(2) q(3)] show False by simp
  qed
  with r show ?thesis by blast
qed

text \<open>A voice session that has ended keeps its row, its agent and the time of its end, through any
  further sequence of operations.\<close>

lemma voice_end_is_final:
  assumes "voice_wf t" "om_get t i = Some r" "vr_ended r = Some e"
  shows "\<exists>r'. om_get (voice_run t ops) i = Some r' \<and> vr_agent r' = vr_agent r \<and> vr_ended r' = Some e"
  using voice_run_wf [OF assms(1), of ops] assms(2,3) unfolding keeps_def row_le_def by blast

text \<open>A transition of a session that was read from the table is stored so that reading the row again
  gives the session the transition computed.\<close>

lemma voice_transition_round_trip:
  assumes "voice_wf t" "om_get t i = Some row" "session_from_row row = Inr s"
    and "transition_session s signal now = Inr tr"
  shows "map_option session_from_row (om_get (update_session t (tr_session tr)) i) = Some (Inr (tr_session tr))"
proof -
  have "row \<in> set (map snd t)" using assms(1,2) table_row_member [of t row] by (auto simp: voice_wf_def)
  note s = read_session_row [OF assms(1) this assms(3)]
  have "row = row_of s" using assms(3) by (simp only: session_from_row_iff)
  then have i: "vs_id s = i" using voice_wf_row(1) [OF assms(1,2)] by (simp add: row_of_def)
  have "session_from_row (row_of (tr_session tr)) = Inr (tr_session tr)"
    unfolding session_from_row_iff using update_transition(3) [OF s assms(4)] by simp
  with update_transition(2) [OF s assms(4)] i show ?thesis by simp
qed

text \<open>The write of a notification stores the session it was computed from, whatever the row is by then.\<close>

lemma notification_write_row:
  assumes "om_get t (vs_id s) = Some r" "transition_session s signal now = Inr tr" "vs_id (tr_session tr) = vs_id s"
  shows "om_get (snd (notification_write t s signal now)) (vs_id s) =
      Some (r\<lparr>vr_state := map_option voice_state_str (vs_state (tr_session tr)), vr_error := vs_error (tr_session tr),
        vr_ended := vs_ended (tr_session tr), vr_answer := vs_answer (tr_session tr)\<rparr>)"
    and "j \<noteq> vs_id s \<Longrightarrow> om_get (snd (notification_write t s signal now)) j = om_get t j"
  using assms by (simp_all add: notification_write_def update_session_def)

lemma notification_target_open: "notification_target t th ac co = Inr (Some s) \<Longrightarrow> vs_ended s = None"
  by (auto simp: notification_target_def read_session_def session_from_row_iff row_of_def
      split: option.splits sum.splits dest!: newest_member)

text \<open>C26: the notification handler reads and writes in two transactions. Whatever operations end the
  session in between, with a settled stop, a failed start, a disconnect or a restart, the write of an
  answer brings the session back: its row is ready and has no end, so the end is lost. If the agent
  started another session in between, it then has two open sessions and the table is no longer
  well-formed.\<close>

theorem stale_notification_reopens_session:
  assumes wf: "voice_wf t" and read: "notification_target t thread account connection = Inr (Some s)"
    and ended: "om_get (voice_run t ops) (vs_id s) = Some r" "vr_ended r = Some e"
    and answer: "int (chars_count answer) \<le> MAX_OFFER_CHARS" "valid_time now"
    and "t' = snd (notification_write (voice_run t ops) s (AnswerReceived answer) now)"
  shows "\<exists>r'. om_get t' (vs_id s) = Some r' \<and> vr_agent r' = vr_agent r \<and> vr_ended r' = None
      \<and> vr_state r' = Some ''ready'' \<and> vr_answer r' = Some answer
      \<and> (\<forall>j q. j \<noteq> vs_id s \<and> om_get (voice_run t ops) j = Some q \<and> vr_agent q = vr_agent r \<and> vr_ended q = None \<longrightarrow>
           om_get t' j = Some q \<and> \<not> voice_wf t')"
proof -
  let ?s = "s\<lparr>vs_answer := Some answer, vs_state := Some VsReady\<rparr>"
  have tr: "transition_session s (AnswerReceived answer) now = Inr \<lparr>tr_session = ?s, tr_stop_provider = False\<rparr>"
    using answer notification_target_open [OF read] by (simp add: transition_session_def Let_def)
  note row = notification_write_row [OF ended(1) tr, folded assms(7)]
  let ?r = "r\<lparr>vr_state := Some ''ready'', vr_error := vs_error s, vr_ended := None, vr_answer := Some answer\<rparr>"
  have r': "om_get t' (vs_id s) = Some ?r" using row(1) notification_target_open [OF read] by simp
  moreover have "om_get t' j = Some q \<and> \<not> voice_wf t'"
    if "j \<noteq> vs_id s" "om_get (voice_run t ops) j = Some q" "vr_agent q = vr_agent r" "vr_ended q = None" for j q
  proof
    show q: "om_get t' j = Some q" using row(2) that by simp
    show "\<not> voice_wf t'" using voice_wf_one [OF _ r' q] that by auto
  qed
  ultimately show ?thesis by (intro exI [of _ ?r]) auto
qed

text \<open>A session is stopped and another one started while an answer for the first is on its way.\<close>

definition stop_and_start :: "voice_op list" where
  "stop_and_start =
     [VoEnd sample_voice_agent False (Some True) ''a'' ''s1'' (Finite 1),
      VoStopSettled ''s1'' ''a'' ''acc'' ''t'' ''c'' SoWritten (Finite 1),
      VoCreate sample_voice_agent True ''a'' ''s2'' ''v=0'' ''acc'' ''t'' 1 (Finite 1)]"

theorem stale_notification_reopens_session_witness:
  "\<exists>s. notification_target (voice_run [] sample_voice_ops) ''t'' ''acc'' ''c'' = Inr (Some s) \<and>
     map_option vr_ended (om_get (voice_run [] (sample_voice_ops @ stop_and_start)) ''s1'') = Some (Some (Finite 1)) \<and>
     (let t' = snd (notification_write (voice_run [] (sample_voice_ops @ stop_and_start)) s (AnswerReceived ''v=0'') (Finite 2))
      in map_option vr_ended (om_get t' ''s1'') = Some None \<and> \<not> voice_wf t')"
proof -
  let ?t = "voice_run [] sample_voice_ops"
  let ?t1 = "voice_run ?t stop_and_start"
  have "map_sum (\<lambda>_. ()) (map_option vs_id) (notification_target ?t ''t'' ''acc'' ''c'') = Inr (Some ''s1'')" by code_simp
  then obtain s where s: "notification_target ?t ''t'' ''acc'' ''c'' = Inr (Some s)" "vs_id s = ''s1''"
    by (cases "notification_target ?t ''t'' ''acc'' ''c''") (auto simp del: foldl_Cons foldl_Nil)
  have "map_option (\<lambda>r. (vr_agent r, vr_ended r)) (om_get ?t1 ''s1'') = Some (''a'', Some (Finite 1))"
    "map_option (\<lambda>r. (vr_agent r, vr_ended r)) (om_get ?t1 ''s2'') = Some (''a'', None)" by code_simp+
  then obtain r q where r: "om_get ?t1 ''s1'' = Some r" "vr_agent r = ''a''" "vr_ended r = Some (Finite 1)"
    and q: "om_get ?t1 ''s2'' = Some q" "vr_agent q = ''a''" "vr_ended q = None" by auto
  have wf: "voice_wf ?t" using voice_run_wf [OF empty_voice_wf] by blast
  have "int (chars_count ''v=0'') \<le> MAX_OFFER_CHARS" "valid_time (Finite 2)" by code_simp+
  from stale_notification_reopens_session [OF wf s(1), unfolded s(2), OF r(1,3) this refl]
  obtain r' where r': "om_get (snd (notification_write ?t1 s (AnswerReceived ''v=0'') (Finite 2))) ''s1'' = Some r'"
      "vr_ended r' = None"
    and two: "\<forall>j q. j \<noteq> ''s1'' \<and> om_get ?t1 j = Some q \<and> vr_agent q = vr_agent r \<and> vr_ended q = None \<longrightarrow>
      om_get (snd (notification_write ?t1 s (AnswerReceived ''v=0'') (Finite 2))) j = Some q
      \<and> \<not> voice_wf (snd (notification_write ?t1 s (AnswerReceived ''v=0'') (Finite 2)))" by blast
  have "\<not> voice_wf (snd (notification_write ?t1 s (AnswerReceived ''v=0'') (Finite 2)))"
    using two [rule_format, of "''s2''" q] q r(2) by simp
  with r' s r show ?thesis by (simp add: Let_def)
qed

end
