(* ===== verification/Peer_Frame.thy ===== *)
theory Peer_Frame
  imports Rust_Text
begin

text \<open>
  The heads of a peer stream, \<open>runtime/apps/peer-link/src/frame.rs\<close>: a 4-byte length and a JSON
  head, the validation of a request head, and the headers that the link sets itself. The JSON
  codec of a head (\<open>serde_json::to_vec\<close> and \<open>from_slice\<close>) is a parameter.
\<close>

definition MAX_HEAD :: int where "MAX_HEAD = 64 * 1024"
definition MAX_BODY :: u64 where "MAX_BODY = 64 * 1024 * 1024"
definition MAX_HEADERS :: int where "MAX_HEADERS = 64"

definition METHODS :: "string list" where
  "METHODS = [''GET'', ''POST'', ''PUT'', ''PATCH'', ''DELETE'']"

record request_head =
  rh_method :: string
  rh_path :: string
  rh_headers :: "(string \<times> string) list"
  rh_body_length :: u64

record response_head =
  sh_status :: u16
  sh_headers :: "(string \<times> string) list"

datatype frame_error = HeadNotEncoded | HeadTooLarge | HeadInvalid | UnexpectedEof

section \<open>Framing\<close>

text \<open>\<open>write_u32\<close> and \<open>read_u32\<close>: four bytes, the most significant first.\<close>

definition write_u32 :: "nat \<Rightarrow> string" where
  "write_u32 n = map (\<lambda>k. char_of (n div 256 ^ k mod 256)) [3, 2, 1, 0]"

definition read_u32 :: "string \<Rightarrow> (nat \<times> string) option" where
  "read_u32 s =
     (if length s < 4 then None
      else Some (foldl (\<lambda>n c. 256 * n + of_char c) 0 (take 4 s), drop 4 s))"

text \<open>The bytes that \<open>write\<close> puts on the stream.\<close>

definition write_head :: "('t \<Rightarrow> string option) \<Rightarrow> 't \<Rightarrow> frame_error + string" where
  "write_head to_vec v =
     (case to_vec v of
        None \<Rightarrow> Inl HeadNotEncoded
      | Some data \<Rightarrow>
          if int (length data) < 2 ^ 32 \<and> int (length data) \<le> MAX_HEAD
          then Inr (write_u32 (length data) @ data)
          else Inl HeadTooLarge)"

text \<open>\<open>read\<close> on the bytes of a stream up to its end, with the bytes after the head.\<close>

definition read_head :: "(string \<Rightarrow> 't option) \<Rightarrow> string \<Rightarrow> frame_error + 't \<times> string" where
  "read_head from_slice s =
     (case read_u32 s of
        None \<Rightarrow> Inl UnexpectedEof
      | Some (n, rest) \<Rightarrow>
          if int n > MAX_HEAD then Inl HeadTooLarge
          else if length rest < n then Inl UnexpectedEof
          else case from_slice (take n rest) of
                 None \<Rightarrow> Inl HeadInvalid
               | Some v \<Rightarrow> Inr (v, drop n rest))"

section \<open>Validation\<close>

definition token :: "string \<Rightarrow> bool" where
  "token name =
     (1 \<le> length name \<and> length name \<le> 64
      \<and> list_all (\<lambda>c. is_ascii_alphanumeric c \<or> c = CHR ''-'') name)"

definition LINK_HEADERS :: "string list" where
  "LINK_HEADERS =
     [''host'', ''connection'', ''content-length'', ''transfer-encoding'', ''keep-alive'',
      ''upgrade'', ''te'', ''trailer'', ''forwarded'', ''x-real-ip'']"

definition link_header :: "string \<Rightarrow> bool" where
  "link_header name =
     (let name = to_ascii_lowercase name in
      name \<in> set LINK_HEADERS
      \<or> prefix ''x-forwarded-'' name \<or> prefix ''x-studio-link-'' name
      \<or> prefix ''proxy-'' name \<or> prefix ''tailscale-'' name)"

datatype head_error = MethodNotSupported | PathInvalid | HeadersInvalid | BodyLengthInvalid

definition header_valid :: "string \<times> string \<Rightarrow> bool" where
  "header_valid h =
     (token (fst h) \<and> int (length (snd h)) \<le> 4096
      \<and> list_all (\<lambda>c. c \<noteq> CR \<and> c \<noteq> LF \<and> byte c \<noteq> 0) (snd h))"

definition validate :: "request_head \<Rightarrow> head_error + unit" where
  "validate head =
     (if rh_method head \<notin> set METHODS then Inl MethodNotSupported
      else if \<not> prefix ''/api/'' (rh_path head) \<or> int (length (rh_path head)) > 8192
              \<or> \<not> list_all (\<lambda>c. 0x21 \<le> byte c \<and> byte c < 0x7f) (rh_path head)
      then Inl PathInvalid
      else if int (length (rh_headers head)) > MAX_HEADERS \<or> \<not> list_all header_valid (rh_headers head)
      then Inl HeadersInvalid
      else if rh_body_length head > MAX_BODY
              \<or> rh_method head = ''GET'' \<and> rh_body_length head \<noteq> 0
      then Inl BodyLengthInvalid
      else Inr ())"

definition content_length :: "(string \<times> string) list \<Rightarrow> int option" where
  "content_length headers =
     (case List.find (\<lambda>h. eq_ignore_ascii_case (fst h) ''content-length'') headers of
        None \<Rightarrow> None
      | Some h \<Rightarrow> parse_unsigned (2 ^ 64 - 1) (str_trim (snd h)))"

section \<open>Lemmas\<close>

lemma write_u32_length [simp]: "length (write_u32 n) = 4"
  by (simp add: write_u32_def)

lemma read_u32_write:
  assumes "n < 2 ^ 32"
  shows "read_u32 (write_u32 n @ s) = Some (n, s)"
proof -
  let ?a = "n div 256" and ?b = "n div 256 div 256"
  have div: "n div 16777216 = ?b div 256" "n div 65536 = ?b" by (simp_all add: div_mult2_eq [symmetric])
  have "?b div 256 < 256" using assms by (simp add: div_mult2_eq [symmetric] less_mult_imp_div_less)
  then have "256 * (?b div 256 mod 256) + ?b mod 256 = ?b" by simp
  then have "256 * (256 * (?b div 256 mod 256) + ?b mod 256) + ?a mod 256 = ?a" by simp
  then have "256 * (256 * (256 * (?b div 256 mod 256) + ?b mod 256) + ?a mod 256) + n mod 256 = n" by simp
  then show ?thesis by (simp add: read_u32_def write_u32_def div)
qed

text \<open>A head is read back from the start of the stream, and from no shorter start.\<close>

lemma write_head_Inr:
  assumes "write_head to_vec v = Inr frame"
  obtains data where "to_vec v = Some data" "frame = write_u32 (length data) @ data"
    "length data < 2 ^ 32" "int (length data) \<le> MAX_HEAD"
proof -
  have len: "length data < 2 ^ 32" if "int (length data) \<le> MAX_HEAD" for data :: string
    using that by (simp add: MAX_HEAD_def)
  from assms show thesis
    by (auto simp: write_head_def intro!: that len split: option.splits if_splits)
qed

lemma read_write_head:
  assumes "write_head to_vec v = Inr frame"
    and "\<And>data. to_vec v = Some data \<Longrightarrow> from_slice data = Some v"
  shows "read_head from_slice (frame @ rest) = Inr (v, rest)"
proof -
  from assms(1) obtain data where data: "to_vec v = Some data" "frame = write_u32 (length data) @ data"
    "length data < 2 ^ 32" "int (length data) \<le> MAX_HEAD" by (rule write_head_Inr)
  then show ?thesis using assms(2) by (simp add: read_head_def read_u32_write)
qed

lemma read_head_short:
  assumes "write_head to_vec v = Inr frame" "strict_prefix s frame"
  shows "read_head from_slice s = Inl UnexpectedEof"
proof -
  from assms(1) obtain data where data: "frame = write_u32 (length data) @ data"
    "length data < 2 ^ 32" "int (length data) \<le> MAX_HEAD" by (rule write_head_Inr)
  show ?thesis
  proof (cases "length s < 4")
    case True
    then show ?thesis by (simp add: read_head_def read_u32_def)
  next
    case False
    from assms(2) data(1) have s: "take (length s) (write_u32 (length data) @ data) = s"
      by (metis append_eq_conv_conj prefix_def strict_prefix_def)
    then have "s = write_u32 (length data) @ take (length s - 4) data" using False by simp
    moreover have "length s < 4 + length data"
      using assms(2) data(1) by (auto dest: prefix_length_less)
    ultimately have "read_u32 s = Some (length data, take (length s - 4) data)"
      "length (take (length s - 4) data) < length data"
      using data(2) False read_u32_write [of "length data" "take (length s - 4) data"] by auto
    then show ?thesis using data(3) by (auto simp: read_head_def min_less_iff_disj)
  qed
qed

lemma validate_Inr:
  "validate head = Inr u \<longleftrightarrow>
     rh_method head \<in> set METHODS \<and> prefix ''/api/'' (rh_path head) \<and> int (length (rh_path head)) \<le> 8192
     \<and> list_all (\<lambda>c. 0x21 \<le> byte c \<and> byte c < 0x7f) (rh_path head)
     \<and> int (length (rh_headers head)) \<le> MAX_HEADERS \<and> list_all header_valid (rh_headers head)
     \<and> rh_body_length head \<le> MAX_BODY \<and> (rh_method head = ''GET'' \<longrightarrow> rh_body_length head = 0)"
  by (auto simp: validate_def)

lemma token_chars: "token name \<Longrightarrow> one_line name \<and> CHR '':'' \<notin> set name"
  by (auto simp: token_def one_line_def list_all_iff is_ascii_alphanumeric_def is_ascii_digit_def)

lemma method_one_line: "m \<in> set METHODS \<Longrightarrow> one_line m"
  by (auto simp: METHODS_def)

end
