(* ===== verification/Peer_Inbound.thy ===== *)
theory Peer_Inbound
  imports Peer_Frame
begin

text \<open>
  Requests from paired servers, \<open>runtime/apps/peer-link/src/inbound.rs\<close>: the sources that are
  accepted, the HTTP request the link writes to its backend for one stream, the response head
  it reads back, and the bytes it returns to the peer. Reads and writes can fail at any point;
  what they do is an argument of the handler.
\<close>

section \<open>Addresses\<close>

datatype ip_addr = IpV4 u8 u8 u8 u8 | IpV6 u16 u16 u16 u16 u16 u16 u16 u16

fun join :: "string \<Rightarrow> string list \<Rightarrow> string" where
  "join sep [] = []"
| "join sep [x] = x"
| "join sep (x # xs) = x @ sep @ join sep xs"

definition ipv4_text :: "u8 list \<Rightarrow> string" where
  "ipv4_text octets = join ''.'' (map (\<lambda>b. decimal (unat b)) octets)"

text \<open>\<open>Display\<close> of an IPv6 address: the first longest run of zero segments, the current run, and
  the text with a run of at least two replaced.\<close>

fun longest_zeros :: "nat \<Rightarrow> nat \<times> nat \<Rightarrow> nat \<times> nat \<Rightarrow> u16 list \<Rightarrow> nat \<times> nat" where
  "longest_zeros i longest current [] = longest"
| "longest_zeros i longest current (s # ss) =
     (if s = 0 then
        let current = (if snd current = 0 then (i, 1) else (fst current, snd current + 1)) in
        longest_zeros (Suc i) (if snd longest < snd current then current else longest) current ss
      else longest_zeros (Suc i) longest (0, 0) ss)"

definition segments_text :: "u16 list \<Rightarrow> string" where
  "segments_text ss = join '':'' (map (\<lambda>s. hex (unat s)) ss)"

definition ipv6_text :: "u16 list \<Rightarrow> string" where
  "ipv6_text ss =
     (let (start, len) = longest_zeros 0 (0, 0) (0, 0) ss in
      if len > 1 then segments_text (take start ss) @ ''::'' @ segments_text (drop (start + len) ss)
      else segments_text ss)"

fun ip_text :: "ip_addr \<Rightarrow> string" where
  "ip_text (IpV4 a b c d) = ipv4_text [a, b, c, d]"
| "ip_text (IpV6 a b c d e f g h) =
     (if [a, b, c, d, e, f] = [0, 0, 0, 0, 0, 0xffff]
      then ''::ffff:'' @ ipv4_text [ucast (drop_bit 8 g), ucast g, ucast (drop_bit 8 h), ucast h]
      else ipv6_text [a, b, c, d, e, f, g, h])"

fun tailnet :: "ip_addr \<Rightarrow> bool" where
  "tailnet (IpV4 a b _ _) = (a = 100 \<and> 64 \<le> b \<and> b < 128)"
| "tailnet (IpV6 a b c _ _ _ _ _) = (a = 0xfd7a \<and> b = 0x115c \<and> c = 0xa1e0)"

fun is_loopback :: "ip_addr \<Rightarrow> bool" where
  "is_loopback (IpV4 a _ _ _) = (a = 127)"
| "is_loopback (IpV6 a b c d e f g h) = ([a, b, c, d, e, f, g, h] = [0, 0, 0, 0, 0, 0, 0, 1])"

record inbound =
  in_backend_port :: u16
  in_forwarded_host :: string
  in_link_token :: string
  in_loopback :: bool

text \<open>The source check of \<open>serve\<close>, and the random name of a connection.\<close>

definition accepts_source :: "inbound \<Rightarrow> ip_addr \<Rightarrow> bool" where
  "accepts_source inb source = (tailnet source \<or> in_loopback inb \<and> is_loopback source)"

definition connection_id :: "u8 list option \<Rightarrow> string option" where
  "connection_id random = map_option (\<lambda>bs. concat (map (\<lambda>b. hex_digits 2 (uint b)) bs)) random"

text \<open>The check of the configured Serve host (\<open>main.rs\<close>).\<close>

definition valid_host :: "string \<Rightarrow> bool" where
  "valid_host host =
     (1 \<le> length host \<and> int (length host) \<le> 255
      \<and> list_all (\<lambda>c. is_ascii_alphanumeric c \<or> c \<in> set ''.-:'') host)"

section \<open>The request to the backend\<close>

definition request_line :: "request_head \<Rightarrow> string" where
  "request_line head = rh_method head @ '' '' @ rh_path head @ '' HTTP/1.0''"

text \<open>The headers the link sets, as names and values.\<close>

definition own_headers :: "inbound \<Rightarrow> ip_addr \<Rightarrow> string \<Rightarrow> request_head \<Rightarrow> (string \<times> string) list" where
  "own_headers inb peer connection head =
     [(''Host'', ''127.0.0.1:'' @ decimal (unat (in_backend_port inb))),
      (''X-Forwarded-Host'', in_forwarded_host inb),
      (''X-Forwarded-Proto'', ''https''),
      (''X-Forwarded-For'', ip_text peer),
      (''X-Studio-Link-Token'', in_link_token inb),
      (''X-Studio-Link-Connection'', connection),
      (''Content-Length'', decimal (unat (rh_body_length head))),
      (''Connection'', ''close'')]"

definition peer_headers :: "request_head \<Rightarrow> (string \<times> string) list" where
  "peer_headers head = filter (\<lambda>h. \<not> link_header (fst h)) (rh_headers head)"

definition header_line :: "string \<times> string \<Rightarrow> string" where
  "header_line h = fst h @ '': '' @ snd h"

definition forward_text :: "inbound \<Rightarrow> ip_addr \<Rightarrow> string \<Rightarrow> request_head \<Rightarrow> string" where
  "forward_text inb peer connection head =
     request_line head @ CRLF @
     concat (map (\<lambda>h. header_line h @ CRLF) (peer_headers head)) @
     concat (map (\<lambda>h. header_line h @ CRLF) (own_headers inb peer connection head)) @ CRLF"

section \<open>The response of the backend\<close>

text \<open>A read gives bytes, or fails (\<open>None\<close>); no bytes, and the end of the list, mean closed.\<close>

type_synonym reads = "string option list"

datatype response_error =
    ReTooLarge | ReIo | ReClosed | ReNotText | ReStatusLine

definition BLANK_LINE :: string where
  "BLANK_LINE = CRLF @ CRLF"

fun head_end :: "string \<Rightarrow> nat option" where
  "head_end [] = None"
| "head_end (c # s) =
     (if prefix BLANK_LINE (c # s) then Some 0 else map_option Suc (head_end s))"

fun read_response :: "string \<Rightarrow> reads \<Rightarrow> response_error + nat \<times> string \<times> reads" where
  "read_response buffer rs =
     (case head_end buffer of
        Some position \<Rightarrow> Inr (position, buffer, rs)
      | None \<Rightarrow>
          if int (length buffer) > MAX_HEAD then Inl ReTooLarge
          else case rs of
                 [] \<Rightarrow> Inl ReClosed
               | r # rs \<Rightarrow>
                   (case r of
                      None \<Rightarrow> Inl ReIo
                    | Some chunk \<Rightarrow>
                        if chunk = [] then Inl ReClosed else read_response (buffer @ chunk) rs))"

declare read_response.simps [simp del]

definition parse_status :: "string list \<Rightarrow> u16 option" where
  "parse_status ls =
     (case ls of
        [] \<Rightarrow> None
      | l # _ \<Rightarrow>
          (case second_word l of
             None \<Rightarrow> None
           | Some code \<Rightarrow>
               (case parse_unsigned 65535 code of
                  None \<Rightarrow> None
                | Some n \<Rightarrow> if 100 \<le> n \<and> n < 600 then Some (word_of_int n) else None)))"

definition parse_headers :: "string list \<Rightarrow> (string \<times> string) list" where
  "parse_headers ls = map (\<lambda>(n, v). (str_trim n, str_trim v)) (List.map_filter (split_once (CHR '':'')) ls)"

definition parse_response :: "string \<Rightarrow> response_error + response_head" where
  "parse_response head =
     (if \<not> utf8_valid head then Inl ReNotText
      else let ls = split_crlf head in
           case parse_status ls of
             None \<Rightarrow> Inl ReStatusLine
           | Some status \<Rightarrow> Inr \<lparr>sh_status = status, sh_headers = parse_headers (tl ls)\<rparr>)"

definition read_response_head :: "reads \<Rightarrow> response_error + response_head \<times> string \<times> reads" where
  "read_response_head rs =
     (case read_response [] rs of
        Inl e \<Rightarrow> Inl e
      | Inr (position, buffer, rs) \<Rightarrow>
          (case parse_response (take position buffer) of
             Inl e \<Rightarrow> Inl e
           | Inr head \<Rightarrow> Inr (head, drop (position + 4) buffer, rs)))"

section \<open>Forwarding one stream\<close>

text \<open>What the connections do: a failed write or copy has moved some bytes, never all of them.\<close>

record forward_env =
  fw_connect :: bool
  fw_write :: "nat option"
  fw_copy :: "nat option"
  fw_reply :: reads
  fw_send :: "nat option"
  fw_finish :: bool

datatype forward_error =
    FeHead frame_error
  | FeInvalid head_error
  | FeIo
  | FeBodyIncomplete
  | FeResponse response_error
  | FeResponseIncomplete

text \<open>The first half: the request on the stream and the bytes the backend receives.\<close>

definition forward_request ::
  "(string \<Rightarrow> request_head option) \<Rightarrow> inbound \<Rightarrow> ip_addr \<Rightarrow> string \<Rightarrow> forward_env \<Rightarrow> string \<Rightarrow>
   (forward_error + request_head) \<times> string" where
  "forward_request from_slice inb peer connection env recv =
     (case read_head from_slice recv of
        Inl e \<Rightarrow> (Inl (FeHead e), [])
      | Inr (head, body) \<Rightarrow>
          (case validate head of
             Inl e \<Rightarrow> (Inl (FeInvalid e), [])
           | Inr _ \<Rightarrow>
               if \<not> fw_connect env then (Inl FeIo, [])
               else
                 let text = forward_text inb peer connection head;
                     n = unat (rh_body_length head);
                     sent = take n body in
                 case fw_write env of
                   Some k \<Rightarrow> (Inl FeIo, take k (butlast text))
                 | None \<Rightarrow>
                     (case fw_copy env of
                        Some k \<Rightarrow>
                          if n = 0 then (Inr head, text)
                          else (Inl FeIo, text @ take (min k (n - 1)) sent)
                      | None \<Rightarrow>
                          if length sent \<noteq> n then (Inl FeBodyIncomplete, text @ sent)
                          else (Inr head, text @ sent))))"

fun read_to_end :: "reads \<Rightarrow> string \<times> bool" where
  "read_to_end [] = ([], True)"
| "read_to_end (r # rs) =
     (case r of
        None \<Rightarrow> ([], False)
      | Some chunk \<Rightarrow>
          if chunk = [] then ([], True)
          else let (s, ok) = read_to_end rs in (chunk @ s, ok))"

text \<open>The second half: the response for the peer and the bytes put on its stream. An error
  resets the stream, so the peer sees a response only when the result is not an error.\<close>

definition return_response ::
  "(response_head \<Rightarrow> string option) \<Rightarrow> forward_env \<Rightarrow> (forward_error + unit) \<times> string" where
  "return_response to_vec env =
     (case read_response_head (fw_reply env) of
        Inl e \<Rightarrow> (Inl (FeResponse e), [])
      | Inr (head, rest, rs) \<Rightarrow>
          (case write_head to_vec head of
             Inl e \<Rightarrow> (Inl (FeHead e), [])
           | Inr frame \<Rightarrow>
               let (more, ok) = read_to_end rs;
                   out = frame @ rest @ more in
               case fw_send env of
                 Some k \<Rightarrow> (Inl FeIo, take k out)
               | None \<Rightarrow>
                   if \<not> ok then (Inl FeIo, out)
                   else if (case content_length (sh_headers head) of
                              None \<Rightarrow> False
                            | Some l \<Rightarrow> l \<noteq> int (length rest + length more))
                   then (Inl FeResponseIncomplete, out)
                   else if fw_finish env then (Inr (), out) else (Inl FeIo, out)))"

definition forward ::
  "(string \<Rightarrow> request_head option) \<Rightarrow> (response_head \<Rightarrow> string option) \<Rightarrow> inbound \<Rightarrow> ip_addr \<Rightarrow>
   string \<Rightarrow> forward_env \<Rightarrow> string \<Rightarrow> (forward_error + unit) \<times> string \<times> string" where
  "forward from_slice to_vec inb peer connection env recv =
     (case forward_request from_slice inb peer connection env recv of
        (Inl e, backend) \<Rightarrow> (Inl e, backend, [])
      | (Inr _, backend) \<Rightarrow>
          let (r, out) = return_response to_vec env in (r, backend, out))"

section \<open>The forwarded head\<close>

lemma join_one_line: "one_line sep \<Longrightarrow> list_all one_line xs \<Longrightarrow> one_line (join sep xs)"
  by (induction sep xs rule: join.induct) simp_all

lemma ipv4_one_line [simp]: "one_line (ipv4_text octets)"
  unfolding ipv4_text_def by (rule join_one_line) (simp_all add: list_all_iff)

lemma segments_one_line [simp]: "one_line (segments_text ss)"
  unfolding segments_text_def by (rule join_one_line) (simp_all add: list_all_iff)

lemma ipv6_one_line [simp]: "one_line (ipv6_text ss)"
  by (simp add: ipv6_text_def split: prod.split)

lemma ip_one_line [simp]: "one_line (ip_text peer)"
  by (cases peer) simp_all

lemma connection_one_line: "connection_id random = Some name \<Longrightarrow> one_line name"
  by (auto simp: connection_id_def one_line_def dest!: hex_digits_chars [THEN digit_chars_one_line, unfolded one_line_def, THEN conjunct1, THEN notE]
      hex_digits_chars [THEN digit_chars_one_line, unfolded one_line_def, THEN conjunct2, THEN notE])

lemma valid_host_one_line: "valid_host host \<Longrightarrow> one_line host"
  unfolding valid_host_def
  by (rule one_line_list_all) (auto simp: is_ascii_alphanumeric_def is_ascii_digit_def)

lemma request_line_one_line: "validate head = Inr () \<Longrightarrow> one_line (request_line head)"
  by (auto simp: request_line_def validate_Inr method_one_line intro: one_line_list_all)

lemma peer_header_valid: "validate head = Inr () \<Longrightarrow> h \<in> set (peer_headers head) \<Longrightarrow> header_valid h"
  by (auto simp: peer_headers_def validate_Inr list_all_iff)

lemma header_valid_line: "header_valid h \<Longrightarrow> one_line (header_line h) \<and> CHR '':'' \<notin> set (fst h)"
  by (auto simp: header_valid_def header_line_def list_all_iff one_line_def [of "snd h"] dest: token_chars)

text \<open>Reading the lines of a request again: the part before the colon and the part after it.\<close>

lemma split_header_line: "CHR '':'' \<notin> set (fst h) \<Longrightarrow> split_once (CHR '':'') (header_line h) = Some (fst h, '' '' @ snd h)"
  using split_once_append [of "CHR '':''" "fst h" "'' '' @ snd h"] by (simp add: header_line_def)

lemma own_headers_lines:
  assumes "valid_host (in_forwarded_host inb)" "one_line (in_link_token inb)" "one_line connection"
    and "h \<in> set (own_headers inb peer connection head)"
  shows "one_line (header_line h)" "CHR '':'' \<notin> set (fst h)" "link_header (fst h)"
  using assms valid_host_one_line [OF assms(1)]
  by (auto simp: own_headers_def header_line_def) code_simp+

lemma forward_text_lines:
  assumes "validate head = Inr ()" "valid_host (in_forwarded_host inb)" "one_line (in_link_token inb)"
    "one_line connection"
  shows "split_crlf (forward_text inb peer connection head) =
    request_line head # map header_line (peer_headers head @ own_headers inb peer connection head) @ [[], []]"
proof -
  let ?hs = "peer_headers head @ own_headers inb peer connection head"
  let ?ls = "request_line head # map header_line ?hs @ [[]]"
  have "list_all one_line ?ls"
    using request_line_one_line [OF assms(1)] own_headers_lines(1) [OF assms(2-4)]
      header_valid_line [OF peer_header_valid [OF assms(1)]] by (auto simp: list_all_iff)
  from split_crlf_lines [OF this, of "[]"] show ?thesis
    by (simp add: forward_text_def comp_def)
qed

section \<open>Reading the response head\<close>

definition reads_text :: "reads \<Rightarrow> string" where
  "reads_text rs = concat (map (\<lambda>r. case r of None \<Rightarrow> [] | Some chunk \<Rightarrow> chunk) rs)"

text \<open>Reads that neither fail nor close.\<close>

definition reads_ok :: "reads \<Rightarrow> bool" where
  "reads_ok rs = list_all (\<lambda>r. r \<noteq> None \<and> r \<noteq> Some []) rs"

lemma reads_simps [simp]:
  "reads_text [] = []" "reads_text (Some c # rs) = c @ reads_text rs"
  "reads_ok []" "reads_ok (r # rs) \<longleftrightarrow> r \<noteq> None \<and> r \<noteq> Some [] \<and> reads_ok rs"
  by (simp_all add: reads_text_def reads_ok_def)

lemma length_blank_line [simp]: "length BLANK_LINE = 4"
  by (simp add: BLANK_LINE_def)

lemma head_end_length: "head_end s = Some n \<Longrightarrow> n + 4 \<le> length s"
  by (induction s arbitrary: n) (auto split: if_splits dest: prefix_length_le)

lemma head_end_append: "head_end s = Some n \<Longrightarrow> head_end (s @ t) = Some n"
proof (induction s arbitrary: n)
  case (Cons c s)
  show ?case
  proof (cases "prefix BLANK_LINE (c # s)")
    case True
    with Cons.prems show ?thesis using prefix_prefix [OF True, of t] by (auto split: if_splits)
  next
    case False
    with Cons.prems obtain m where m: "head_end s = Some m" "n = Suc m" by auto
    from head_end_length [OF m(1)] have "length BLANK_LINE \<le> length (c # s)" by simp
    with False have "\<not> prefix BLANK_LINE ((c # s) @ t)" by (metis prefix_length_prefix prefixI)
    with m Cons.IH [OF m(1)] show ?thesis by simp
  qed
qed simp

lemma head_end_within: "head_end (s @ t) = Some n \<Longrightarrow> n + 4 \<le> length s \<Longrightarrow> head_end s = Some n"
proof (induction s arbitrary: n)
  case (Cons c s)
  show ?case
  proof (cases "prefix BLANK_LINE ((c # s) @ t)")
    case True
    with Cons.prems have "n = 0" by simp
    with Cons.prems have "length BLANK_LINE \<le> length (c # s)" by simp
    with True have "prefix BLANK_LINE (c # s)" by (metis prefix_length_prefix prefixI)
    with \<open>n = 0\<close> show ?thesis by simp
  next
    case False
    then have "\<not> prefix BLANK_LINE (c # s)" by (metis append_prefixD prefixI prefix_order.trans)
    with False Cons show ?thesis by (auto split: if_splits)
  qed
qed simp

lemma read_response_chunks:
  assumes "reads_ok rs" "head_end (buffer @ reads_text rs) = Some n" "int n + 3 \<le> MAX_HEAD"
  shows "\<exists>buf rs'. read_response buffer rs = Inr (n, buf, rs') \<and> reads_ok rs'
    \<and> buf @ reads_text rs' = buffer @ reads_text rs"
  using assms
proof (induction rs arbitrary: buffer)
  case Nil
  then show ?case by (auto simp: read_response.simps [of buffer])
next
  case (Cons r rs)
  then obtain chunk where r: "r = Some chunk" "chunk \<noteq> []" by (cases r) auto
  show ?case
  proof (cases "head_end buffer")
    case (Some m)
    with head_end_append [OF Some] Cons.prems show ?thesis by (auto simp: read_response.simps [of buffer])
  next
    case None
    then have "\<not> n + 4 \<le> length buffer" using head_end_within [OF Cons.prems(2)] by auto
    then have "\<not> int (length buffer) > MAX_HEAD" using Cons.prems(3) by linarith
    with None r Cons.IH [of "buffer @ chunk"] Cons.prems show ?thesis
      by (simp add: read_response.simps [of buffer])
  qed
qed

lemma read_response_head_end: "read_response buffer rs = Inr (n, buf, rs') \<Longrightarrow> head_end buf = Some n"
proof (induction rs arbitrary: buffer)
  case Nil
  then show ?case by (auto simp: read_response.simps [of buffer] split: option.splits if_splits)
next
  case (Cons r rs)
  then show ?case by (subst (asm) (2) read_response.simps) (auto split: option.splits if_splits)
qed

text \<open>What is read beyond the limit is at most one chunk.\<close>

lemma read_response_bound:
  assumes "read_response buffer rs = Inr (n, buf, rs')" "int (length buffer) \<le> MAX_HEAD + 8192"
    and "\<forall>chunk. Some chunk \<in> set rs \<longrightarrow> length chunk \<le> 8192"
  shows "int (length buf) \<le> MAX_HEAD + 8192"
  using assms
proof (induction rs arbitrary: buffer)
  case Nil
  then show ?case by (auto simp: read_response.simps [of buffer] split: option.splits if_splits)
next
  case (Cons r rs)
  show ?case
  proof (cases "head_end buffer")
    case (Some m)
    with Cons.prems show ?thesis by (simp add: read_response.simps [of buffer])
  next
    case None
    with Cons.prems(1) obtain chunk where "r = Some chunk" "int (length buffer) \<le> MAX_HEAD"
      "read_response (buffer @ chunk) rs = Inr (n, buf, rs')"
      by (auto simp: read_response.simps [of buffer] split: option.splits if_splits)
    then show ?thesis using Cons.IH [of "buffer @ chunk"] Cons.prems(3) by fastforce
  qed
qed

lemma read_to_end_ok: "reads_ok rs \<Longrightarrow> read_to_end rs = (reads_text rs, True)"
  by (induction rs) (auto split: if_splits)

section \<open>Requests that are not complete\<close>

text \<open>A handler that stops early has given the backend nothing or a strict start of one request.\<close>

lemma forward_text_not_Nil: "forward_text inb peer connection head \<noteq> []"
  by (simp add: forward_text_def)

lemma butlast_strict_prefix: "xs \<noteq> [] \<Longrightarrow> strict_prefix (take k (butlast xs)) (xs @ ys)"
proof -
  assume "xs \<noteq> []"
  then have "strict_prefix (butlast xs) xs" by (metis append_butlast_last_id not_Cons_self2 strict_prefixI')
  then have "strict_prefix (take k (butlast xs)) xs" by (metis prefix_order.le_less_trans take_is_prefix)
  then show ?thesis by (metis prefix_order.less_le_trans prefixI)
qed

lemma short_body_strict_prefix:
  fixes b :: string
  assumes "length b < n"
  shows "\<exists>body. length body = n \<and> strict_prefix (xs @ b) (xs @ body)"
proof -
  have "length (b @ replicate (n - length b) CR) = n" using assms by simp
  moreover have "strict_prefix (xs @ b) (xs @ b @ replicate (n - length b) CR)" using assms by (auto simp: strict_prefix_def)
  ultimately show ?thesis by blast
qed

lemma forward_request_failed:
  assumes "forward_request from_slice inb peer connection env recv = (Inl e, backend)"
  shows "backend = [] \<or> (\<exists>head body. validate head = Inr () \<and> length body = unat (rh_body_length head)
    \<and> strict_prefix backend (forward_text inb peer connection head @ body))"
proof (cases "read_head from_slice recv")
  case (Inl e)
  with assms show ?thesis by (simp add: forward_request_def)
next
  case (Inr r)
  obtain head body where r: "r = (head, body)" by force
  let ?text = "forward_text inb peer connection head" and ?n = "unat (rh_body_length head)"
  have cases: "backend = [] \<or> validate head = Inr () \<and>
      ((\<exists>k. backend = take k (butlast ?text)) \<or> (\<exists>b. backend = ?text @ b \<and> length b < ?n))"
    using assms Inr r
    by (auto simp: forward_request_def Let_def split: sum.splits option.splits if_splits)
  have "strict_prefix (take k (butlast ?text)) (?text @ replicate ?n CR)" for k
    by (rule butlast_strict_prefix [OF forward_text_not_Nil])
  then have "\<exists>body. length body = ?n \<and> strict_prefix (take k (butlast ?text)) (?text @ body)" for k
    by (metis length_replicate)
  with cases short_body_strict_prefix [of _ ?n ?text] show ?thesis by blast
qed

lemma forward_request_ok:
  assumes "forward_request from_slice inb peer connection env recv = (Inr head, backend)"
  shows "\<exists>rest. read_head from_slice recv = Inr (head, rest) \<and> validate head = Inr ()
    \<and> unat (rh_body_length head) \<le> length rest
    \<and> backend = forward_text inb peer connection head @ take (unat (rh_body_length head)) rest"
  using assms
  by (auto simp: forward_request_def Let_def min_def split: sum.splits option.splits if_splits)

section \<open>Properties\<close>

text \<open>C29: the request that the backend reads has the method and path of the peer's head, the headers of
  the peer that the link does not own, with their values, and then exactly the headers of the link: a peer
  can neither add a line nor supply a header that the link sets.\<close>

theorem forwarded_head_is_exact:
  assumes "validate head = Inr ()" "valid_host (in_forwarded_host inb)" "one_line (in_link_token inb)"
    and "connection_id random = Some connection"
  shows "(let hs = peer_headers head @ own_headers inb peer connection head in
    split_crlf (forward_text inb peer connection head) = request_line head # map header_line hs @ [[], []]
    \<and> map (split_once (CHR '':'')) (map header_line hs) = map (\<lambda>h. Some (fst h, '' '' @ snd h)) hs
    \<and> filter (\<lambda>h. link_header (fst h)) hs = own_headers inb peer connection head)"
proof -
  note c = connection_one_line [OF assms(4)]
  note own = own_headers_lines [OF assms(2,3) c]
  have "filter (\<lambda>h. link_header (fst h)) (own_headers inb peer connection head) = own_headers inb peer connection head"
    using own(3) by (metis filter_True)
  moreover have "filter (\<lambda>h. link_header (fst h)) (peer_headers head) = []" by (simp add: peer_headers_def)
  moreover have "split_once (CHR '':'') (header_line h) = Some (fst h, '' '' @ snd h)"
    if "h \<in> set (peer_headers head @ own_headers inb peer connection head)" for h
    using that header_valid_line [OF peer_header_valid [OF assms(1)]] own(2) by (metis UnE set_append split_header_line)
  ultimately show ?thesis
    using forward_text_lines [OF assms(1-3) c, of peer] by (simp add: Let_def)
qed

definition sample_head :: request_head where
  "sample_head = \<lparr>rh_method = ''POST'', rh_path = ''/api/servers'',
     rh_headers = [(''Content-Type'', ''text/plain''), (''HOST'', ''evil'')], rh_body_length = 2\<rparr>"

definition sample_inbound :: inbound where
  "sample_inbound = \<lparr>in_backend_port = 4620, in_forwarded_host = ''mac.ts.net'', in_link_token = ''s3cret'',
     in_loopback = False\<rparr>"

lemma sample_inbound_ok: "validate sample_head = Inr ()" "valid_host (in_forwarded_host sample_inbound)"
  "one_line (in_link_token sample_inbound)"
  by code_simp+

theorem forwarded_head_is_exact_witness:
  "filter (\<lambda>h. link_header (fst h))
     (peer_headers sample_head @ own_headers sample_inbound (IpV4 100 64 0 1) ''0a'' sample_head) =
   own_headers sample_inbound (IpV4 100 64 0 1) ''0a'' sample_head
   \<and> peer_headers sample_head = [(''Content-Type'', ''text/plain'')]"
proof -
  have "connection_id (Some [0x0a]) = Some ''0a''" by code_simp
  from forwarded_head_is_exact [OF sample_inbound_ok this, of "IpV4 100 64 0 1"]
  have "filter (\<lambda>h. link_header (fst h))
     (peer_headers sample_head @ own_headers sample_inbound (IpV4 100 64 0 1) ''0a'' sample_head) =
    own_headers sample_inbound (IpV4 100 64 0 1) ''0a'' sample_head" unfolding Let_def by blast
  moreover have "peer_headers sample_head = [(''Content-Type'', ''text/plain'')]" by code_simp
  ultimately show ?thesis by blast
qed

text \<open>C30: however the backend's response is cut into reads, the same head is parsed from it and the bytes
  read beyond the head, followed by the bytes that are still to come, are the body; the reader never holds
  more than the limit of a head and one read.\<close>

theorem response_head_any_chunking:
  assumes "reads_ok rs" "reads_text rs = text @ BLANK_LINE @ body" "head_end (text @ BLANK_LINE) = Some (length text)"
    and "int (length text) + 3 \<le> MAX_HEAD" "parse_response text = Inr head"
    and "\<forall>chunk. Some chunk \<in> set rs \<longrightarrow> length chunk \<le> 8192"
  shows "\<exists>rest rs'. read_response_head rs = Inr (head, rest, rs') \<and> reads_ok rs'
    \<and> rest @ reads_text rs' = body \<and> int (length text + 4 + length rest) \<le> MAX_HEAD + 8192"
proof -
  have "head_end (reads_text rs) = Some (length text)" using head_end_append [OF assms(3), of body] assms(2) by simp
  from read_response_chunks [of rs "[]", simplified, OF assms(1) this assms(4)] obtain buf rs' where
    buf: "read_response [] rs = Inr (length text, buf, rs')" "reads_ok rs'" "buf @ reads_text rs' = reads_text rs" by blast
  have "length text + 4 \<le> length buf"
    using buf(1) by (metis head_end_length read_response_head_end)
  then have "take (length text + 4) buf = text @ BLANK_LINE"
    using arg_cong [OF buf(3) [unfolded assms(2)], of "take (length text + 4)"] by simp
  then obtain rest where rest: "buf = text @ BLANK_LINE @ rest" by (metis append.assoc append_take_drop_id)
  moreover have "rest @ reads_text rs' = body" using buf(3) assms(2) rest by simp
  ultimately have rest: "buf = text @ BLANK_LINE @ rest" "rest @ reads_text rs' = body" .
  show ?thesis
    using buf(1,2) rest assms(5) read_response_bound [OF buf(1) _ assms(6)]
    by (auto simp: read_response_head_def MAX_HEAD_def)
qed

definition sample_reply :: reads where
  "sample_reply = [Some (''HTTP/1.1 201 Created'' @ [CR]), Some ([LF] @ ''content-length: 4'' @ BLANK_LINE @ ''ab''), Some ''cd'']"

theorem response_head_any_chunking_witness:
  "\<exists>rest rs'. read_response_head sample_reply =
      Inr (\<lparr>sh_status = 201, sh_headers = [(''content-length'', ''4'')]\<rparr>, rest, rs')
    \<and> rest @ reads_text rs' = ''abcd''"
proof -
  let ?text = "''HTTP/1.1 201 Created'' @ CRLF @ ''content-length: 4''"
  have 1: "reads_ok sample_reply" by (simp add: sample_reply_def)
  have 2: "reads_text sample_reply = ?text @ BLANK_LINE @ ''abcd''" by (simp add: sample_reply_def)
  have 3: "head_end (?text @ BLANK_LINE) = Some (length ?text)" by code_simp
  have 4: "int (length ?text) + 3 \<le> MAX_HEAD" by code_simp
  have 5: "parse_response ?text = Inr \<lparr>sh_status = 201, sh_headers = [(''content-length'', ''4'')]\<rparr>" by code_simp
  have 6: "\<forall>chunk. Some chunk \<in> set sample_reply \<longrightarrow> length chunk \<le> 8192"
    by (auto simp: sample_reply_def)
  from response_head_any_chunking [OF 1 2 3 4 5 6] show ?thesis by blast
qed

end
