(* ===== verification/Peer_Outbound.thy ===== *)
theory Peer_Outbound
  imports Peer_Inbound Json_Value
begin

text \<open>
  Requests of the local backend to a paired server, \<open>runtime/apps/peer-link/src/outbound.rs\<close>:
  the head line on the Unix socket, the exchange on a new stream with its progress, and the
  reply on the socket. Every point where the link waits can succeed, fail, or stall until the
  deadline of the request; what happens is an argument. JSON text, the head codecs and the PEM
  reader are parameters.
\<close>

section \<open>Data\<close>

text \<open>A finite positive \<open>f64\<close> is ordered as its bit pattern; the pattern of 3600.0 bounds the timeout.\<close>

definition MAX_TIMEOUT_SECONDS :: u64 where
  "MAX_TIMEOUT_SECONDS = 0x40AC200000000000"

record outbound_head =
  oh_address :: "ip_addr \<times> u16"
  oh_public_key :: string
  oh_method :: string
  oh_path :: string
  oh_headers :: "(string \<times> string) list"
  oh_body_length :: u64
  oh_timeout :: u64

record progress =
  pg_sent :: bool
  pg_replied :: bool

datatype io = IoOk | IoFailed | IoStalled

text \<open>How the response stream ends after the delivered bytes: finished, reset, or silent.\<close>

datatype stream_end = EndFinished | EndReset | EndStalled

record exchange_env =
  ex_connect :: io
  ex_open :: io
  ex_write :: "io \<times> nat"
  ex_copy :: "io \<times> nat"
  ex_finish :: bool
  ex_recv :: string
  ex_chunks :: "string \<Rightarrow> string list"
  ex_end :: stream_end
  ex_refused :: bool

datatype exchange_end = XDone | XFailed string | XTimedOut

section \<open>Replies on the socket\<close>

definition reply_line :: "(json \<Rightarrow> string) \<Rightarrow> json \<Rightarrow> string" where
  "reply_line print v = print v @ [LF]"

definition failure_value :: "string \<Rightarrow> bool \<Rightarrow> json" where
  "failure_value failure sent = JObject [(''failure'', JString failure), (''sent'', JBool sent)]"

definition response_value :: "response_head \<Rightarrow> json" where
  "response_value head =
     JObject [(''headers'', JArray (map (\<lambda>(n, v). JArray [JString n, JString v]) (sh_headers head))),
              (''status'', JNumber (PosInt (ucast (sh_status head))))]"

definition body_part :: "string \<Rightarrow> string" where
  "body_part chunk = write_u32 (length chunk) @ chunk"

section \<open>The exchange\<close>

text \<open>The result of an exchange: how it ended, its progress, the bytes on the stream to the paired
  server, and the bytes for the backend.\<close>

type_synonym exchange_result = "exchange_end \<times> progress \<times> string \<times> string"

definition unsent :: progress where
  "unsent = \<lparr>pg_sent = False, pg_replied = False\<rparr>"

definition request_of :: "outbound_head \<Rightarrow> request_head" where
  "request_of head = \<lparr>rh_method = oh_method head, rh_path = oh_path head, rh_headers = oh_headers head,
     rh_body_length = oh_body_length head\<rparr>"

text \<open>The body of the response in parts, and the zero length when the stream was finished.\<close>

definition return_body ::
  "(json \<Rightarrow> string) \<Rightarrow> exchange_env \<Rightarrow> string \<Rightarrow> response_head \<Rightarrow> string \<Rightarrow> exchange_result" where
  "return_body print env stream response rest =
     (let pg = \<lparr>pg_sent = True, pg_replied = True\<rparr>;
          out = reply_line print (response_value response) @
            concat (map body_part (filter (\<lambda>c. c \<noteq> []) (ex_chunks env rest))) in
      case ex_end env of
        EndFinished \<Rightarrow> (XDone, pg, stream, out @ write_u32 0)
      | EndReset \<Rightarrow> (XFailed ''lost'', pg, stream, out)
      | EndStalled \<Rightarrow> (XTimedOut, pg, stream, out))"

text \<open>The whole request is on the stream: the part of \<open>exchange\<close> after \<open>progress.sent = true\<close>.\<close>

definition await_response ::
  "(json \<Rightarrow> string) \<Rightarrow> (string \<Rightarrow> response_head option) \<Rightarrow> exchange_env \<Rightarrow> string \<Rightarrow> exchange_result" where
  "await_response print from_slice env stream =
     (let sent = \<lparr>pg_sent = True, pg_replied = False\<rparr>;
          no_response = (if ex_refused env then (XFailed ''refused'', unsent, stream, [])
                         else (XFailed ''lost'', sent, stream, [])) in
      if \<not> ex_finish env then no_response
      else case read_head from_slice (ex_recv env) of
             Inr (response, rest) \<Rightarrow> return_body print env stream response rest
           | Inl e \<Rightarrow>
               if e = UnexpectedEof \<and> ex_end env = EndStalled then (XTimedOut, sent, stream, [])
               else no_response)"

definition exchange ::
  "(json \<Rightarrow> string) \<Rightarrow> (request_head \<Rightarrow> string option) \<Rightarrow> (string \<Rightarrow> response_head option) \<Rightarrow>
   (string \<Rightarrow> string option) \<Rightarrow> exchange_env \<Rightarrow> outbound_head \<Rightarrow> string \<Rightarrow> exchange_result" where
  "exchange print to_vec from_slice spki env head reader =
     (let request = request_of head;
          fail = (\<lambda>failure stream. (XFailed failure, unsent, stream, []));
          stall = (\<lambda>stream. (XTimedOut, unsent, stream, [])) in
      case validate request of
        Inl _ \<Rightarrow> fail ''invalid'' []
      | Inr _ \<Rightarrow>
          if spki (oh_public_key head) = None then fail ''invalid'' []
          else if ex_connect env = IoFailed then fail ''unreachable'' []
          else if ex_connect env = IoStalled then stall []
          else if ex_open env = IoFailed then fail ''unreachable'' []
          else if ex_open env = IoStalled then stall []
          else case write_head to_vec request of
                 Inl _ \<Rightarrow> fail ''unreachable'' []
               | Inr frame \<Rightarrow>
                   let (w, k) = ex_write env;
                       (c, j) = ex_copy env;
                       n = unat (rh_body_length request);
                       body = take n reader in
                   if w = IoFailed then fail ''unreachable'' (take k (butlast frame))
                   else if w = IoStalled then stall (take k (butlast frame))
                   else if n \<noteq> 0 \<and> c = IoFailed then fail ''invalid'' (frame @ take (min j (n - 1)) body)
                   else if n \<noteq> 0 \<and> c = IoStalled then stall (frame @ take (min j (n - 1)) body)
                   else if length body \<noteq> n then fail ''invalid'' (frame @ body)
                   else await_response print from_slice env (frame @ body))"

section \<open>The socket\<close>

text \<open>The head line: a line feed within the first \<open>MAX_HEAD + 1\<close> bytes, with the bytes after it.\<close>

definition head_line :: "string \<Rightarrow> (string \<times> string) option" where
  "head_line s =
     (let l = takeWhile (\<lambda>c. c \<noteq> LF) s in
      if length l < length s \<and> int (length l) \<le> MAX_HEAD then Some (l @ [LF], drop (Suc (length l)) s)
      else None)"

text \<open>\<open>handle\<close>: the bytes on the stream to the paired server and the reply to the backend.\<close>

definition handle ::
  "(json \<Rightarrow> string) \<Rightarrow> (string \<Rightarrow> outbound_head option) \<Rightarrow> (request_head \<Rightarrow> string option) \<Rightarrow>
   (string \<Rightarrow> response_head option) \<Rightarrow> (string \<Rightarrow> string option) \<Rightarrow> exchange_env \<Rightarrow> string \<Rightarrow>
   string \<times> string" where
  "handle print outbound_of to_vec from_slice spki env input =
     (let invalid = ([], reply_line print (failure_value ''invalid'' False)) in
      case head_line input of
        None \<Rightarrow> invalid
      | Some (line, reader) \<Rightarrow>
          (case outbound_of line of
             None \<Rightarrow> invalid
           | Some head \<Rightarrow>
               if \<not> (0 < oh_timeout head \<and> oh_timeout head \<le> MAX_TIMEOUT_SECONDS) then invalid
               else
                 let (r, pg, stream, out) = exchange print to_vec from_slice spki env head reader;
                     reply = (\<lambda>failure. if pg_replied pg then out
                                else out @ reply_line print (failure_value failure (pg_sent pg))) in
                 (stream,
                  case r of
                    XDone \<Rightarrow> out
                  | XFailed failure \<Rightarrow> reply failure
                  | XTimedOut \<Rightarrow> reply ''timeout'')))"

section \<open>What is on the stream\<close>

text \<open>
  The stream of an exchange that was not marked as sent is a strict start of one request, unless
  the server refused the key; a sent exchange put the whole request on it.
\<close>

definition whole_request :: "(request_head \<Rightarrow> string option) \<Rightarrow> outbound_head \<Rightarrow> string \<Rightarrow> string \<Rightarrow> bool" where
  "whole_request to_vec head reader stream =
     (\<exists>frame. write_head to_vec (request_of head) = Inr frame
        \<and> unat (oh_body_length head) \<le> length reader
        \<and> stream = frame @ take (unat (oh_body_length head)) reader)"

definition part_request :: "(request_head \<Rightarrow> string option) \<Rightarrow> outbound_head \<Rightarrow> string \<Rightarrow> bool" where
  "part_request to_vec head stream =
     (stream = [] \<or> (\<exists>frame. write_head to_vec (request_of head) = Inr frame
        \<and> (strict_prefix stream frame \<or> (\<exists>b. stream = frame @ b \<and> length b < unat (oh_body_length head)))))"

lemma await_response_stream:
  "await_response print from_slice env stream = (r, pg, stream', out) \<Longrightarrow>
   stream' = stream \<and> (pg_sent pg \<or> r = XFailed ''refused'')"
  by (auto simp: await_response_def return_body_def Let_def split: if_splits sum.splits stream_end.splits)

lemma butlast_frame: "write_head to_vec v = Inr frame \<Longrightarrow> strict_prefix (take k (butlast frame)) frame"
  using butlast_strict_prefix [of frame k "[]"] write_head_Inr [of to_vec v frame]
  by (metis Nil_is_append_conv append.right_neutral length_0_conv write_u32_length zero_neq_numeral)

lemma exchange_stream:
  assumes "exchange print to_vec from_slice spki env head reader = (r, pg, stream, out)"
  shows "whole_request to_vec head reader stream \<and> (pg_sent pg \<or> r = XFailed ''refused'') \<or>
    part_request to_vec head stream \<and> \<not> pg_sent pg \<and> validate (request_of head) = Inr () \<or>
    stream = [] \<and> \<not> pg_sent pg"
proof (cases "validate (request_of head)")
  case (Inl e)
  with assms show ?thesis by (auto simp: exchange_def Let_def unsent_def)
next
  case (Inr u)
  show ?thesis
  proof (cases "write_head to_vec (request_of head)")
    case (Inl e)
    with assms Inr show ?thesis by (auto simp: exchange_def Let_def unsent_def split: if_splits)
  next
    case frame: (Inr frame)
    obtain w k c j where env: "ex_write env = (w, k)" "ex_copy env = (c, j)" by force
    let ?n = "unat (oh_body_length head)"
    have n: "rh_body_length (request_of head) = oh_body_length head" by (simp add: request_of_def)
    have short: "?n \<noteq> 0 \<Longrightarrow> length (take (min j (?n - 1)) (take ?n reader)) < ?n"
      and body: "length (take ?n reader) \<noteq> ?n \<Longrightarrow> length (take ?n reader) < ?n"
      and whole: "length (take ?n reader) = ?n \<Longrightarrow> ?n \<le> length reader" by simp_all
    consider "stream = []" "\<not> pg_sent pg"
      | "stream = take k (butlast frame)" "\<not> pg_sent pg"
      | b where "stream = frame @ b" "length b < ?n" "\<not> pg_sent pg"
      | "?n \<le> length reader" "await_response print from_slice env (frame @ take ?n reader) = (r, pg, stream, out)"
      using assms short body whole unfolding exchange_def Let_def Inr frame env n sum.case prod.case
      by (auto simp: unsent_def simp del: take_take length_take split: if_splits)
    then show ?thesis
    proof cases
      case 2
      with Inr frame butlast_frame [OF frame, of k] show ?thesis unfolding part_request_def by auto
    next
      case 3
      with Inr frame show ?thesis unfolding part_request_def by auto
    next
      case 4
      with frame await_response_stream [OF 4(2)] show ?thesis unfolding whole_request_def by auto
    qed simp
  qed
qed

text \<open>A server that receives a part of a request never completes it.\<close>

lemma part_request_not_forwarded:
  assumes "part_request to_vec head stream" "prefix p stream"
    and codec: "\<And>v data. to_vec v = Some data \<Longrightarrow> from_slice data = Some v"
    and "forward_request from_slice inb peer connection fenv p = (r, backend)"
  shows "\<exists>e. r = Inl e"
proof (rule ccontr)
  assume "\<not> (\<exists>e. r = Inl e)"
  then obtain h where "r = Inr h" by (cases r) auto
  with forward_request_ok assms(4) obtain rest where
    rest: "read_head from_slice p = Inr (h, rest)" "unat (rh_body_length h) \<le> length rest" by blast
  from rest(1) have "p \<noteq> []" by (auto simp: read_head_def read_u32_def)
  with assms(1,2) obtain frame where frame: "write_head to_vec (request_of head) = Inr frame"
    "strict_prefix stream frame \<or> (\<exists>b. stream = frame @ b \<and> length b < unat (oh_body_length head))"
    by (auto simp: part_request_def)
  show False
  proof (cases "strict_prefix p frame")
    case True
    from read_head_short [OF frame(1) this, of from_slice] rest(1) show False by simp
  next
    case False
    with frame(2) assms(2) obtain b where b: "stream = frame @ b" "length b < unat (oh_body_length head)"
      using prefix_order.le_less_trans by blast
    from False have "prefix p frame \<Longrightarrow> p = frame @ []" by (simp add: strict_prefix_def)
    with assms(2) b(1) obtain us where "p = frame @ us" "prefix us b" by (auto simp: prefix_append)
    with b(2) have b: "p = frame @ us" "length us < unat (oh_body_length head)"
      using prefix_length_le [of us b] by simp_all
    moreover have "read_head from_slice (frame @ us) = Inr (request_of head, us)"
      by (rule read_write_head [OF frame(1) codec])
    ultimately have "h = request_of head" "us = rest" using rest(1) by simp_all
    with b(2) rest(2) show False by (simp add: request_of_def)
  qed
qed

end
