(* ===== verification/Peer_Client.thy ===== *)
theory Peer_Client
  imports Peer_Outbound "HOL-Library.Countable"
begin

text \<open>
  The backend's side of the peer link, \<open>runtime-services/src/remote_transport.rs\<close>: the learned
  routes, one exchange with the link process over its Unix socket, and the choice between the
  link and HTTPS. Together with the two ends of the link this gives what the choice relies on:
  the HTTPS request is sent only when the paired server cannot have run the request of the link.
\<close>

section \<open>Routes\<close>

record learned_link =
  ll_address :: string
  ll_unavailable_until :: "int option"

type_synonym routes = "(string, learned_link) omap"

text \<open>\<open>Ipv4Addr::from_str\<close>: four decimal octets without leading zeros.\<close>

definition parse_octet :: "string \<Rightarrow> u8 option" where
  "parse_octet s =
     (if s = [] \<or> length s > 3 \<or> \<not> list_all is_ascii_digit s \<or> length s > 1 \<and> hd s = CHR ''0''
         \<or> digits_value s > 255
      then None else Some (word_of_int (digits_value s)))"

definition parse_ipv4 :: "string \<Rightarrow> (u8 \<times> u8 \<times> u8 \<times> u8) option" where
  "parse_ipv4 s =
     (case map parse_octet (split_on (CHR ''.'') s) of
        [Some a, Some b, Some c, Some d] \<Rightarrow> Some (a, b, c, d)
      | _ \<Rightarrow> None)"

definition parse_peer_link_advert :: "string \<Rightarrow> string option" where
  "parse_peer_link_advert v =
     (case rsplit_once (CHR '':'') v of
        None \<Rightarrow> None
      | Some (address, port) \<Rightarrow>
          if CHR '':'' \<in> set address \<or> port = [] \<or> length port > 5 then None
          else (case parse_ipv4 address of
                  None \<Rightarrow> None
                | Some (a, b, c, d) \<Rightarrow>
                    if a \<noteq> 100 \<or> \<not> (64 \<le> b \<and> b \<le> 127) then None
                    else (case parse_unsigned 65535 port of
                            None \<Rightarrow> None
                          | Some n \<Rightarrow>
                              if n > 0 then Some (ipv4_text [a, b, c, d] @ '':'' @ decimal (nat n))
                              else None)))"

definition learn :: "routes \<Rightarrow> string \<Rightarrow> string option \<Rightarrow> routes" where
  "learn routes server advert =
     (case (case advert of None \<Rightarrow> None | Some v \<Rightarrow> parse_peer_link_advert v) of
        Some address \<Rightarrow> om_insert server \<lparr>ll_address = address, ll_unavailable_until = None\<rparr> routes
      | None \<Rightarrow> om_remove server routes)"

section \<open>The exchange with the link process\<close>

definition MAX_REPLY_LINE :: int where "MAX_REPLY_LINE = 64 * 1024"
definition MAX_RESPONSE_BYTES :: int where "MAX_RESPONSE_BYTES = 1048576"
definition DOWN_SECONDS :: int where "DOWN_SECONDS = 60"

record http_response =
  hr_status :: u16
  hr_headers :: "(string \<times> string) list"
  hr_body :: string

record peer_request =
  pr_server :: string
  pr_public_key :: string
  pr_method :: string
  pr_path :: string
  pr_headers :: "(string \<times> string) list"
  pr_body :: string
  pr_timeout :: f64

definition client_head :: "string \<Rightarrow> peer_request \<Rightarrow> json" where
  "client_head address req =
     JObject [(''address'', JString address),
              (''bodyLength'', JNumber (PosInt (of_nat (length (pr_body req))))),
              (''headers'', JArray (map (\<lambda>(n, v). JArray [JString n, JString v]) (pr_headers req))),
              (''method'', JString (pr_method req)),
              (''path'', JString (pr_path req)),
              (''publicKey'', JString (pr_public_key req)),
              (''timeout'', JNumber (Float (pr_timeout req)))]"

fun header_of_value :: "json \<Rightarrow> (string \<times> string) option" where
  "header_of_value (JArray (n # v # _)) =
     (case (as_str n, as_str v) of (Some n, Some v) \<Rightarrow> Some (n, v) | _ \<Rightarrow> None)"
| "header_of_value _ = None"

fun headers_of_values :: "json list \<Rightarrow> (string \<times> string) list option" where
  "headers_of_values [] = Some []"
| "headers_of_values (v # vs) =
     (case header_of_value v of
        None \<Rightarrow> None
      | Some h \<Rightarrow> map_option (Cons h) (headers_of_values vs))"

text \<open>The body parts up to the zero length.\<close>

function read_parts :: "int \<Rightarrow> string \<Rightarrow> string option" where
  "read_parts received s =
     (case read_u32 s of
        None \<Rightarrow> None
      | Some (n, rest) \<Rightarrow>
          if n = 0 then Some []
          else if received + int n > MAX_RESPONSE_BYTES then None
          else if length rest < n then None
          else map_option (\<lambda>b. take n rest @ b) (read_parts (received + int n) (drop n rest)))"
  by auto
termination
  by (relation "measure (\<lambda>(_, s). length s)") (auto simp: read_u32_def split: if_splits)

declare read_parts.simps [simp del]

text \<open>The reply on the socket: the failure and whether the request was sent, or a response. Every
  reply that cannot be read counts as sent.\<close>

definition read_reply :: "(string \<Rightarrow> json option) \<Rightarrow> string \<Rightarrow> bool + http_response" where
  "read_reply parse s =
     (let line = takeWhile (\<lambda>c. c \<noteq> LF) s in
      if \<not> (length line < length s \<and> int (length line) + 1 \<le> MAX_REPLY_LINE) then Inl True
      else case parse line of
             None \<Rightarrow> Inl True
           | Some reply \<Rightarrow>
               if json_get reply ''failure'' \<noteq> None
               then Inl (json_get reply ''sent'' \<noteq> Some (JBool False))
               else (case (as_u64 (json_index reply ''status''), as_array (json_index reply ''headers'')) of
                       (Some status, Some hs) \<Rightarrow>
                         if uint status > 65535 then Inl True
                         else (case headers_of_values hs of
                                 None \<Rightarrow> Inl True
                               | Some headers \<Rightarrow>
                                   (case read_parts 0 (drop (Suc (length line)) s) of
                                      None \<Rightarrow> Inl True
                                    | Some body \<Rightarrow>
                                        Inr \<lparr>hr_status = ucast status, hr_headers = headers, hr_body = body\<rparr>))
                     | _ \<Rightarrow> Inl True))"

text \<open>What the socket does: a failed write has moved some bytes, never all of them; the reply is
  the bytes read before the connection ends.\<close>

record client_env =
  ce_now :: int
  ce_connect :: bool
  ce_timeouts :: bool
  ce_written :: "nat option"
  ce_reply :: string
  ce_later :: int

text \<open>A server whose link failed before anything was sent is not tried again for a while.\<close>

definition mark_unavailable :: "routes \<Rightarrow> string \<Rightarrow> int \<Rightarrow> routes" where
  "mark_unavailable routes server later =
     (case om_get routes server of
        None \<Rightarrow> routes
      | Some peer \<Rightarrow> om_insert server (peer\<lparr>ll_unavailable_until := Some (later + DOWN_SECONDS)\<rparr>) routes)"

text \<open>The result, the routes afterwards, and the bytes the link process receives. The route is looked
  up before the exchange and again, by the server's name, when it is marked; one exchange at a time is
  modelled, so that the routes in between are the same.\<close>

definition client_exchange ::
  "(json \<Rightarrow> string) \<Rightarrow> (string \<Rightarrow> json option) \<Rightarrow> client_env \<Rightarrow> routes \<Rightarrow> peer_request \<Rightarrow>
   (bool + http_response option) \<times> routes \<times> string" where
  "client_exchange print parse env routes req =
     (case om_get routes (pr_server req) of
        None \<Rightarrow> (Inr None, routes, [])
      | Some peer \<Rightarrow>
          if (case ll_unavailable_until peer of None \<Rightarrow> False | Some until \<Rightarrow> ce_now env < until)
          then (Inr None, routes, [])
          else if \<not> ce_connect env \<or> \<not> ce_timeouts env then (Inr None, routes, [])
          else
            let out = print (client_head (ll_address peer) req) @ [LF] @ pr_body req in
            case ce_written env of
              Some k \<Rightarrow> (Inr None, routes, take k (butlast out))
            | None \<Rightarrow>
                (case read_reply parse (ce_reply env) of
                   Inl sent \<Rightarrow>
                     (Inl sent,
                      if sent then routes else mark_unavailable routes (pr_server req) (ce_later env),
                      out)
                 | Inr response \<Rightarrow> (Inr (Some response), routes, out)))"

section \<open>The link first, then HTTPS\<close>

datatype remote_error = ExchangeUnknown | ResponseTooLarge | OtherRemote

text \<open>\<open>exchange_paired_request_with\<close> for the outcome of the link; the first component says whether
  the HTTPS request is made.\<close>

definition choose_transport ::
  "bool + http_response option \<Rightarrow> remote_error + http_response \<Rightarrow> int \<Rightarrow>
   bool \<times> (remote_error + http_response)" where
  "choose_transport link https limit =
     (let check = (\<lambda>r. if int (length (hr_body r)) > limit then Inl ResponseTooLarge else Inr r) in
      case link of
        Inr (Some response) \<Rightarrow> (False, check response)
      | Inr None \<Rightarrow> (True, case https of Inl e \<Rightarrow> Inl e | Inr r \<Rightarrow> check r)
      | Inl sent \<Rightarrow>
          if sent then (False, Inl ExchangeUnknown)
          else (True, case https of Inl e \<Rightarrow> Inl e | Inr r \<Rightarrow> check r))"

section \<open>Replies and failures\<close>

definition FAILURES :: "string list" where
  "FAILURES = [''invalid'', ''unreachable'', ''refused'', ''lost'', ''timeout'']"

lemma return_body_out:
  "return_body print env stream response rest = (r, pg, stream', out) \<Longrightarrow>
   pg_replied pg \<and> (r = XDone \<or> r = XFailed ''lost'' \<or> r = XTimedOut)
   \<and> (\<exists>rest. out = reply_line print (response_value response) @ rest)"
  by (auto simp: return_body_def Let_def split: stream_end.splits)

lemma await_response_out:
  assumes "await_response print from_slice env stream = (r, pg, stream', out)"
  shows "pg_replied pg \<and> r \<noteq> XFailed ''refused'' \<and> (\<exists>h rest. out = reply_line print (response_value h) @ rest) \<or>
    \<not> pg_replied pg \<and> out = [] \<and> r \<noteq> XDone \<and> (r = XFailed ''refused'' \<longrightarrow> ex_refused env)
      \<and> (\<forall>f. r = XFailed f \<longrightarrow> f \<in> set FAILURES)"
proof (cases "ex_finish env")
  case False
  with assms show ?thesis by (auto simp: await_response_def Let_def unsent_def FAILURES_def split: if_splits)
next
  case True
  show ?thesis
  proof (cases "read_head from_slice (ex_recv env)")
    case (Inl e)
    with True assms show ?thesis by (auto simp: await_response_def Let_def unsent_def FAILURES_def split: if_splits)
  next
    case (Inr p)
    obtain h rest where "p = (h, rest)" by force
    with True Inr assms have "return_body print env stream h rest = (r, pg, stream', out)"
      by (simp add: await_response_def Let_def)
    from return_body_out [OF this] show ?thesis by auto
  qed
qed

lemma exchange_out:
  assumes "exchange print to_vec from_slice spki env head reader = (r, pg, stream, out)"
  shows "pg_replied pg \<and> r \<noteq> XFailed ''refused'' \<and> (\<exists>h rest. out = reply_line print (response_value h) @ rest) \<or>
    \<not> pg_replied pg \<and> out = [] \<and> r \<noteq> XDone \<and> (r = XFailed ''refused'' \<longrightarrow> ex_refused env)
      \<and> (\<forall>f. r = XFailed f \<longrightarrow> f \<in> set FAILURES)"
proof -
  have "\<not> pg_replied pg \<and> out = [] \<and> r \<noteq> XDone \<and> r \<noteq> XFailed ''refused''
      \<and> (\<forall>f. r = XFailed f \<longrightarrow> f \<in> set FAILURES) \<or>
    (\<exists>s. await_response print from_slice env s = (r, pg, stream, out))"
    using assms unfolding exchange_def
    by (auto simp: unsent_def FAILURES_def Let_def split: sum.splits if_splits prod.splits)
  then show ?thesis using await_response_out by blast
qed

lemma handle_cases:
  assumes "handle print outbound_of to_vec from_slice spki env input = (stream, out)"
  shows "stream = [] \<and> out = reply_line print (failure_value ''invalid'' False) \<or>
    (\<exists>line reader head r pg o'. head_line input = Some (line, reader) \<and> outbound_of line = Some head
      \<and> exchange print to_vec from_slice spki env head reader = (r, pg, stream, o')
      \<and> (pg_replied pg \<and> out = o' \<or>
         \<not> pg_replied pg \<and> (\<exists>f \<in> set FAILURES. out = reply_line print (failure_value f (pg_sent pg)))))"
proof (cases "head_line input")
  case None
  with assms show ?thesis by (simp add: handle_def Let_def)
next
  case (Some lr)
  obtain line reader where lr: "lr = (line, reader)" by force
  show ?thesis
  proof (cases "outbound_of line")
    case None
    with Some lr assms show ?thesis by (simp add: handle_def Let_def)
  next
    case head: (Some head)
    show ?thesis
    proof (cases "0 < oh_timeout head \<and> oh_timeout head \<le> MAX_TIMEOUT_SECONDS")
      case False
      with Some lr head assms show ?thesis by (auto simp: handle_def Let_def)
    next
      case True
      obtain r pg st o' where x: "exchange print to_vec from_slice spki env head reader = (r, pg, st, o')"
        by (metis prod_cases4)
      with True Some lr head assms have st: "st = stream"
        "out = (case r of XDone \<Rightarrow> o'
           | XFailed failure \<Rightarrow> if pg_replied pg then o' else o' @ reply_line print (failure_value failure (pg_sent pg))
           | XTimedOut \<Rightarrow> if pg_replied pg then o' else o' @ reply_line print (failure_value ''timeout'' (pg_sent pg)))"
        by (auto simp: handle_def Let_def)
      with exchange_out [OF x] have "pg_replied pg \<and> out = o' \<or>
         \<not> pg_replied pg \<and> (\<exists>f \<in> set FAILURES. out = reply_line print (failure_value f (pg_sent pg)))"
        by (cases r) (auto simp: FAILURES_def)
      with x st(1) Some lr head show ?thesis by auto
    qed
  qed
qed

lemma takeWhile_line:
  assumes "prefix s (l @ c # rest)" "c \<notin> set l" "length (takeWhile (\<lambda>d. d \<noteq> c) s) < length s"
  shows "takeWhile (\<lambda>d. d \<noteq> c) s = l"
  using assms
proof (induction l arbitrary: s)
  case Nil
  then show ?case by (cases s) auto
next
  case (Cons d l)
  then show ?case by (cases s) auto
qed

lemma read_reply_unsent:
  assumes "prefix s (reply_line print v @ rest)" "LF \<notin> set (print v)" "parse (print v) = Some v"
    and "read_reply parse s = Inl False"
  shows "json_get v ''failure'' \<noteq> None \<and> json_get v ''sent'' = Some (JBool False)"
proof -
  let ?line = "takeWhile (\<lambda>c. c \<noteq> LF) s"
  have "length ?line < length s" using assms(4) by (auto simp: read_reply_def Let_def split: if_splits)
  with takeWhile_line [of s "print v" LF rest] assms(1,2) have line: "?line = print v"
    by (simp add: reply_line_def)
  show ?thesis
    using assms(3,4) unfolding read_reply_def Let_def line
    by (auto split: if_splits option.splits)
qed

lemma failure_value_gets [simp]:
  "json_get (failure_value f b) ''failure'' = Some (JString f)" "json_get (failure_value f b) ''sent'' = Some (JBool b)"
  "json_get (response_value h) ''failure'' = None"
  by (simp_all add: failure_value_def response_value_def)

text \<open>A socket that was cut before the end of the body carries less than the body its head announces.\<close>

lemma cut_request:
  assumes "LF \<notin> set l" "head_line (take k (butlast (l @ [LF] @ body))) = Some (line, reader)"
  shows "line = l @ [LF] \<and> length reader < length body"
proof -
  let ?w = "take k (butlast (l @ [LF] @ body))"
  have "prefix ?w (l @ [LF] @ body)" by (metis prefix_order.trans prefixeq_butlast take_is_prefix)
  then have w: "prefix ?w (l @ LF # body)" by simp
  have len: "length (takeWhile (\<lambda>c. c \<noteq> LF) ?w) < length ?w"
    using assms(2) by (auto simp: head_line_def Let_def split: if_splits)
  note l = takeWhile_line [OF w assms(1) len]
  have "line = l @ [LF]" "reader = drop (Suc (length l)) ?w"
    using assms(2) unfolding head_line_def Let_def l by (auto split: if_splits)
  moreover have "length ?w \<le> length l + length body" by (simp add: min_def)
  moreover have "length l < length ?w" using len l by simp
  ultimately have "line = l @ [LF]" "length reader = length ?w - Suc (length l)" "length ?w - Suc (length l) < length body"
    by (simp_all only: length_drop)
  then show ?thesis by simp
qed

lemma client_fallback:
  assumes "client_exchange print parse env routes req = (link, routes', w)" "fst (choose_transport link https limit)"
  shows "w = [] \<or> (\<exists>address k. w = take k (butlast (print (client_head address req) @ [LF] @ pr_body req)))
    \<or> read_reply parse (ce_reply env) = Inl False"
  using assms by (auto simp: client_exchange_def choose_transport_def Let_def split: option.splits if_splits sum.splits)

lemma unsent_reply:
  assumes "\<And>f b. f \<in> set FAILURES \<Longrightarrow> parse (print (failure_value f b)) = Some (failure_value f b)"
    and "\<And>h. parse (print (response_value h)) = Some (response_value h)" "\<And>v. LF \<notin> set (print v)"
    and "read_reply parse s = Inl False" "prefix s out"
  shows "out \<noteq> reply_line print (response_value h) @ rest"
    and "f \<in> set FAILURES \<Longrightarrow> out = reply_line print (failure_value f b) \<Longrightarrow> \<not> b"
proof -
  show "out \<noteq> reply_line print (response_value h) @ rest"
    using read_reply_unsent [of s print "response_value h" rest parse] assms by auto
  show "\<not> b" if "f \<in> set FAILURES" "out = reply_line print (failure_value f b)"
    using read_reply_unsent [of s print "failure_value f b" "[]" parse] assms that by auto
qed

lemma response_value_index:
  "as_u64 (json_index (response_value h) ''status'') = Some (ucast (sh_status h))"
  "as_array (json_index (response_value h) ''headers'') =
     Some (map (\<lambda>(n, v). JArray [JString n, JString v]) (sh_headers h))"
  by (simp_all add: response_value_def json_index_def)

lemma headers_of_values_map:
  "headers_of_values (map (\<lambda>(n, v). JArray [JString n, JString v]) hs) = Some hs"
  by (induction hs) auto

lemma status_widened: "ucast (ucast (w :: u16) :: u64) = w" "uint (ucast (w :: u16) :: u64) \<le> 65535"
proof -
  have "uint w < 2 ^ 16" using unsigned_less [of w] by simp
  then have u: "uint (ucast w :: u64) = uint w" by (simp add: unsigned_ucast_eq take_bit_int_eq_self_iff)
  with \<open>uint w < 2 ^ 16\<close> show "uint (ucast w :: u64) \<le> 65535" by simp
  show "ucast (ucast w :: u64) = w"
    by (simp add: word_uint_eq_iff unsigned_ucast_eq take_bit_word_eq_self)
qed

lemma takeWhile_upto: "c \<notin> set l \<Longrightarrow> takeWhile (\<lambda>d. d \<noteq> c) (l @ c # r) = l"
  by (induction l) auto

lemma concat_nonempty: "concat (filter (\<lambda>c. c \<noteq> []) cs) = concat cs"
  by (induction cs) auto

lemma read_parts_body:
  assumes "\<forall>c \<in> set cs. c \<noteq> [] \<and> length c < 2 ^ 32" "received + int (length (concat cs)) \<le> MAX_RESPONSE_BYTES"
  shows "read_parts received (concat (map body_part cs) @ write_u32 0) = Some (concat cs)"
  using assms
proof (induction cs arbitrary: received)
  case Nil
  then show ?case using read_u32_write [of 0 "[]"] by (simp add: read_parts.simps [of received])
next
  case (Cons c cs)
  let ?s = "concat (map body_part cs) @ write_u32 0"
  have "read_u32 (body_part c @ ?s) = Some (length c, c @ ?s)"
    using Cons.prems(1) by (simp add: body_part_def read_u32_write)
  with Cons show ?case by (simp add: read_parts.simps [of received])
qed

section \<open>A codec for which the laws hold\<close>

text \<open>Short names for the listed values, and the number of any other value.\<close>

instance f64 :: countable by countable_datatype
instance json_number :: countable by countable_datatype
instance json :: countable by countable_datatype

definition coded :: "('a::countable \<times> string) list \<Rightarrow> 'a \<Rightarrow> string" where
  "coded table v = (case map_of table v of Some s \<Rightarrow> s | None \<Rightarrow> CHR ''#'' # decimal (to_nat v))"

definition decoded :: "('a::countable \<times> string) list \<Rightarrow> string \<Rightarrow> 'a option" where
  "decoded table s =
     (if s \<noteq> [] \<and> hd s = CHR ''#'' then Some (from_nat (nat (digits_value (tl s))))
      else map_of (map (\<lambda>(v, s). (s, v)) table) s)"

lemma decoded_coded:
  assumes "distinct (map snd table)" "\<forall>s \<in> snd ` set table. s \<noteq> [] \<and> hd s \<noteq> CHR ''#''"
  shows "decoded table (coded table v) = Some v"
proof (cases "map_of table v")
  case None
  then show ?thesis by (simp add: coded_def decoded_def digits_value_decimal)
next
  case (Some s)
  then have "(v, s) \<in> set table" by (rule map_of_SomeD)
  then have "map_of (map (\<lambda>(v, s). (s, v)) table) s = Some v"
    using assms(1) by (intro map_of_is_SomeI) (force simp: comp_def case_prod_beta)+
  moreover have "s \<noteq> [] \<and> hd s \<noteq> CHR ''#''" using assms(2) \<open>(v, s) \<in> set table\<close> by force
  ultimately show ?thesis using Some by (simp add: coded_def decoded_def)
qed

lemma coded_line:
  assumes "\<forall>s \<in> snd ` set table. LF \<notin> set s"
  shows "LF \<notin> set (coded table v)"
proof (cases "map_of table v")
  case None
  have "LF \<notin> set (decimal (to_nat v))" using formatted_one_line(1) [of "to_nat v"] unfolding one_line_def by blast
  with None show ?thesis by (simp add: coded_def)
next
  case (Some s)
  then have "s \<in> snd ` set table" using map_of_SomeD by force
  with assms have "LF \<notin> set s" by blast
  with Some show ?thesis by (simp add: coded_def)
qed

definition sample_request :: peer_request where
  "sample_request = \<lparr>pr_server = ''s'', pr_public_key = ''k'', pr_method = ''POST'', pr_path = ''/api/servers'',
     pr_headers = [], pr_body = ''hi'', pr_timeout = Finite (10 * 2 ^ 1074)\<rparr>"

definition sample_outbound :: outbound_head where
  "sample_outbound = \<lparr>oh_address = (IpV4 100 64 0 1, 4621), oh_public_key = ''k'', oh_method = ''POST'',
     oh_path = ''/api/servers'', oh_headers = [], oh_body_length = 2, oh_timeout = 0x4024000000000000\<rparr>"

definition sample_table :: "(json \<times> string) list" where
  "sample_table = [(client_head ''100.64.0.1:4621'' sample_request, ''H''),
     (failure_value ''invalid'' False, ''F''),
     (response_value \<lparr>sh_status = 201, sh_headers = [(''content-length'', ''4'')]\<rparr>, ''R'')]"

lemma sample_table_ok: "distinct (map snd sample_table)" "\<forall>s \<in> snd ` set sample_table. s \<noteq> [] \<and> hd s \<noteq> CHR ''#''"
  "\<forall>s \<in> snd ` set sample_table. LF \<notin> set s"
  by (simp_all add: sample_table_def)

definition head_tuple :: "request_head \<Rightarrow> string \<times> string \<times> (string \<times> string) list \<times> u64" where
  "head_tuple h = (rh_method h, rh_path h, rh_headers h, rh_body_length h)"

definition tuple_head :: "string \<times> string \<times> (string \<times> string) list \<times> u64 \<Rightarrow> request_head" where
  "tuple_head t = (case t of (m, p, hs, l) \<Rightarrow> \<lparr>rh_method = m, rh_path = p, rh_headers = hs, rh_body_length = l\<rparr>)"

lemma tuple_head_tuple [simp]: "tuple_head (head_tuple h) = h"
  by (simp add: head_tuple_def tuple_head_def)

definition sample_to_vec :: "request_head \<Rightarrow> string option" where
  "sample_to_vec h = Some (coded [(head_tuple (request_of sample_outbound), ''Q'')] (head_tuple h))"

definition sample_from_slice :: "string \<Rightarrow> request_head option" where
  "sample_from_slice s = map_option tuple_head (decoded [(head_tuple (request_of sample_outbound), ''Q'')] s)"

lemma sample_codec: "sample_to_vec v = Some data \<Longrightarrow> sample_from_slice data = Some v"
  unfolding sample_to_vec_def sample_from_slice_def by (clarsimp simp only: option.inject) (simp add: decoded_coded)

definition sample_outbound_of :: "string \<Rightarrow> outbound_head option" where
  "sample_outbound_of s = (if s = ''H'' @ [LF] then Some sample_outbound else None)"

definition sample_client_env :: client_env where
  "sample_client_env = \<lparr>ce_now = 0, ce_connect = True, ce_timeouts = True, ce_written = None,
     ce_reply = ''F'' @ [LF], ce_later = 0\<rparr>"

text \<open>The stream is cut after the first byte of the body.\<close>

definition sample_exchange_env :: exchange_env where
  "sample_exchange_env = \<lparr>ex_connect = IoOk, ex_open = IoOk, ex_write = (IoOk, 0), ex_copy = (IoFailed, 1),
     ex_finish = True, ex_recv = [], ex_chunks = (\<lambda>s. [s]), ex_end = EndFinished, ex_refused = False\<rparr>"

definition sample_routes :: routes where
  "sample_routes = [(''s'', \<lparr>ll_address = ''100.64.0.1:4621'', ll_unavailable_until = None\<rparr>)]"

lemma sample_prints:
  "coded sample_table (client_head ''100.64.0.1:4621'' sample_request) = ''H''"
  "coded sample_table (failure_value ''invalid'' False) = ''F''"
  by (simp_all add: coded_def sample_table_def client_head_def failure_value_def response_value_def)

lemma sample_client:
  "client_exchange (coded sample_table) (decoded sample_table) sample_client_env sample_routes sample_request =
     (Inl False, [(''s'', \<lparr>ll_address = ''100.64.0.1:4621'', ll_unavailable_until = Some 60\<rparr>)], ''H'' @ [LF] @ ''hi'')"
proof -
  have "decoded sample_table ''F'' = Some (failure_value ''invalid'' False)"
    using decoded_coded [OF sample_table_ok(1,2), of "failure_value ''invalid'' False"] sample_prints by simp
  then have "read_reply (decoded sample_table) (''F'' @ [LF]) = Inl False"
    by (simp add: read_reply_def Let_def MAX_REPLY_LINE_def)
  then show ?thesis
    by (simp add: client_exchange_def mark_unavailable_def sample_routes_def sample_client_env_def Let_def
        sample_prints DOWN_SECONDS_def)
       (simp add: sample_request_def)
qed

section \<open>Properties\<close>

text \<open>C27: the HTTPS request is made only when the paired server cannot have completed the request of the
  link. Whatever the socket, the link process and the network do, if the link's outcome selects HTTPS then
  no part of the link's stream lets the paired server forward a complete request to its backend. A server
  that refused the client's key is included: there the whole request may be on the stream, and the claim
  rests on the QUIC library, which gives a server that closed the handshake no bytes of a stream.\<close>

theorem https_only_when_not_run:
  assumes law: "\<And>f b. f \<in> set FAILURES \<Longrightarrow> parse (print (failure_value f b)) = Some (failure_value f b)"
      "\<And>h. parse (print (response_value h)) = Some (response_value h)" "\<And>v. LF \<notin> set (print v)"
    and codec: "\<And>v data. to_vec v = Some data \<Longrightarrow> from_slice data = Some v"
    and head: "\<And>address h. outbound_of (print (client_head address req) @ [LF]) = Some h \<Longrightarrow>
      unat (oh_body_length h) = length (pr_body req)"
    and client: "client_exchange print parse env routes req = (link, routes', w)"
    and chosen: "fst (choose_transport link https limit)"
    and process: "handle print outbound_of to_vec response_of spki xenv w = (stream, out)"
    and socket: "prefix (ce_reply env) out"
    and network: "prefix p stream" and refused: "ex_refused xenv \<Longrightarrow> p = []"
    and server: "forward_request from_slice inb peer connection fenv p = (r, backend)"
  shows "\<exists>e. r = Inl e"
proof -
  have unread: "p = [] \<longrightarrow> (\<exists>e. r = Inl e)"
    using server by (auto simp: forward_request_def read_head_def read_u32_def)
  with network have empty: "\<exists>e. r = Inl e" if "stream = []" using that by simp
  have part: "\<exists>e. r = Inl e" if "part_request to_vec h stream" for h
    by (rule part_request_not_forwarded [OF that network codec server])
  show ?thesis
  proof (cases "stream = [] \<or> ex_refused xenv")
    case False
    then have "\<not> ex_refused xenv" by blast
    from False handle_cases [OF process] obtain line reader h x pg o' where
      line: "head_line w = Some (line, reader)" "outbound_of line = Some h"
      and x: "exchange print to_vec response_of spki xenv h reader = (x, pg, stream, o')"
      and out: "pg_replied pg \<and> out = o' \<or>
        \<not> pg_replied pg \<and> (\<exists>f \<in> set FAILURES. out = reply_line print (failure_value f (pg_sent pg)))"
      by blast
    from client_fallback [OF client chosen] show ?thesis
    proof (elim disjE exE conjE)
      assume "w = []"
      with line(1) show ?thesis by (simp add: head_line_def)
    next
      fix address k
      assume "w = take k (butlast (print (client_head address req) @ [LF] @ pr_body req))"
      with cut_request [OF law(3)] line(1) have "line = print (client_head address req) @ [LF]"
        "length reader < length (pr_body req)" by blast+
      with head line(2) have "\<not> whole_request to_vec h reader stream" by (auto simp: whole_request_def)
      with exchange_stream [OF x] empty part show ?thesis by blast
    next
      assume reply: "read_reply parse (ce_reply env) = Inl False"
      have "\<not> pg_sent pg \<and> x \<noteq> XFailed ''refused''"
        using out exchange_out [OF x] \<open>\<not> ex_refused xenv\<close> unsent_reply [OF law reply socket] by blast
      with exchange_stream [OF x] empty part show ?thesis by blast
    qed
  next
    case True
    with network refused have "p = []" by auto
    with unread show ?thesis by blast
  qed
qed

theorem https_only_when_not_run_witness:
  "\<exists>stream e. stream \<noteq> [] \<and>
     fst (handle (coded sample_table) sample_outbound_of sample_to_vec (\<lambda>_. None) Some sample_exchange_env
            (''H'' @ [LF] @ ''hi'')) = stream \<and>
     fst (forward_request sample_from_slice sample_inbound (IpV4 100 64 0 2) ''0a''
            \<lparr>fw_connect = True, fw_write = None, fw_copy = None, fw_reply = [], fw_send = None, fw_finish = True\<rparr>
            stream) = Inl e"
proof -
  let ?stream = "write_u32 1 @ ''Qh''"
  let ?fenv = "\<lparr>fw_connect = True, fw_write = None, fw_copy = None, fw_reply = [], fw_send = None, fw_finish = True\<rparr>"
  have frame: "write_head sample_to_vec (request_of sample_outbound) = Inr (write_u32 1 @ ''Q'')"
    by (simp add: write_head_def sample_to_vec_def coded_def MAX_HEAD_def)
  have "validate (request_of sample_outbound) = Inr ()" by code_simp
  then have "exchange (coded sample_table) sample_to_vec (\<lambda>_. None) Some sample_exchange_env sample_outbound ''hi'' =
      (XFailed ''invalid'', unsent, ?stream, [])"
    using frame by (simp add: exchange_def sample_exchange_env_def Let_def request_of_def sample_outbound_def)
  then have link: "handle (coded sample_table) sample_outbound_of sample_to_vec (\<lambda>_. None) Some sample_exchange_env
      (''H'' @ [LF] @ ''hi'') = (?stream, ''F'' @ [LF])"
    by (simp add: handle_def head_line_def sample_outbound_of_def MAX_HEAD_def Let_def MAX_TIMEOUT_SECONDS_def
        reply_line_def sample_prints unsent_def sample_outbound_def)
  obtain r backend where server: "forward_request sample_from_slice sample_inbound (IpV4 100 64 0 2) ''0a'' ?fenv ?stream = (r, backend)"
    by force
  have "\<exists>e. r = Inl e"
  proof (rule https_only_when_not_run [OF _ _ _ sample_codec _ sample_client _ link _ _ _ server, where https = "Inl OtherRemote" and limit = 0])
    show "fst (choose_transport (Inl False) (Inl OtherRemote) 0)" by (simp add: choose_transport_def)
    show "prefix (ce_reply sample_client_env) (''F'' @ [LF])" "prefix ?stream ?stream"
      by (simp_all add: sample_client_env_def)
    show "?stream = []" if "ex_refused sample_exchange_env" using that by (simp add: sample_exchange_env_def)
    show "unat (oh_body_length h) = length (pr_body sample_request)"
      if "sample_outbound_of (coded sample_table (client_head address sample_request) @ [LF]) = Some h" for address h
      using that by (auto simp: sample_outbound_of_def sample_outbound_def sample_request_def split: if_splits)
  qed (simp_all add: decoded_coded sample_table_ok coded_line)
  with link server show ?thesis by (auto simp: fst_conv)
qed

text \<open>C28: a response that the paired server's link returned completely reaches the caller as it is, when its
  body has at most 1 MiB and its head takes at most one line of 64 KiB: whatever parts it arrives in, the
  caller gets its status, its headers and the bytes of its body, and a body of the announced length when a
  length was announced.\<close>

theorem response_reaches_caller:
  assumes server: "return_response to_vec fenv = (Inr (), sent)"
    and parsed: "read_response_head (fw_reply fenv) = Inr (head, rest, rs)" "read_to_end rs = (body, True)"
    and codec: "\<And>v data. to_vec v = Some data \<Longrightarrow> from_slice data = Some v"
    and law: "parse (print (response_value head)) = Some (response_value head)" "LF \<notin> set (print (response_value head))"
    and network: "ex_finish xenv" "ex_recv xenv = sent" "ex_end xenv = EndFinished"
      "concat (ex_chunks xenv (rest @ body)) = rest @ body"
      "\<And>c. c \<in> set (ex_chunks xenv (rest @ body)) \<Longrightarrow> length c < 2 ^ 32"
    and size: "int (length (rest @ body)) \<le> MAX_RESPONSE_BYTES"
      "int (length (print (response_value head))) + 1 \<le> MAX_REPLY_LINE"
  shows "\<exists>out. await_response print from_slice xenv stream = (XDone, \<lparr>pg_sent = True, pg_replied = True\<rparr>, stream, out)
    \<and> read_reply parse out = Inr \<lparr>hr_status = sh_status head, hr_headers = sh_headers head, hr_body = rest @ body\<rparr>
    \<and> (\<forall>l. content_length (sh_headers head) = Some l \<longrightarrow> l = int (length (rest @ body)))"
proof -
  from server parsed obtain frame where frame: "write_head to_vec head = Inr frame" "sent = frame @ rest @ body"
    and len: "\<forall>l. content_length (sh_headers head) = Some l \<longrightarrow> l = int (length (rest @ body))"
    by (auto simp: return_response_def Let_def split: sum.splits option.splits if_splits)
  let ?cs = "filter (\<lambda>c. c \<noteq> []) (ex_chunks xenv (rest @ body))"
  let ?out = "reply_line print (response_value head) @ concat (map body_part ?cs) @ write_u32 0"
  have cs: "concat ?cs = rest @ body" using network(4) by (simp add: concat_nonempty)
  have "read_head from_slice sent = Inr (head, rest @ body)"
    unfolding frame(2) by (rule read_write_head [OF frame(1) codec])
  then have await: "await_response print from_slice xenv stream = (XDone, \<lparr>pg_sent = True, pg_replied = True\<rparr>, stream, ?out)"
    using network by (simp add: await_response_def return_body_def Let_def)
  have parts: "read_parts 0 (concat (map body_part ?cs) @ write_u32 0) = Some (rest @ body)"
    using read_parts_body [of ?cs 0] network(5) size(1) cs by auto
  have line: "takeWhile (\<lambda>c. c \<noteq> LF) ?out = print (response_value head)"
    using takeWhile_upto [OF law(2)] by (simp add: reply_line_def)
  have rest': "drop (Suc (length (print (response_value head)))) ?out = concat (map body_part ?cs) @ write_u32 0"
    and len': "length (print (response_value head)) < length ?out" by (simp_all add: reply_line_def)
  have "read_reply parse ?out = Inr \<lparr>hr_status = sh_status head, hr_headers = sh_headers head, hr_body = rest @ body\<rparr>"
    using law(1) size(2) parts len' unfolding read_reply_def Let_def line rest'
    by (simp add: response_value_index headers_of_values_map status_widened not_less)
  with await len show ?thesis by blast
qed

definition sample_response :: response_head where
  "sample_response = \<lparr>sh_status = 201, sh_headers = [(''content-length'', ''4'')]\<rparr>"

definition sample_forward_env :: forward_env where
  "sample_forward_env = \<lparr>fw_connect = True, fw_write = None, fw_copy = None, fw_reply = sample_reply,
     fw_send = None, fw_finish = True\<rparr>"

theorem response_reaches_caller_witness:
  "\<exists>out. await_response (coded sample_table) (\<lambda>s. if s = ''P'' then Some sample_response else None)
      (sample_exchange_env\<lparr>ex_recv := write_u32 1 @ ''Pabcd''\<rparr>) [] = (XDone, \<lparr>pg_sent = True, pg_replied = True\<rparr>, [], out)
    \<and> read_reply (decoded sample_table) out =
        Inr \<lparr>hr_status = 201, hr_headers = [(''content-length'', ''4'')], hr_body = ''abcd''\<rparr>"
proof -
  let ?to_vec = "\<lambda>h. if h = sample_response then Some ''P'' else None"
  let ?from = "\<lambda>s. if s = ''P'' then Some sample_response else None"
  let ?xenv = "sample_exchange_env\<lparr>ex_recv := write_u32 1 @ ''Pabcd''\<rparr>"
  have parsed: "read_response_head (fw_reply sample_forward_env) = Inr (sample_response, ''ab'', [Some ''cd''])" by code_simp
  have rest: "read_to_end [Some ''cd''] = (''cd'', True)" by simp
  have "content_length (sh_headers sample_response) = Some 4" by code_simp
  then have server: "return_response ?to_vec sample_forward_env = (Inr (), write_u32 1 @ ''Pabcd'')"
    using parsed rest by (simp add: return_response_def write_head_def MAX_HEAD_def Let_def sample_forward_env_def)
  have law: "decoded sample_table (coded sample_table (response_value sample_response)) = Some (response_value sample_response)"
    "LF \<notin> set (coded sample_table (response_value sample_response))"
    by (rule decoded_coded [OF sample_table_ok(1,2)], rule coded_line [OF sample_table_ok(3)])
  have r: "coded sample_table (response_value sample_response) = ''R''"
    by (simp add: coded_def sample_table_def sample_response_def client_head_def failure_value_def response_value_def)
  have "\<exists>out. await_response (coded sample_table) ?from ?xenv [] = (XDone, \<lparr>pg_sent = True, pg_replied = True\<rparr>, [], out)
    \<and> read_reply (decoded sample_table) out =
        Inr \<lparr>hr_status = sh_status sample_response, hr_headers = sh_headers sample_response, hr_body = ''ab'' @ ''cd''\<rparr>
    \<and> (\<forall>l. content_length (sh_headers sample_response) = Some l \<longrightarrow> l = int (length (''ab'' @ ''cd'')))"
  proof (rule response_reaches_caller [where print = "coded sample_table" and parse = "decoded sample_table",
        OF server parsed rest _ law])
    show "?from data = Some v" if "?to_vec v = Some data" for v data using that by (auto split: if_splits)
    show "length c < 2 ^ 32" if "c \<in> set (ex_chunks ?xenv (''ab'' @ ''cd''))" for c
      using that by (simp add: sample_exchange_env_def)
  qed (simp_all add: sample_exchange_env_def r MAX_RESPONSE_BYTES_def MAX_REPLY_LINE_def)
  then show ?thesis by (auto simp: sample_response_def)
qed

end
