(* ===== verification/Peer_Links.thy ===== *)
theory Peer_Links
  imports Ordered_Store
begin

text \<open>
  The paired keys and open connections of the link process, \<open>struct Links\<close> of
  \<open>runtime/apps/peer-link/src/main.rs\<close> with the certificate checks of \<open>tls.rs\<close>. A connection is
  an identity and the key its peer presented; that a connection is closed is shared state. Keys
  are compared as bytes; reading a PEM key is a parameter.
\<close>

section \<open>State\<close>

record conn =
  cn_id :: nat
  cn_key :: "string option"

record links =
  lk_keys :: "string list"
  lk_names :: "(string, string) omap"
  lk_inbound :: "conn list"
  lk_outbound :: "(string \<times> string, conn) omap"
  lk_closed :: "nat list"
  lk_lines :: "string list"

definition is_open :: "links \<Rightarrow> conn \<Rightarrow> bool" where
  "is_open l c = (cn_id c \<notin> set (lk_closed l))"

fun paired_keys :: "(string \<Rightarrow> string option) \<Rightarrow> string list \<Rightarrow> string list option" where
  "paired_keys spki [] = Some []"
| "paired_keys spki (p # ps) =
     (case spki p of None \<Rightarrow> None | Some k \<Rightarrow> map_option (Cons k) (paired_keys spki ps))"

text \<open>Later peers replace earlier ones with the same key.\<close>

fun add_names :: "(string \<Rightarrow> string option) \<Rightarrow> (string, string) omap \<Rightarrow> string list \<Rightarrow> (string, string) omap option"
where
  "add_names spki m [] = Some m"
| "add_names spki m (p # ps) =
     (case spki p of None \<Rightarrow> None | Some k \<Rightarrow> add_names spki (om_insert k p m) ps)"

definition peer_names :: "(string \<Rightarrow> string option) \<Rightarrow> string list \<Rightarrow> (string, string) omap option" where
  "peer_names spki peers = add_names spki [] peers"

section \<open>Certificate checks\<close>

definition verify_client_cert :: "links \<Rightarrow> string \<Rightarrow> string list \<Rightarrow> bool" where
  "verify_client_cert l cert intermediates = (intermediates = [] \<and> cert \<in> set (lk_keys l))"

definition verify_server_cert :: "string \<Rightarrow> string \<Rightarrow> string list \<Rightarrow> bool" where
  "verify_server_cert pinned cert intermediates = (intermediates = [] \<and> cert = pinned)"

section \<open>Operations\<close>

definition announce :: "links \<Rightarrow> conn \<Rightarrow> links" where
  "announce l c =
     (case cn_key c of
        None \<Rightarrow> l
      | Some k \<Rightarrow>
          (case om_get (lk_names l) k of
             None \<Rightarrow> l
           | Some name \<Rightarrow> l\<lparr>lk_lines := lk_lines l @ [name]\<rparr>))"

definition track_inbound :: "links \<Rightarrow> conn \<Rightarrow> links" where
  "track_inbound l c = announce (l\<lparr>lk_inbound := filter (is_open l) (lk_inbound l) @ [c]\<rparr>) c"

text \<open>An incoming handshake: the presented key is checked, then the connection is tracked.\<close>

definition accept :: "links \<Rightarrow> conn \<Rightarrow> string list \<Rightarrow> links" where
  "accept l c intermediates =
     (case cn_key c of
        None \<Rightarrow> l
      | Some k \<Rightarrow> if verify_client_cert l k intermediates then track_inbound l c else l)"

datatype connect_error = NotPaired | DialFailed

text \<open>The part of \<open>connect\<close> under the lock of the outbound connections. The dialled connection is
  the one the network gives, with the key its peer presented.\<close>

definition connect_slot ::
  "links \<Rightarrow> string \<Rightarrow> string \<Rightarrow> (conn \<times> string list) option \<Rightarrow> (connect_error + conn) \<times> links" where
  "connect_slot l address key dial =
     (let dialled =
        (case dial of
           None \<Rightarrow> (Inl DialFailed, l)
         | Some (c, intermediates) \<Rightarrow>
             (case cn_key c of
                None \<Rightarrow> (Inl DialFailed, l)
              | Some cert \<Rightarrow>
                  if \<not> verify_server_cert key cert intermediates then (Inl DialFailed, l)
                  else (Inr c, announce (l\<lparr>lk_outbound := om_insert (address, key) c (lk_outbound l)\<rparr>) c))) in
      case om_get (lk_outbound l) (address, key) of
        Some c \<Rightarrow> if is_open l c then (Inr c, l) else dialled
      | None \<Rightarrow> dialled)"

definition connect ::
  "links \<Rightarrow> string \<Rightarrow> string \<Rightarrow> (conn \<times> string list) option \<Rightarrow> (connect_error + conn) \<times> links" where
  "connect l address key dial =
     (if key \<notin> set (lk_keys l) then (Inl NotPaired, l) else connect_slot l address key dial)"

text \<open>The steps of \<open>replace_keys\<close>, each under its own lock.\<close>

definition revoked :: "string list \<Rightarrow> conn \<Rightarrow> bool" where
  "revoked keys c = (case cn_key c of None \<Rightarrow> True | Some k \<Rightarrow> k \<notin> set keys)"

definition close_inbound :: "string list \<Rightarrow> links \<Rightarrow> links" where
  "close_inbound keys l = l\<lparr>lk_closed := lk_closed l @ map cn_id (filter (revoked keys) (lk_inbound l))\<rparr>"

definition retain_outbound :: "string list \<Rightarrow> links \<Rightarrow> links" where
  "retain_outbound keys l =
     l\<lparr>lk_closed := lk_closed l @ map (\<lambda>e. cn_id (snd e)) (filter (\<lambda>e. snd (fst e) \<notin> set keys) (lk_outbound l)),
       lk_outbound := filter (\<lambda>e. snd (fst e) \<in> set keys) (lk_outbound l)\<rparr>"

definition store_names :: "(string, string) omap \<Rightarrow> links \<Rightarrow> links" where
  "store_names names l = l\<lparr>lk_names := names\<rparr>"

definition store_keys :: "string list \<Rightarrow> links \<Rightarrow> links" where
  "store_keys keys l = l\<lparr>lk_keys := keys\<rparr>"

definition replace_keys :: "links \<Rightarrow> string list \<Rightarrow> (string, string) omap \<Rightarrow> links" where
  "replace_keys l keys names = store_keys keys (store_names names (retain_outbound keys (close_inbound keys l)))"

definition new_links :: "string list \<Rightarrow> (string, string) omap \<Rightarrow> links" where
  "new_links keys names = \<lparr>lk_keys = keys, lk_names = names, lk_inbound = [], lk_outbound = [], lk_closed = [],
     lk_lines = []\<rparr>"

section \<open>One operation after the other\<close>

text \<open>\<open>LoClose\<close> is a close by the peer, the network or the idle timeout.\<close>

datatype link_op =
    LoAccept conn "string list"
  | LoConnect string string "(conn \<times> string list) option"
  | LoReplace "string list" "(string, string) omap"
  | LoClose nat

fun link_step :: "links \<Rightarrow> link_op \<Rightarrow> links" where
  "link_step l (LoAccept c intermediates) = accept l c intermediates"
| "link_step l (LoConnect address key dial) = snd (connect l address key dial)"
| "link_step l (LoReplace keys names) = replace_keys l keys names"
| "link_step l (LoClose i) = l\<lparr>lk_closed := lk_closed l @ [i]\<rparr>"

abbreviation link_run :: "links \<Rightarrow> link_op list \<Rightarrow> links" where
  "link_run l ops \<equiv> foldl link_step l ops"

definition links_ok :: "links \<Rightarrow> bool" where
  "links_ok l \<longleftrightarrow>
     (\<forall>c \<in> set (lk_inbound l). is_open l c \<longrightarrow> (\<exists>k \<in> set (lk_keys l). cn_key c = Some k)) \<and>
     (\<forall>e \<in> set (lk_outbound l). is_open l (snd e) \<longrightarrow> cn_key (snd e) = Some (snd (fst e)) \<and> snd (fst e) \<in> set (lk_keys l))"

lemma announce_frame [simp]:
  "lk_keys (announce l c) = lk_keys l" "lk_names (announce l c) = lk_names l"
  "lk_inbound (announce l c) = lk_inbound l" "lk_outbound (announce l c) = lk_outbound l"
  "lk_closed (announce l c) = lk_closed l"
  by (simp_all add: announce_def split: option.splits)

lemma is_open_announce [simp]: "is_open (announce l c) = is_open l"
  by (simp add: is_open_def fun_eq_iff)

lemma accept_ok: "links_ok l \<Longrightarrow> links_ok (accept l c intermediates)"
  by (auto simp: accept_def track_inbound_def links_ok_def verify_client_cert_def is_open_def split: option.splits)

lemma connect_ok:
  assumes "links_ok l"
  shows "links_ok (snd (connect l address key dial))"
proof -
  have "links_ok (announce (l\<lparr>lk_outbound := om_insert (address, key) c (lk_outbound l)\<rparr>) c)"
    if "key \<in> set (lk_keys l)" "cn_key c = Some key" for c
    using assms that by (auto simp: links_ok_def is_open_def dest!: om_insert_member)
  then show ?thesis
    using assms by (auto simp: connect_def connect_slot_def Let_def verify_server_cert_def split: option.splits)
qed

lemma replace_keys_ok: "links_ok l \<Longrightarrow> links_ok (replace_keys l keys names)"
  by (auto simp: replace_keys_def store_keys_def store_names_def retain_outbound_def close_inbound_def
      links_ok_def is_open_def revoked_def split: option.splits)

lemma link_step_ok: "links_ok l \<Longrightarrow> links_ok (link_step l op)"
  by (cases op) (auto simp: accept_ok connect_ok replace_keys_ok, auto simp: links_ok_def is_open_def)

interpretation link: guarded_machine link_step links_ok
  by unfold_locales (rule link_step_ok)

lemma new_links_ok: "links_ok (new_links keys names)"
  by (simp add: links_ok_def new_links_def)

section \<open>Properties\<close>

text \<open>C31: when the operations of the link run one after the other, every connection that the link still
  keeps open, in either direction, was made with a key that is paired now; a key that leaves the set
  takes its connections with it.\<close>

theorem open_connections_are_paired:
  assumes "c \<in> set (lk_inbound (link_run (new_links keys names) ops))
      \<union> snd ` set (lk_outbound (link_run (new_links keys names) ops))"
    and "is_open (link_run (new_links keys names) ops) c"
  shows "\<exists>k \<in> set (lk_keys (link_run (new_links keys names) ops)). cn_key c = Some k"
  using link.run_inv [OF new_links_ok, of keys names ops] assms unfolding links_ok_def by fastforce

definition sample_link_ops :: "link_op list" where
  "sample_link_ops = [LoAccept \<lparr>cn_id = 1, cn_key = Some ''a''\<rparr> [], LoAccept \<lparr>cn_id = 2, cn_key = Some ''b''\<rparr> [],
     LoReplace [''b''] [(''b'', ''B'')]]"

theorem open_connections_are_paired_witness:
  "\<exists>k \<in> set (lk_keys (link_run (new_links [''a'', ''b''] []) sample_link_ops)).
     cn_key \<lparr>cn_id = 2, cn_key = Some ''b''\<rparr> = Some k"
proof (rule open_connections_are_paired)
  show "\<lparr>cn_id = 2, cn_key = Some ''b''\<rparr> \<in> set (lk_inbound (link_run (new_links [''a'', ''b''] []) sample_link_ops))
      \<union> snd ` set (lk_outbound (link_run (new_links [''a'', ''b''] []) sample_link_ops))"
    by code_simp
  show "is_open (link_run (new_links [''a'', ''b''] []) sample_link_ops) \<lparr>cn_id = 2, cn_key = Some ''b''\<rparr>" by code_simp
qed

text \<open>C32: replacing the keys is not one step. A server whose key is being removed and that connects after the
  incoming connections were checked and before the new keys are stored is accepted, and stays connected
  when the replacement is done; an outgoing connection can be made in the same way with a removed key.\<close>

theorem removed_key_stays_connected:
  assumes "cn_key c = Some k" "k \<in> set (lk_keys l)" "k \<notin> set keys"
    and "cn_id c \<notin> set (lk_closed l) \<union> cn_id ` set (lk_inbound l) \<union> (\<lambda>e. cn_id (snd e)) ` set (lk_outbound l)"
  shows "(let l' = store_keys keys (store_names names (retain_outbound keys (accept (close_inbound keys l) c []))) in
      c \<in> set (lk_inbound l') \<and> is_open l' c \<and> k \<notin> set (lk_keys l')) \<and>
    (let l' = snd (connect_slot (replace_keys l keys names) address k (Some (c, []))) in
      ((address, k), c) \<in> set (lk_outbound l') \<and> is_open l' c \<and> k \<notin> set (lk_keys l'))"
proof (rule conjI)
  show "let l' = store_keys keys (store_names names (retain_outbound keys (accept (close_inbound keys l) c []))) in
      c \<in> set (lk_inbound l') \<and> is_open l' c \<and> k \<notin> set (lk_keys l')"
    using assms by (auto simp: Let_def store_keys_def store_names_def retain_outbound_def accept_def track_inbound_def
        close_inbound_def verify_client_cert_def is_open_def)
next
  let ?l = "replace_keys l keys names"
  have "om_get (lk_outbound ?l) (address, k) = None"
    using assms(3) by (auto simp: replace_keys_def store_keys_def store_names_def retain_outbound_def close_inbound_def map_of_eq_None_iff)
  then have l': "snd (connect_slot ?l address k (Some (c, []))) =
      announce (?l\<lparr>lk_outbound := om_insert (address, k) c (lk_outbound ?l)\<rparr>) c"
    using assms(1) by (simp add: connect_slot_def Let_def verify_server_cert_def)
  have "((address, k), c) \<in> set (om_insert (address, k) c (lk_outbound ?l))"
    by (rule map_of_SomeD) simp
  moreover have "is_open (?l\<lparr>lk_outbound := m\<rparr>) c" "k \<notin> set (lk_keys ?l)" for m
    using assms(3,4) by (auto simp: is_open_def replace_keys_def store_keys_def store_names_def retain_outbound_def close_inbound_def)
  ultimately show "let l' = snd (connect_slot ?l address k (Some (c, []))) in
      ((address, k), c) \<in> set (lk_outbound l') \<and> is_open l' c \<and> k \<notin> set (lk_keys l')"
    unfolding l' by simp
qed

theorem removed_key_stays_connected_witness:
  "(let l' = store_keys [] (store_names [] (retain_outbound [] (accept (close_inbound [] (new_links [''a''] []))
        \<lparr>cn_id = 1, cn_key = Some ''a''\<rparr> []))) in
    \<lparr>cn_id = 1, cn_key = Some ''a''\<rparr> \<in> set (lk_inbound l') \<and> is_open l' \<lparr>cn_id = 1, cn_key = Some ''a''\<rparr>
    \<and> ''a'' \<notin> set (lk_keys l'))"
  using removed_key_stays_connected [of "\<lparr>cn_id = 1, cn_key = Some ''a''\<rparr>" "''a''" "new_links [''a''] []" "[]" "[]"]
  by (simp add: new_links_def)

end
