(* ===== verification/Rule_Record.thy ===== *)
theory Rule_Record
  imports Json_Value Rust_Text
begin

text \<open>
  Stored rules: \<open>runtime-schema/src/rule_record.rs\<close>, with the bounded integers and texts of
  \<open>bounded_integer.rs\<close> and \<open>bounded_text.rs\<close>. A bounded value is the value itself; the bounds that
  the Rust types carry are \<open>rule_typed\<close>. Integers of both signs are \<^typ>\<open>int\<close>: within the bounds no
  conversion the sources make between \<open>i64\<close> and \<open>u64\<close> changes a value.
\<close>

section \<open>Bounded values\<close>

definition bounded_integer :: "int \<Rightarrow> int \<Rightarrow> int \<Rightarrow> int option" where
  "bounded_integer lo hi n = (if lo \<le> n \<and> n \<le> hi then Some n else None)"

definition bounded_text :: "nat \<Rightarrow> nat \<Rightarrow> string \<Rightarrow> string option" where
  "bounded_text lo hi s = (if lo \<le> chars_count s \<and> chars_count s \<le> hi then Some s else None)"

text \<open>\<open>9007199254740991\<close>, the largest counter; a year in seconds and in minutes; the text limits.\<close>

definition MAX_COUNTER :: int where "MAX_COUNTER = 9007199254740991"
definition YEAR_SECONDS :: int where "YEAR_SECONDS = 31536000"
definition YEAR_MINUTES :: int where "YEAR_MINUTES = 525600"
definition RULE_TEXT :: nat where "RULE_TEXT = 12000"
definition RULE_NAME :: nat where "RULE_NAME = 120"

lemma bounded_integer_Some [simp]:
  "bounded_integer lo hi n = Some m \<longleftrightarrow> m = n \<and> lo \<le> n \<and> n \<le> hi"
  by (auto simp: bounded_integer_def)

lemma bounded_text_Some [simp]:
  "bounded_text lo hi s = Some t \<longleftrightarrow> t = s \<and> lo \<le> chars_count s \<and> chars_count s \<le> hi"
  by (auto simp: bounded_text_def)

section \<open>Records\<close>

datatype rule_kind =
    Interval
  | Once
  | File string
  | Event
  | LowWorkers int int

datatype rule_status = Active | Paused | Completed

datatype owner_hold = FailedInputHeld | NativeFailureHold | Archived

record launch_intent =
  li_account_key :: "string option"
  li_agent_id :: string
  li_check_number :: int
  li_command :: string
  li_epoch :: int
  li_liveness :: bool
  li_monitor_id :: string
  li_rule_id :: string
  li_thread_id :: "string option"
  li_timeout_ms :: int

record restart_check =
  rc_epoch :: int
  rc_checks :: int
  rc_monitor_id :: string

type_synonym fingerprint = "int \<times> int \<times> int"

record rule_record =
  rr_active_workers :: "int option"
  rr_agent :: string
  rr_alerted :: "bool option"
  rr_at :: "json_number option"
  rr_checks :: int
  rr_command :: string
  rr_created :: json_number
  rr_epoch :: int
  rr_error :: "string option"
  rr_event :: string
  rr_event_text :: "string option"
  rr_file_activity_at :: "json_number option"
  rr_file_generation :: int
  rr_fingerprint :: "fingerprint option"
  rr_id :: string
  rr_in_flight :: bool
  rr_interval_seconds :: int
  rr_kind :: rule_kind
  rr_last_at :: "json_number option"
  rr_last_event :: "string option"
  rr_last_exit_code :: "int option"
  rr_last_finished :: "json_number option"
  rr_last_output :: "string option"
  rr_last_stall_error :: "string option"
  rr_last_stall_exit_code :: "int option"
  rr_last_stall_finished :: "json_number option"
  rr_launch_intent :: "launch_intent option"
  rr_liveness_command :: string
  rr_low_since :: "json_number option"
  rr_name :: string
  rr_next_at :: json_number
  rr_owner_hold :: "owner_hold option"
  rr_restart_check :: "restart_check option"
  rr_root_id :: "string option"
  rr_stall_event_key :: "string option"
  rr_stall_probe :: "bool option"
  rr_stall_text :: "string option"
  rr_stall_timeout_seconds :: int
  rr_stall_wake_generation :: int
  rr_status :: rule_status
  rr_text :: string
  rr_wakes :: int

section \<open>Types\<close>

definition counter_typed :: "int \<Rightarrow> bool" where
  "counter_typed n = (0 \<le> n \<and> n \<le> MAX_COUNTER)"

definition text_typed :: "string \<Rightarrow> bool" where
  "text_typed s = (chars_count s \<le> RULE_TEXT)"

definition time_typed :: "json_number \<Rightarrow> bool" where
  "time_typed n = is_finite (number_f64 n)"

fun kind_typed :: "rule_kind \<Rightarrow> bool" where
  "kind_typed (LowWorkers workers minutes) =
     (1 \<le> workers \<and> workers \<le> 255 \<and> 1 \<le> minutes \<and> minutes \<le> YEAR_MINUTES)"
| "kind_typed _ = True"

definition intent_typed :: "launch_intent \<Rightarrow> bool" where
  "intent_typed i = (counter_typed (li_check_number i) \<and> counter_typed (li_epoch i)
     \<and> text_typed (li_command i) \<and> 1000 \<le> li_timeout_ms i \<and> li_timeout_ms i \<le> 86400000)"

text \<open>What the field types of a stored rule say, \<open>RuleRecord\<close>.\<close>

definition rule_typed :: "rule_record \<Rightarrow> bool" where
  "rule_typed r =
     (pred_option counter_typed (rr_active_workers r)
      \<and> counter_typed (rr_checks r) \<and> counter_typed (rr_epoch r)
      \<and> counter_typed (rr_file_generation r) \<and> counter_typed (rr_wakes r)
      \<and> - 1 \<le> rr_stall_wake_generation r \<and> rr_stall_wake_generation r \<le> MAX_COUNTER
      \<and> 10 \<le> rr_interval_seconds r \<and> rr_interval_seconds r \<le> YEAR_SECONDS
      \<and> 0 \<le> rr_stall_timeout_seconds r \<and> rr_stall_timeout_seconds r \<le> YEAR_SECONDS
      \<and> kind_typed (rr_kind r) \<and> pred_option intent_typed (rr_launch_intent r)
      \<and> text_typed (rr_command r) \<and> text_typed (rr_liveness_command r)
      \<and> pred_option text_typed (rr_event_text r) \<and> pred_option text_typed (rr_last_output r)
      \<and> chars_count (rr_name r) \<le> RULE_NAME
      \<and> time_typed (rr_created r) \<and> time_typed (rr_next_at r)
      \<and> pred_option time_typed (rr_at r) \<and> pred_option time_typed (rr_file_activity_at r)
      \<and> pred_option time_typed (rr_last_at r) \<and> pred_option time_typed (rr_last_finished r)
      \<and> pred_option time_typed (rr_last_stall_finished r) \<and> pred_option time_typed (rr_low_since r))"

lemma time_typed_from: "number_from_f64 x = Some n \<Longrightarrow> time_typed n"
  by (auto simp: number_from_f64_def time_typed_def split: if_splits)

end
