(* ===== verification/Rule_Engine.thy ===== *)
theory Rule_Engine
  imports Rule_Record
begin

text \<open>
  The decisions of \<open>runtime-services/src/rules_engine.rs\<close>: what a tick, an event, the result of a
  check and a restart do to a stored rule, and the wake or the check that comes with it. The
  functions decide on one checked snapshot of a rule and its owner and touch nothing else.

  The reading of an agent record through its schema, the printing of JSON, name based UUIDs and
  the reading of the wake directive are code of other packages; they are the fields of
  \<open>rule_env\<close>.
\<close>

section \<open>Owners\<close>

text \<open>\<open>truthy\<close> of \<open>runtime-store/src/schema.rs\<close>.\<close>

fun truthy :: "json option \<Rightarrow> bool" where
  "truthy None = False"
| "truthy (Some JNull) = False"
| "truthy (Some (JBool b)) = b"
| "truthy (Some (JNumber n)) = (\<not> f64_eq (number_f64 n) (Finite 0))"
| "truthy (Some (JString s)) = (s \<noteq> [])"
| "truthy (Some (JArray xs)) = (xs \<noteq> [])"
| "truthy (Some (JObject m)) = (m \<noteq> [])"

record recovery =
  re_stage :: "string option"
  re_auto_wake :: bool
  re_epoch :: "int option"
  re_account_key :: "string option"
  re_thread_id :: "string option"

record owner =
  ow_id :: string
  ow_epoch :: int
  ow_status :: string
  ow_auto_wake :: bool
  ow_deleted_at :: "f64 option"
  ow_account_key :: "string option"
  ow_thread_id :: "string option"
  ow_restart_recovery :: "recovery option"
  ow_disconnect_recovery :: "recovery option"
  ow_native_failure_hold :: json
  ow_archived :: json

definition deleted :: "owner \<Rightarrow> bool" where
  "deleted o' = (case ow_deleted_at o' of None \<Rightarrow> False | Some v \<Rightarrow> \<not> f64_eq v (Finite 0))"

definition hold :: "owner \<Rightarrow> bool \<Rightarrow> owner_hold option" where
  "hold o' held_input =
     (if truthy (Some (ow_archived o')) then Some Archived
      else if truthy (Some (ow_native_failure_hold o')) then Some NativeFailureHold
      else if ow_status o' = ''failed'' \<and> held_input then Some FailedInputHeld
      else None)"

definition matching_recovery :: "owner \<Rightarrow> recovery \<Rightarrow> int \<Rightarrow> bool" where
  "matching_recovery o' receipt epoch =
     (re_auto_wake receipt \<and> re_epoch receipt = Some epoch \<and> ow_epoch o' = epoch
      \<and> re_account_key receipt = ow_account_key o' \<and> re_thread_id receipt = ow_thread_id o')"

definition restart_pending :: "owner \<Rightarrow> bool" where
  "restart_pending o' =
     (case ow_restart_recovery o' of
        None \<Rightarrow> False
      | Some receipt \<Rightarrow> re_stage receipt = Some ''pending'' \<and> matching_recovery o' receipt (ow_epoch o'))"

definition recovery_pending :: "owner \<Rightarrow> int \<Rightarrow> bool" where
  "recovery_pending o' epoch =
     (ow_epoch o' = epoch \<and> restart_pending o'
      \<or> (\<not> ow_auto_wake o' \<or> truthy (Some (ow_native_failure_hold o')))
        \<and> (case ow_disconnect_recovery o' of
             None \<Rightarrow> False
           | Some receipt \<Rightarrow> matching_recovery o' receipt epoch))"

definition finish_allowed :: "owner \<Rightarrow> bool" where
  "finish_allowed o' =
     (ow_auto_wake o' \<or> \<not> deleted o' \<and> ow_status o' \<noteq> ''paused'' \<and> restart_pending o')"

definition owner_hold_reason :: "owner_hold \<Rightarrow> string" where
  "owner_hold_reason h =
     (case h of
        FailedInputHeld \<Rightarrow> ''Paused: the agent failed and its input waits, so it cannot act on a wake. The rule resumes when the agent can run again.''
      | NativeFailureHold \<Rightarrow> ''Paused: the agent is held after a failure, so it cannot act on a wake. The rule resumes when the agent can run again.''
      | Archived \<Rightarrow> ''Paused: the conversation of the agent is archived. The rule resumes when the conversation is restored.'')"

definition STOPPED :: string where
  "STOPPED = ''The agent was stopped. Resume this rule explicitly.''"

definition RESTARTED :: string where
  "RESTARTED = ''Server restarted during a check. Outcome unknown; check was not repeated.''"

definition MISSED :: string where
  "MISSED = ''Missed scheduled run. Resume this rule to schedule a new run, or delete it to cancel.''"

definition OWNER_FIELDS :: "string list" where
  "OWNER_FIELDS = [''epoch'', ''status'', ''archived'', ''accountKey'', ''threadId'', ''autoWake'', ''deletedAt'',
     ''restartRecovery'', ''disconnectRecovery'', ''nativeFailureHold'', ''approvalPolicy'', ''sandbox'',
     ''profile'', ''role'']"

section \<open>Snapshots\<close>

datatype rule_error = Invalid string string | Observation string | Schema

record rule_env =
  read_owner :: "json \<Rightarrow> rule_error + owner"
  print_json :: "json \<Rightarrow> string"
  uuid_v5_url :: "string \<Rightarrow> string"
  wake_directive :: "string \<Rightarrow> bool option option"

record rule_snapshot =
  sn_raw :: rule_record
  sn_owner_raw :: json
  sn_owner :: owner

record rule_check =
  ck_rule_id :: string
  ck_check_number :: int
  ck_agent_id :: string
  ck_epoch :: int
  ck_account_key :: "string option"
  ck_thread_id :: "string option"
  ck_monitor_id :: string
  ck_command :: string
  ck_timeout_ms :: int
  ck_liveness :: bool

record rule_wake =
  wk_id :: string
  wk_kind :: string
  wk_text :: string

record rule_decision =
  rd_record :: "rule_record option"
  rd_wake :: "rule_wake option"
  rd_check :: "rule_check option"

record check_result =
  cr_code :: "int option"
  cr_error :: "string option"
  cr_cancelled :: bool
  cr_output :: string

record tick_observation =
  ob_fingerprint :: "fingerprint option option"
  ob_active_workers :: "int option"
  ob_held_input :: bool

definition ONCE_RULE_GRACE_SECONDS :: int where "ONCE_RULE_GRACE_SECONDS = 60"
definition OUTPUT_CHARACTERS :: nat where "OUTPUT_CHARACTERS = 12000"
definition DEFAULT_RULE_STALL_SECONDS :: int where "DEFAULT_RULE_STALL_SECONDS = 1800"
definition MIN_COMMAND_MILLISECONDS :: int where "MIN_COMMAND_MILLISECONDS = 1000"
definition MAX_COMMAND_MILLISECONDS :: int where "MAX_COMMAND_MILLISECONDS = 86400000"

definition no_decision :: rule_decision where
  "no_decision = \<lparr>rd_record = None, rd_wake = None, rd_check = None\<rparr>"

definition change :: "rule_record \<Rightarrow> rule_decision" where
  "change r = no_decision\<lparr>rd_record := Some r\<rparr>"

definition seconds :: "json_number \<Rightarrow> f64" where
  "seconds n = number_f64 n"

definition time_number :: "f64 \<Rightarrow> rule_error + json_number" where
  "time_number x = (case number_from_f64 x of None \<Rightarrow> Inl (Observation ''non-finite time'') | Some n \<Rightarrow> Inr n)"

definition finite_time :: "f64 \<Rightarrow> rule_error + unit" where
  "finite_time now = (if is_finite now then Inr () else Inl (Observation ''non-finite time''))"

text \<open>\<open>rule_integer\<close> takes a \<open>u64\<close> through \<open>i64\<close> to a bounded integer.\<close>

definition rule_integer :: "int \<Rightarrow> int \<Rightarrow> int \<Rightarrow> rule_error + int" where
  "rule_integer lo hi v =
     (if 2 ^ 63 \<le> v then Inl (Observation ''rule counter exceeded'')
      else case bounded_integer lo hi v of
        None \<Rightarrow> Inl (Observation ''rule counter exceeded'')
      | Some n \<Rightarrow> Inr n)"

abbreviation rule_counter :: "int \<Rightarrow> rule_error + int" where
  "rule_counter \<equiv> rule_integer 0 MAX_COUNTER"

definition tail_text :: "string \<Rightarrow> string" where
  "tail_text s = skip_chars (chars_count s - OUTPUT_CHARACTERS) s"

text \<open>\<open>python_strip\<close> of \<open>event_write.rs\<close>, and the last line of a text by Python's line ends.\<close>

definition PYTHON_SPACE :: "string list" where
  "PYTHON_SPACE = WHITESPACE @ map (\<lambda>n. [char_of (n :: int)]) [0x1C, 0x1D, 0x1E, 0x1F]"

definition python_strip :: "string \<Rightarrow> string" where
  "python_strip s = rev (strip_all (map rev PYTHON_SPACE) (rev (strip_all PYTHON_SPACE s)))"

definition LINE_ENDS :: "string list" where
  "LINE_ENDS = map (\<lambda>n. [char_of (n :: int)]) [0x0A, 0x0D, 0x0B, 0x0C, 0x1C, 0x1D, 0x1E]
     @ map (map char_of) [[0xC2, 0x85 :: int], [0xE2, 0x80, 0xA8], [0xE2, 0x80, 0xA9]]"

definition suppressed :: "rule_env \<Rightarrow> string \<Rightarrow> bool" where
  "suppressed env output = (wake_directive env (last_piece LINE_ENDS [] (python_strip output)) = Some (Some False))"

text \<open>Values of \<open>json!\<close>.\<close>

definition json_i64 :: "int \<Rightarrow> json" where
  "json_i64 n = JNumber (if 0 \<le> n then PosInt (word_of_int n) else NegInt n)"

definition json_f64 :: "f64 \<Rightarrow> json" where
  "json_f64 x = (case number_from_f64 x of None \<Rightarrow> JNull | Some n \<Rightarrow> JNumber n)"

definition json_option :: "('a \<Rightarrow> json) \<Rightarrow> 'a option \<Rightarrow> json" where
  "json_option f v = (case v of None \<Rightarrow> JNull | Some x \<Rightarrow> f x)"

fun rule_path :: "rule_kind \<Rightarrow> string option" where
  "rule_path (File path) = Some path"
| "rule_path Interval = None"
| "rule_path Once = None"
| "rule_path Event = None"
| "rule_path (LowWorkers _ _) = None"

fun is_file :: "rule_kind \<Rightarrow> bool" where
  "is_file (File _) = True"
| "is_file _ = False"

fun is_low_workers :: "rule_kind \<Rightarrow> bool" where
  "is_low_workers (LowWorkers _ _) = True"
| "is_low_workers _ = False"

definition can_tick :: "rule_record \<Rightarrow> bool" where
  "can_tick r = (rr_status r = Active \<and> \<not> rr_in_flight r)"

definition owner_paused :: "rule_record \<Rightarrow> bool" where
  "owner_paused r = (rr_status r = Paused \<and> \<not> rr_in_flight r \<and> rr_owner_hold r \<noteq> None)"

definition tick_can_change :: "rule_record \<Rightarrow> bool" where
  "tick_can_change r = (can_tick r \<or> owner_paused r)"

definition from_stored :: "rule_env \<Rightarrow> rule_record \<Rightarrow> json \<Rightarrow> rule_error + rule_snapshot" where
  "from_stored env r o' =
     try_result (read_owner env o') (\<lambda>agent.
       if rr_agent r \<noteq> ow_id agent then Inl (Invalid (''rules/'' @ rr_id r) ''/agent'')
       else Inr \<lparr>sn_raw = r, sn_owner_raw = o', sn_owner = agent\<rparr>)"

definition with_record :: "rule_env \<Rightarrow> rule_snapshot \<Rightarrow> rule_record \<Rightarrow> rule_error + rule_snapshot" where
  "with_record env s r = from_stored env r (sn_owner_raw s)"

definition launch_intent_check :: "rule_record \<Rightarrow> rule_check option" where
  "launch_intent_check r = map_option (\<lambda>i.
     \<lparr>ck_rule_id = li_rule_id i, ck_check_number = li_check_number i, ck_agent_id = li_agent_id i,
      ck_epoch = li_epoch i, ck_account_key = li_account_key i, ck_thread_id = li_thread_id i,
      ck_monitor_id = li_monitor_id i, ck_command = li_command i, ck_timeout_ms = li_timeout_ms i,
      ck_liveness = li_liveness i\<rparr>) (rr_launch_intent r)"

definition held_input_owner :: "rule_snapshot \<Rightarrow> (string \<times> int) option" where
  "held_input_owner s =
     (if ow_status (sn_owner s) = ''failed'' \<and> (can_tick (sn_raw s) \<or> owner_paused (sn_raw s))
      then Some (ow_id (sn_owner s), ow_epoch (sn_owner s)) else None)"

definition current :: "rule_snapshot \<Rightarrow> rule_record \<Rightarrow> json \<Rightarrow> bool" where
  "current s r o' =
     (r = sn_raw s \<and> list_all (\<lambda>f. json_get o' f = json_get (sn_owner_raw s) f) OWNER_FIELDS)"

definition stalled :: "rule_record \<Rightarrow> f64 \<Rightarrow> bool" where
  "stalled r now =
     (is_file (rr_kind r) \<and> rr_stall_timeout_seconds r \<noteq> 0
      \<and> f64_le (f64_of_int (rr_stall_timeout_seconds r))
          (f64_sub now (case rr_file_activity_at r of Some t \<Rightarrow> seconds t | None \<Rightarrow> seconds (rr_created r)))
      \<and> rr_stall_wake_generation r < rr_file_generation r)"

definition fingerprint_path :: "rule_snapshot \<Rightarrow> f64 \<Rightarrow> string option" where
  "fingerprint_path s now =
     (let r = sn_raw s; o' = sn_owner s in
      if is_file (rr_kind r) \<and> rr_status r = Active \<and> \<not> rr_in_flight r \<and> \<not> deleted o' \<and> ow_auto_wake o'
         \<and> ow_epoch o' = rr_epoch r \<and> \<not> recovery_pending o' (rr_epoch r)
         \<and> (stalled r now \<or> f64_le (seconds (rr_next_at r)) now)
      then rule_path (rr_kind r) else None)"

definition monitor_name :: "rule_record \<Rightarrow> string" where
  "monitor_name r = ''rule:'' @ rr_id r @ '':'' @ decimal (nat (rr_checks r))"

definition check :: "rule_env \<Rightarrow> rule_snapshot \<Rightarrow> rule_check" where
  "check env s =
     (let r = sn_raw s in
      \<lparr>ck_rule_id = rr_id r, ck_check_number = rr_checks r, ck_agent_id = rr_agent r, ck_epoch = rr_epoch r,
       ck_account_key = ow_account_key (sn_owner s), ck_thread_id = ow_thread_id (sn_owner s),
       ck_monitor_id = uuid_v5_url env (monitor_name r),
       ck_command = (if rr_stall_probe r = Some True then rr_liveness_command r else rr_command r),
       ck_timeout_ms = max MIN_COMMAND_MILLISECONDS (min MAX_COMMAND_MILLISECONDS
         (min (2 ^ 64 - 1) (rr_interval_seconds r * 1000))),
       ck_liveness = (rr_stall_probe r = Some True)\<rparr>)"

definition launch_allowed :: "rule_env \<Rightarrow> rule_snapshot \<Rightarrow> rule_check \<Rightarrow> bool" where
  "launch_allowed env s c =
     (rr_status (sn_raw s) = Active \<and> rr_in_flight (sn_raw s) \<and> ow_auto_wake (sn_owner s)
      \<and> \<not> deleted (sn_owner s) \<and> ow_epoch (sn_owner s) = ck_epoch c
      \<and> \<not> recovery_pending (sn_owner s) (ck_epoch c) \<and> check env s = c)"

section \<open>Results of checks\<close>

definition authorized :: "rule_snapshot \<Rightarrow> bool" where
  "authorized s = (rr_status (sn_raw s) = Active \<and> ow_epoch (sn_owner s) = rr_epoch (sn_raw s)
     \<and> finish_allowed (sn_owner s))"

definition quiet_seconds :: "rule_record \<Rightarrow> f64 \<Rightarrow> json" where
  "quiet_seconds r now =
     json_i64 (f64_as_i64 (f64_sub now (case rr_file_activity_at r of Some t \<Rightarrow> seconds t | None \<Rightarrow> now)))"

definition finish_probe :: "rule_env \<Rightarrow> rule_snapshot \<Rightarrow> f64 \<Rightarrow> check_result \<Rightarrow> rule_error + rule_decision" where
  "finish_probe env s now result =
     (let r = sn_raw s in
      try_result
        (if authorized s \<and> \<not> deleted (sn_owner s) then
           (case rr_stall_event_key r of
              None \<Rightarrow> Inl (Invalid (''rules/'' @ rr_id r) ''/stallEventKey'')
            | Some key \<Rightarrow>
                Inr (Some \<lparr>wk_id = key, wk_kind = ''rule_stall'',
                  wk_text = print_json env (JObject
                    [(''livenessError'', json_option JString (cr_error result)),
                     (''livenessExitCode'', json_option json_i64 (cr_code result)),
                     (''livenessResult'', JString (tail_text (cr_output result))),
                     (''message'', JString ''file unchanged''), (''name'', JString (rr_name r)),
                     (''path'', json_option JString (rule_path (rr_kind r))),
                     (''quietSeconds'', quiet_seconds r now), (''rule'', JString (rr_id r))])\<rparr>))
         else Inr None) (\<lambda>wake.
      try_result (rule_integer (- 1) MAX_COUNTER (rr_file_generation r)) (\<lambda>generation.
      try_result (time_number now) (\<lambda>finished.
        Inr \<lparr>rd_record = Some (r\<lparr>rr_in_flight := False, rr_stall_probe := Some False,
              rr_stall_wake_generation := generation, rr_last_stall_finished := Some finished,
              rr_last_stall_exit_code := cr_code result, rr_last_stall_error := cr_error result\<rparr>),
             rd_wake = wake, rd_check = None\<rparr>))))"

definition wakes_agent :: "rule_env \<Rightarrow> rule_snapshot \<Rightarrow> check_result \<Rightarrow> bool" where
  "wakes_agent env s result =
     (cr_code result = Some 0 \<and> (case cr_error result of None \<Rightarrow> True | Some e \<Rightarrow> e = [])
      \<and> \<not> suppressed env (cr_output result) \<and> authorized s)"

definition wake_id :: "rule_record \<Rightarrow> string" where
  "wake_id r = ''rule-wake:'' @ rr_id r @ '':'' @ decimal (nat (rr_checks r))"

definition rule_wake_of :: "rule_env \<Rightarrow> rule_record \<Rightarrow> string \<Rightarrow> rule_wake" where
  "rule_wake_of env r output =
     \<lparr>wk_id = wake_id r, wk_kind = ''rule'',
      wk_text = print_json env (JObject
        [(''instruction'', JString (rr_text r)), (''name'', JString (rr_name r)),
         (''output'', JString output), (''rule'', JString (rr_id r))])\<rparr>"

definition finish_command :: "rule_env \<Rightarrow> rule_snapshot \<Rightarrow> f64 \<Rightarrow> check_result \<Rightarrow> rule_error + rule_decision" where
  "finish_command env s now result =
     (let r = sn_raw s; output = tail_text (cr_output result) in
      try_result (case bounded_text 0 RULE_TEXT output of None \<Rightarrow> Inl Schema | Some t \<Rightarrow> Inr t) (\<lambda>last_output.
      try_result (time_number now) (\<lambda>finished.
      let next = r\<lparr>rr_in_flight := False, rr_last_exit_code := cr_code result, rr_error := cr_error result,
                   rr_last_output := Some last_output, rr_last_finished := Some finished\<rparr> in
      try_result
        (if wakes_agent env s result
         then try_result (rule_counter (rr_wakes r + 1)) (\<lambda>wakes.
           Inr (next\<lparr>rr_wakes := wakes\<rparr>, Some (rule_wake_of env r output)))
         else Inr (next, None)) (\<lambda>(next, wake).
        Inr \<lparr>rd_record = Some (if rr_kind r = Once \<and> rr_status r = Active
               then next\<lparr>rr_status := Completed\<rparr> else next),
             rd_wake = wake, rd_check = None\<rparr>))))"

definition finish :: "rule_env \<Rightarrow> rule_snapshot \<Rightarrow> f64 \<Rightarrow> check_result \<Rightarrow> rule_error + rule_decision" where
  "finish env s now result =
     try_result (finite_time now) (\<lambda>_.
       if rr_stall_probe (sn_raw s) = Some True then finish_probe env s now result
       else finish_command env s now result)"

text \<open>A check without a command finishes in the decision that starts it.\<close>

definition success :: "string \<Rightarrow> check_result" where
  "success output = \<lparr>cr_code = Some 0, cr_error = None, cr_cancelled = False, cr_output = output\<rparr>"

definition launch :: "rule_env \<Rightarrow> rule_snapshot \<Rightarrow> rule_record \<Rightarrow> f64 \<Rightarrow> rule_error + rule_decision" where
  "launch env s next now =
     try_result (with_record env s next) (\<lambda>snapshot.
       if rr_status (sn_raw snapshot) \<noteq> Active \<or> \<not> ow_auto_wake (sn_owner snapshot)
          \<or> rr_epoch (sn_raw snapshot) \<noteq> ow_epoch (sn_owner snapshot)
       then Inr (change ((sn_raw snapshot)\<lparr>rr_in_flight := False\<rparr>))
       else if ck_command (check env snapshot) = []
       then finish env snapshot now
         (success (case rr_event_text (sn_raw snapshot) of None \<Rightarrow> [] | Some t \<Rightarrow> t))
       else Inr ((change (sn_raw snapshot))\<lparr>rd_check := Some (check env snapshot)\<rparr>))"

section \<open>Ticks\<close>

definition stopped :: "rule_snapshot \<Rightarrow> bool" where
  "stopped s = (deleted (sn_owner s) \<or> \<not> ow_auto_wake (sn_owner s) \<or> ow_epoch (sn_owner s) \<noteq> rr_epoch (sn_raw s))"

definition resume_after_owner_hold :: "rule_snapshot \<Rightarrow> bool \<Rightarrow> rule_decision" where
  "resume_after_owner_hold s held_input =
     (let r = sn_raw s in
      case (if stopped s then None else hold (sn_owner s) held_input) of
        Some h \<Rightarrow>
          if rr_owner_hold r = Some h then no_decision
          else change (r\<lparr>rr_owner_hold := Some h, rr_error := Some (owner_hold_reason h)\<rparr>)
      | None \<Rightarrow>
          let next = r\<lparr>rr_owner_hold := None\<rparr> in
          if stopped s then change (next\<lparr>rr_error := Some STOPPED\<rparr>)
          else let next = next\<lparr>rr_status := Active, rr_error := None\<rparr> in
            change (if is_low_workers (rr_kind r)
              then next\<lparr>rr_low_since := None, rr_alerted := Some False\<rparr> else next))"

definition low_since :: "rule_record \<Rightarrow> f64 \<Rightarrow> f64" where
  "low_since r now =
     (case rr_low_since r of
        None \<Rightarrow> now
      | Some t \<Rightarrow> if f64_le (seconds t) now then seconds t else now)"

definition low_workers :: "rule_env \<Rightarrow> rule_snapshot \<Rightarrow> f64 \<Rightarrow> int option \<Rightarrow> int \<Rightarrow> int \<Rightarrow> rule_error + rule_decision" where
  "low_workers env s now workers minimum duration =
     (let r = sn_raw s in
      try_result (case workers of None \<Rightarrow> Inl (Observation ''worker activity missing'') | Some n \<Rightarrow> Inr n) (\<lambda>count.
      try_result (rule_counter count) (\<lambda>active.
      let next = r\<lparr>rr_active_workers := Some active\<rparr>;
          settle = (\<lambda>next. Inr (if next = r then no_decision else change next)) in
      if minimum \<le> count then settle (next\<lparr>rr_low_since := None, rr_alerted := Some False\<rparr>)
      else
        let since = low_since r now; elapsed = f64_sub now since in
        try_result (time_number since) (\<lambda>since_number.
        let next = next\<lparr>rr_low_since := Some since_number\<rparr> in
        if rr_alerted r \<noteq> Some True \<and> f64_less (f64_of_int (duration * 60)) elapsed then
          try_result (time_number now) (\<lambda>at.
          try_result (rule_counter (rr_checks r + 1)) (\<lambda>checks.
          try_result (with_record env s (next\<lparr>rr_alerted := Some True, rr_last_at := Some at, rr_checks := checks\<rparr>))
            (\<lambda>snapshot. finish env snapshot now (success (print_json env (JObject
               [(''activeSubagents'', json_i64 count), (''belowThresholdSince'', json_f64 since),
                (''elapsedMinutes'', json_f64 (f64_div_int elapsed 60)),
                (''minimumSubagents'', json_i64 minimum)]))))))
        else settle next))))"

definition stall_id :: "rule_record \<Rightarrow> string" where
  "stall_id r = ''rule-stall:'' @ rr_id r @ '':'' @ decimal (nat (rr_file_generation r))"

definition fingerprint_seen :: "tick_observation \<Rightarrow> rule_error + fingerprint option" where
  "fingerprint_seen ob =
     (case ob_fingerprint ob of None \<Rightarrow> Inl (Observation ''file fingerprint missing'') | Some f \<Rightarrow> Inr f)"

definition tick_stalled :: "rule_env \<Rightarrow> rule_snapshot \<Rightarrow> f64 \<Rightarrow> tick_observation \<Rightarrow> rule_error + rule_decision" where
  "tick_stalled env s now ob =
     (let r = sn_raw s in
      try_result (fingerprint_seen ob) (\<lambda>fingerprint.
      if fingerprint \<noteq> rr_fingerprint r then
        try_result (time_number now) (\<lambda>at.
        try_result (rule_counter (rr_file_generation r + 1)) (\<lambda>generation.
          Inr (change (r\<lparr>rr_fingerprint := fingerprint, rr_file_activity_at := Some at,
                 rr_file_generation := generation\<rparr>))))
      else
        let text_of = print_json env (JObject
              [(''message'', JString ''file unchanged''), (''name'', JString (rr_name r)),
               (''path'', json_option JString (rule_path (rr_kind r))),
               (''quietSeconds'', quiet_seconds r now), (''rule'', JString (rr_id r))]) in
        if rr_liveness_command r \<noteq> [] then
          try_result (rule_counter (rr_checks r + 1)) (\<lambda>checks.
            launch env s (r\<lparr>rr_in_flight := True, rr_checks := checks, rr_stall_probe := Some True,
              rr_stall_event_key := Some (stall_id r), rr_stall_text := Some text_of\<rparr>) now)
        else
          try_result (rule_integer (- 1) MAX_COUNTER (rr_file_generation r)) (\<lambda>generation.
            Inr \<lparr>rd_record = Some (r\<lparr>rr_stall_wake_generation := generation\<rparr>),
                 rd_wake = Some \<lparr>wk_id = stall_id r, wk_kind = ''rule_stall'', wk_text = text_of\<rparr>,
                 rd_check = None\<rparr>)))"

definition missed :: "rule_record \<Rightarrow> f64 \<Rightarrow> bool" where
  "missed r now = (rr_kind r = Once
     \<and> f64_less (f64_of_int ONCE_RULE_GRACE_SECONDS) (f64_sub now (seconds (rr_next_at r))))"

definition missed_id :: "rule_record \<Rightarrow> string" where
  "missed_id r = ''rule-missed:'' @ rr_id r @ '':'' @ decimal (nat (rr_epoch r)) @ '':''
     @ f64_display (seconds (rr_next_at r))"

definition tick_missed :: "rule_env \<Rightarrow> rule_record \<Rightarrow> f64 \<Rightarrow> rule_error + rule_decision" where
  "tick_missed env r now =
     try_result (rule_counter (rr_wakes r + 1)) (\<lambda>wakes.
       Inr \<lparr>rd_record = Some (r\<lparr>rr_status := Paused, rr_error := Some MISSED, rr_wakes := wakes\<rparr>),
            rd_wake = Some \<lparr>wk_id = missed_id r, wk_kind = ''rule_missed'',
              wk_text = print_json env (JObject
                [(''delaySeconds'', json_f64 (f64_sub now (seconds (rr_next_at r)))),
                 (''dueAt'', json_f64 (seconds (rr_next_at r))), (''message'', JString MISSED),
                 (''name'', JString (rr_name r)), (''rule'', JString (rr_id r))])\<rparr>,
            rd_check = None\<rparr>)"

definition tick_due :: "rule_env \<Rightarrow> rule_snapshot \<Rightarrow> f64 \<Rightarrow> tick_observation \<Rightarrow> rule_error + rule_decision" where
  "tick_due env s now ob =
     (let r = sn_raw s;
          start = (\<lambda>next. try_result (time_number now) (\<lambda>at.
            try_result (rule_counter (rr_checks r + 1)) (\<lambda>checks.
              launch env s (next\<lparr>rr_in_flight := True, rr_last_at := Some at, rr_checks := checks\<rparr>) now))) in
      try_result (time_number (f64_add now (f64_of_int (rr_interval_seconds r)))) (\<lambda>next_at.
      let next = r\<lparr>rr_next_at := next_at\<rparr> in
      if is_file (rr_kind r) then
        try_result (fingerprint_seen ob) (\<lambda>fingerprint.
        let next = next\<lparr>rr_fingerprint := fingerprint\<rparr> in
        if fingerprint = rr_fingerprint r then Inr (change next)
        else try_result (time_number now) (\<lambda>at.
          try_result (rule_counter (rr_file_generation r + 1)) (\<lambda>generation.
            start (next\<lparr>rr_file_activity_at := Some at, rr_file_generation := generation\<rparr>))))
      else start next))"

definition tick_kind :: "rule_env \<Rightarrow> rule_snapshot \<Rightarrow> f64 \<Rightarrow> tick_observation \<Rightarrow> rule_error + rule_decision" where
  "tick_kind env s now ob =
     (let r = sn_raw s in
      case rr_kind r of
        LowWorkers minimum duration \<Rightarrow> low_workers env s now (ob_active_workers ob) minimum duration
      | Event \<Rightarrow> Inr no_decision
      | _ \<Rightarrow>
          if stalled r now then tick_stalled env s now ob
          else if f64_less now (seconds (rr_next_at r)) then Inr no_decision
          else if missed r now then tick_missed env r now
          else tick_due env s now ob)"

definition tick :: "rule_env \<Rightarrow> rule_snapshot \<Rightarrow> f64 \<Rightarrow> tick_observation \<Rightarrow> rule_error + rule_decision" where
  "tick env s now ob =
     (let r = sn_raw s; o' = sn_owner s in
      try_result (finite_time now) (\<lambda>_.
      if owner_paused r then Inr (resume_after_owner_hold s (ob_held_input ob))
      else if \<not> can_tick r then Inr no_decision
      else if \<not> deleted o' \<and> ow_epoch o' = rr_epoch r \<and> recovery_pending o' (rr_epoch r) then Inr no_decision
      else if stopped s then Inr (change (r\<lparr>rr_status := Paused, rr_error := Some STOPPED\<rparr>))
      else case hold o' (ob_held_input ob) of
        Some h \<Rightarrow> Inr (change (r\<lparr>rr_status := Paused, rr_owner_hold := Some h, rr_error := Some (owner_hold_reason h)\<rparr>))
      | None \<Rightarrow> tick_kind env s now ob))"

section \<open>Events\<close>

definition event_alias :: "string \<Rightarrow> string" where
  "event_alias kind =
     (if kind = ''child_completed'' \<or> kind = ''child_result'' then ''worker_completed''
      else if kind = ''complaint_submitted'' then ''complaint'' else kind)"

definition event_starts :: "rule_snapshot \<Rightarrow> string \<Rightarrow> string \<Rightarrow> bool" where
  "event_starts s kind key =
     (let r = sn_raw s in
      rr_kind r = Event \<and> rr_event r = event_alias kind \<and> rr_status r = Active \<and> \<not> rr_in_flight r
      \<and> rr_epoch r = ow_epoch (sn_owner s) \<and> rr_last_event r \<noteq> Some key \<and> hold (sn_owner s) False = None)"

definition event :: "rule_env \<Rightarrow> rule_snapshot \<Rightarrow> string \<Rightarrow> string \<Rightarrow> string \<Rightarrow> f64 \<Rightarrow> rule_error + rule_decision" where
  "event env s kind body key now =
     (let r = sn_raw s in
      try_result (finite_time now) (\<lambda>_.
      if \<not> event_starts s kind key then Inr no_decision
      else
        try_result (time_number now) (\<lambda>at.
        try_result (rule_counter (rr_checks r + 1)) (\<lambda>checks.
        try_result (case bounded_text 0 RULE_TEXT (take_chars OUTPUT_CHARACTERS body) of None \<Rightarrow> Inl Schema | Some t \<Rightarrow> Inr t)
          (\<lambda>event_text.
            launch env s (r\<lparr>rr_in_flight := True, rr_last_event := Some key, rr_last_at := Some at,
              rr_checks := checks, rr_event_text := Some event_text\<rparr>) now)))))"

section \<open>Restarts\<close>

definition restart_marker :: "rule_env \<Rightarrow> rule_snapshot \<Rightarrow> restart_check" where
  "restart_marker env s =
     \<lparr>rc_epoch = rr_epoch (sn_raw s), rc_checks = rr_checks (sn_raw s), rc_monitor_id = ck_monitor_id (check env s)\<rparr>"

definition recovered :: "rule_env \<Rightarrow> rule_snapshot \<Rightarrow> json_number \<Rightarrow> rule_record" where
  "recovered env s at =
     (let r = sn_raw s;
          next = (if is_file (rr_kind r) \<and> rr_file_activity_at r = None
            then r\<lparr>rr_file_activity_at := Some at, rr_file_generation := 0, rr_stall_wake_generation := - 1,
                   rr_stall_timeout_seconds := DEFAULT_RULE_STALL_SECONDS, rr_liveness_command := []\<rparr>
            else r);
          next = (if is_low_workers (rr_kind r) then next\<lparr>rr_low_since := None, rr_next_at := at\<rparr> else next) in
      if rr_in_flight r
      then next\<lparr>rr_restart_check := (if rr_status r = Active then Some (restart_marker env s) else None),
                rr_in_flight := False, rr_status := Paused, rr_error := Some RESTARTED\<rparr>
      else next)"

definition recover :: "rule_env \<Rightarrow> rule_snapshot \<Rightarrow> f64 \<Rightarrow> rule_error + rule_decision" where
  "recover env s now =
     try_result (finite_time now) (\<lambda>_.
     try_result (time_number now) (\<lambda>at.
       let next = recovered env s at in
       Inr (if next = sn_raw s then no_decision else change next)))"

text \<open>Completion of a check: the current one, or one that a restart marked.\<close>

definition marker_of :: "rule_check \<Rightarrow> restart_check" where
  "marker_of c = \<lparr>rc_epoch = ck_epoch c, rc_checks = ck_check_number c, rc_monitor_id = ck_monitor_id c\<rparr>"

definition matches_check :: "rule_env \<Rightarrow> rule_snapshot \<Rightarrow> rule_check \<Rightarrow> bool" where
  "matches_check env s c =
     (case rr_launch_intent (sn_raw s) of
        Some _ \<Rightarrow> launch_intent_check (sn_raw s) = Some c
      | None \<Rightarrow> check env s = c)"

definition finish_check ::
  "rule_env \<Rightarrow> rule_snapshot \<Rightarrow> rule_check \<Rightarrow> check_result \<Rightarrow> f64 \<Rightarrow> rule_error + rule_decision" where
  "finish_check env s c result now =
     (let r = sn_raw s in
      if ow_epoch (sn_owner s) \<noteq> ck_epoch c \<or> ck_rule_id c \<noteq> rr_id r \<or> ck_agent_id c \<noteq> rr_agent r
      then Inr no_decision
      else if \<not> matches_check env s c then Inr no_decision
      else if rr_in_flight r then finish env s now result
      else if rr_status r = Paused \<and> cr_cancelled result then finish env s now result
      else if rr_restart_check r \<noteq> Some (marker_of c) \<or> rr_status r \<noteq> Paused
        \<or> ow_epoch (sn_owner s) \<noteq> ck_epoch c \<or> deleted (sn_owner s)
      then Inr no_decision
      else
        try_result (with_record env s (r\<lparr>rr_restart_check := None, rr_status := Active, rr_error := None\<rparr>))
          (\<lambda>snapshot. finish env snapshot now result))"

section \<open>Activity\<close>

datatype monitor_status = MsApproval | MsStarting | MsRunning | MsCompleted | MsFailed | MsCancelled | MsLost

record rule_worker =
  rw_id :: string
  rw_status :: string
  rw_is_lead :: bool
  rw_deleted_at :: "f64 option"

record rule_monitor =
  rm_agent :: string
  rm_status :: monitor_status
  rm_cancel_requested :: "bool option"

definition running_commands :: "rule_monitor list \<Rightarrow> string set" where
  "running_commands monitors =
     set (map rm_agent (filter (\<lambda>m. rm_status m = MsRunning \<and> rm_cancel_requested m \<noteq> Some True) monitors))"

definition worker_active :: "string set \<Rightarrow> rule_worker \<Rightarrow> bool" where
  "worker_active commands w =
     (\<not> rw_is_lead w \<and> \<not> (case rw_deleted_at w of None \<Rightarrow> False | Some v \<Rightarrow> \<not> f64_eq v (Finite 0))
      \<and> (rw_status w = ''starting'' \<or> rw_status w = ''running'' \<or> rw_id w \<in> commands))"

fun count_workers ::
  "(json \<Rightarrow> rule_error + rule_worker) \<Rightarrow> string set \<Rightarrow> json list \<Rightarrow> int \<Rightarrow> rule_error + int" where
  "count_workers read commands [] n = Inr n"
| "count_workers read commands (a # as) n =
     try_result (read a) (\<lambda>w. count_workers read commands as (if worker_active commands w then n + 1 else n))"

definition active_workers ::
  "(json \<Rightarrow> rule_error + rule_worker) \<Rightarrow> json list \<Rightarrow> rule_monitor list \<Rightarrow> rule_error + int" where
  "active_workers read agents monitors = count_workers read (running_commands monitors) agents 0"

end
