(* ===== verification/Rule_Decisions.thy ===== *)
theory Rule_Decisions
  imports Rule_Engine
begin

text \<open>
  What the rule engine guarantees of one decision: stored rules stay within their types, a check or
  a wake is only given to an owner that may act on it, and the forms a decision can take.
\<close>

section \<open>Types are kept\<close>

lemma rule_typed_free [simp]:
  "rule_typed (r\<lparr>rr_in_flight := b\<rparr>) = rule_typed r"
  "rule_typed (r\<lparr>rr_status := st\<rparr>) = rule_typed r"
  "rule_typed (r\<lparr>rr_error := e\<rparr>) = rule_typed r"
  "rule_typed (r\<lparr>rr_owner_hold := h\<rparr>) = rule_typed r"
  "rule_typed (r\<lparr>rr_alerted := a\<rparr>) = rule_typed r"
  "rule_typed (r\<lparr>rr_fingerprint := f\<rparr>) = rule_typed r"
  "rule_typed (r\<lparr>rr_stall_probe := p\<rparr>) = rule_typed r"
  "rule_typed (r\<lparr>rr_stall_event_key := k\<rparr>) = rule_typed r"
  "rule_typed (r\<lparr>rr_stall_text := t\<rparr>) = rule_typed r"
  "rule_typed (r\<lparr>rr_last_exit_code := c\<rparr>) = rule_typed r"
  "rule_typed (r\<lparr>rr_last_stall_exit_code := c\<rparr>) = rule_typed r"
  "rule_typed (r\<lparr>rr_last_stall_error := e\<rparr>) = rule_typed r"
  "rule_typed (r\<lparr>rr_last_event := ev\<rparr>) = rule_typed r"
  "rule_typed (r\<lparr>rr_restart_check := m\<rparr>) = rule_typed r"
  by (simp_all add: rule_typed_def)

lemma rule_typed_bounded:
  "rule_typed r \<Longrightarrow> counter_typed n \<Longrightarrow> rule_typed (r\<lparr>rr_checks := n\<rparr>)"
  "rule_typed r \<Longrightarrow> counter_typed n \<Longrightarrow> rule_typed (r\<lparr>rr_wakes := n\<rparr>)"
  "rule_typed r \<Longrightarrow> counter_typed n \<Longrightarrow> rule_typed (r\<lparr>rr_file_generation := n\<rparr>)"
  "rule_typed r \<Longrightarrow> counter_typed n \<Longrightarrow> rule_typed (r\<lparr>rr_epoch := n\<rparr>)"
  "rule_typed r \<Longrightarrow> pred_option counter_typed v \<Longrightarrow> rule_typed (r\<lparr>rr_active_workers := v\<rparr>)"
  "rule_typed r \<Longrightarrow> - 1 \<le> n \<Longrightarrow> n \<le> MAX_COUNTER \<Longrightarrow> rule_typed (r\<lparr>rr_stall_wake_generation := n\<rparr>)"
  "rule_typed r \<Longrightarrow> 0 \<le> n \<Longrightarrow> n \<le> YEAR_SECONDS \<Longrightarrow> rule_typed (r\<lparr>rr_stall_timeout_seconds := n\<rparr>)"
  "rule_typed r \<Longrightarrow> text_typed c \<Longrightarrow> rule_typed (r\<lparr>rr_liveness_command := c\<rparr>)"
  "rule_typed r \<Longrightarrow> pred_option text_typed w \<Longrightarrow> rule_typed (r\<lparr>rr_event_text := w\<rparr>)"
  "rule_typed r \<Longrightarrow> pred_option text_typed w \<Longrightarrow> rule_typed (r\<lparr>rr_last_output := w\<rparr>)"
  "rule_typed r \<Longrightarrow> pred_option intent_typed i \<Longrightarrow> rule_typed (r\<lparr>rr_launch_intent := i\<rparr>)"
  "rule_typed r \<Longrightarrow> time_typed t \<Longrightarrow> rule_typed (r\<lparr>rr_next_at := t\<rparr>)"
  "rule_typed r \<Longrightarrow> pred_option time_typed tt \<Longrightarrow> rule_typed (r\<lparr>rr_file_activity_at := tt\<rparr>)"
  "rule_typed r \<Longrightarrow> pred_option time_typed tt \<Longrightarrow> rule_typed (r\<lparr>rr_last_at := tt\<rparr>)"
  "rule_typed r \<Longrightarrow> pred_option time_typed tt \<Longrightarrow> rule_typed (r\<lparr>rr_last_finished := tt\<rparr>)"
  "rule_typed r \<Longrightarrow> pred_option time_typed tt \<Longrightarrow> rule_typed (r\<lparr>rr_last_stall_finished := tt\<rparr>)"
  "rule_typed r \<Longrightarrow> pred_option time_typed tt \<Longrightarrow> rule_typed (r\<lparr>rr_low_since := tt\<rparr>)"
  by (simp_all add: rule_typed_def)

lemma time_number_Inr: "time_number x = Inr n \<longleftrightarrow> is_finite x \<and> n = Float x"
  by (auto simp: time_number_def number_from_f64_def)

lemma time_typed_Float [simp]: "time_typed (Float x) = is_finite x"
  by (simp add: time_typed_def)

lemma rule_integer_Inr: "rule_integer lo hi v = Inr n \<longleftrightarrow> n = v \<and> v < 2 ^ 63 \<and> lo \<le> v \<and> v \<le> hi"
  by (auto simp: rule_integer_def bounded_integer_def)

lemma finite_time_Inr [simp]: "finite_time now = Inr u \<longleftrightarrow> is_finite now"
  by (simp add: finite_time_def)

lemma from_stored_Inr:
  "from_stored env r o' = Inr s \<longleftrightarrow>
     (\<exists>a. read_owner env o' = Inr a \<and> rr_agent r = ow_id a \<and> s = \<lparr>sn_raw = r, sn_owner_raw = o', sn_owner = a\<rparr>)"
  by (cases "read_owner env o'") (auto simp: from_stored_def)

lemma counter_in: "counter_typed n \<longleftrightarrow> 0 \<le> n \<and> n \<le> MAX_COUNTER"
  by (rule counter_typed_def)

lemma finish_probe_Inr:
  assumes "finish_probe env s now result = Inr d"
  obtains wake where
    "d = \<lparr>rd_record = Some ((sn_raw s)\<lparr>rr_in_flight := False, rr_stall_probe := Some False,
              rr_stall_wake_generation := rr_file_generation (sn_raw s), rr_last_stall_finished := Some (Float now),
              rr_last_stall_exit_code := cr_code result, rr_last_stall_error := cr_error result\<rparr>),
          rd_wake = wake, rd_check = None\<rparr>"
    "is_finite now" "- 1 \<le> rr_file_generation (sn_raw s)" "rr_file_generation (sn_raw s) \<le> MAX_COUNTER"
    "wake \<noteq> None \<longleftrightarrow> authorized s \<and> \<not> deleted (sn_owner s)"
    "\<And>w. wake = Some w \<Longrightarrow> Some (wk_id w) = rr_stall_event_key (sn_raw s) \<and> wk_kind w = ''rule_stall''"
  using assms unfolding finish_probe_def Let_def
  by (elim try_result_InrE) (auto simp: rule_integer_Inr time_number_Inr split: if_splits option.splits)

lemma finish_command_Inr:
  assumes "finish_command env s now result = Inr d"
  obtains wakes wake where
    "d = \<lparr>rd_record = Some ((sn_raw s)\<lparr>rr_in_flight := False, rr_last_exit_code := cr_code result,
              rr_error := cr_error result, rr_last_output := Some (tail_text (cr_output result)),
              rr_last_finished := Some (Float now), rr_wakes := wakes,
              rr_status := (if rr_kind (sn_raw s) = Once \<and> rr_status (sn_raw s) = Active then Completed
                else rr_status (sn_raw s))\<rparr>),
          rd_wake = wake, rd_check = None\<rparr>"
    "is_finite now" "text_typed (tail_text (cr_output result))"
    "wake = (if wakes_agent env s result then Some (rule_wake_of env (sn_raw s) (tail_text (cr_output result))) else None)"
    "wakes = (if wakes_agent env s result then rr_wakes (sn_raw s) + 1 else rr_wakes (sn_raw s))"
    "wakes_agent env s result \<Longrightarrow> counter_typed wakes"
proof -
  define r where "r = sn_raw s"
  define out where "out = tail_text (cr_output result)"
  define nx where "nx = r\<lparr>rr_in_flight := False, rr_last_exit_code := cr_code result, rr_error := cr_error result,
                   rr_last_output := Some out, rr_last_finished := Some (Float now)\<rparr>"
  have ok: "text_typed out" "is_finite now" and
    d: "try_result (if wakes_agent env s result
         then try_result (rule_counter (rr_wakes r + 1)) (\<lambda>wakes.
           Inr (nx\<lparr>rr_wakes := wakes\<rparr>, Some (rule_wake_of env r out)))
         else Inr (nx, None)) (\<lambda>(next, wake).
        Inr \<lparr>rd_record = Some (if rr_kind r = Once \<and> rr_status r = Active
               then next\<lparr>rr_status := Completed\<rparr> else next),
             rd_wake = wake, rd_check = None\<rparr>) = Inr d"
    using assms unfolding finish_command_def Let_def r_def[symmetric] out_def[symmetric]
    by (auto simp: time_number_Inr bounded_text_def text_typed_def nx_def Let_def split: if_splits elim!: try_result_InrE)
  show thesis
  proof (cases "wakes_agent env s result")
    case True
    with d have "counter_typed (rr_wakes r + 1)"
      by (auto elim!: try_result_InrE simp: rule_integer_Inr counter_typed_def)
    with True d ok that[of "rr_wakes r + 1"] show thesis
      by (auto elim!: try_result_InrE simp: rule_integer_Inr nx_def r_def out_def)
  next
    case False
    with d ok that[of "rr_wakes r"] show thesis by (auto simp: nx_def r_def out_def)
  qed
qed

section \<open>Forms of decisions\<close>

text \<open>What the result of a check leaves as it was.\<close>

definition finished :: "rule_record \<Rightarrow> rule_record \<Rightarrow> bool" where
  "finished r r' \<longleftrightarrow>
     \<not> rr_in_flight r' \<and> rr_id r' = rr_id r \<and> rr_agent r' = rr_agent r \<and> rr_kind r' = rr_kind r
     \<and> rr_epoch r' = rr_epoch r \<and> rr_checks r' = rr_checks r \<and> rr_restart_check r' = rr_restart_check r
     \<and> rr_owner_hold r' = rr_owner_hold r \<and> rr_next_at r' = rr_next_at r \<and> rr_command r' = rr_command r
     \<and> (rr_status r' = rr_status r \<or> rr_kind r = Once \<and> rr_status r = Active \<and> rr_status r' = Completed)"

text \<open>A wake that a finished check gives: the owner may have it, and a wake for the rule's own check is
  named after the rule and the number of the check.\<close>

definition finish_wake :: "rule_snapshot \<Rightarrow> rule_wake \<Rightarrow> bool" where
  "finish_wake s w \<longleftrightarrow> authorized s
     \<and> (if rr_stall_probe (sn_raw s) = Some True
        then wk_kind w = ''rule_stall'' \<and> Some (wk_id w) = rr_stall_event_key (sn_raw s)
        else wk_kind w = ''rule'' \<and> wk_id w = wake_id (sn_raw s))"

lemma finish_Inr:
  assumes "finish env s now result = Inr d"
  obtains r' where "rd_record d = Some r'" "rd_check d = None" "finished (sn_raw s) r'"
    "rule_typed (sn_raw s) \<Longrightarrow> rule_typed r'" "\<And>w. rd_wake d = Some w \<Longrightarrow> finish_wake s w"
proof (cases "rr_stall_probe (sn_raw s) = Some True")
  case True
  with assms have "finish_probe env s now result = Inr d"
    by (auto simp: finish_def elim!: try_result_InrE)
  then obtain wake where d: "d = \<lparr>rd_record = Some ((sn_raw s)\<lparr>rr_in_flight := False, rr_stall_probe := Some False,
              rr_stall_wake_generation := rr_file_generation (sn_raw s), rr_last_stall_finished := Some (Float now),
              rr_last_stall_exit_code := cr_code result, rr_last_stall_error := cr_error result\<rparr>),
          rd_wake = wake, rd_check = None\<rparr>"
    and n: "is_finite now" "- 1 \<le> rr_file_generation (sn_raw s)" "rr_file_generation (sn_raw s) \<le> MAX_COUNTER"
    and w: "wake \<noteq> None \<longleftrightarrow> authorized s \<and> \<not> deleted (sn_owner s)"
      "\<And>w. wake = Some w \<Longrightarrow> Some (wk_id w) = rr_stall_event_key (sn_raw s) \<and> wk_kind w = ''rule_stall''"
    by (rule finish_probe_Inr) blast
  from n have "rule_typed (sn_raw s) \<Longrightarrow> rule_typed (the (rd_record d))"
    unfolding d by (simp add: rule_typed_bounded)
  moreover have "finish_wake s u" if "rd_wake d = Some u" for u
    using that w(1) w(2)[of u] True by (auto simp: d finish_wake_def)
  ultimately show thesis by (intro that[of "the (rd_record d)"]) (auto simp: d finished_def)
next
  case False
  with assms have "finish_command env s now result = Inr d"
    by (auto simp: finish_def elim!: try_result_InrE)
  then obtain wakes wake where d: "d = \<lparr>rd_record = Some ((sn_raw s)\<lparr>rr_in_flight := False, rr_last_exit_code := cr_code result,
              rr_error := cr_error result, rr_last_output := Some (tail_text (cr_output result)),
              rr_last_finished := Some (Float now), rr_wakes := wakes,
              rr_status := (if rr_kind (sn_raw s) = Once \<and> rr_status (sn_raw s) = Active then Completed
                else rr_status (sn_raw s))\<rparr>),
          rd_wake = wake, rd_check = None\<rparr>"
    and n: "is_finite now" "text_typed (tail_text (cr_output result))"
    and w: "wake = (if wakes_agent env s result then Some (rule_wake_of env (sn_raw s) (tail_text (cr_output result))) else None)"
    and c: "wakes = (if wakes_agent env s result then rr_wakes (sn_raw s) + 1 else rr_wakes (sn_raw s))"
      "wakes_agent env s result \<Longrightarrow> counter_typed wakes"
    by (rule finish_command_Inr) blast
  have "rule_typed (sn_raw s) \<Longrightarrow> counter_typed wakes" using c by (auto simp: rule_typed_def)
  with n have "rule_typed (sn_raw s) \<Longrightarrow> rule_typed (the (rd_record d))"
    unfolding d by (simp add: rule_typed_bounded)
  moreover have "finish_wake s u" if "rd_wake d = Some u" for u
    using that False by (auto simp: d w finish_wake_def wakes_agent_def rule_wake_of_def split: if_splits)
  ultimately show thesis by (intro that[of "the (rd_record d)"]) (auto simp: d finished_def)
qed

text \<open>A snapshot as \<open>from_stored\<close> makes it; with another record of the same agent it is the same snapshot.\<close>

definition snapshot_ok :: "rule_env \<Rightarrow> rule_snapshot \<Rightarrow> bool" where
  "snapshot_ok env s \<longleftrightarrow> read_owner env (sn_owner_raw s) = Inr (sn_owner s) \<and> rr_agent (sn_raw s) = ow_id (sn_owner s)"

lemma from_stored_ok: "from_stored env r o' = Inr s \<Longrightarrow> snapshot_ok env s \<and> sn_raw s = r"
  by (auto simp: from_stored_Inr snapshot_ok_def)

lemma with_record_ok:
  "snapshot_ok env s \<Longrightarrow> rr_agent r = rr_agent (sn_raw s) \<Longrightarrow> with_record env s r = Inr (s\<lparr>sn_raw := r\<rparr>)"
  by (cases s) (auto simp: with_record_def from_stored_def snapshot_ok_def)

text \<open>
  The ways a reserved check goes on: the owner may not have it, it has no command and finishes at
  once, or its command is to be launched.
\<close>

lemma launch_Inr:
  assumes "launch env s r now = Inr d" "snapshot_ok env s" "rr_agent r = rr_agent (sn_raw s)"
  obtains
    (refused) "d = change (r\<lparr>rr_in_flight := False\<rparr>)"
      "rr_status r \<noteq> Active \<or> \<not> ow_auto_wake (sn_owner s) \<or> rr_epoch r \<noteq> ow_epoch (sn_owner s)"
  | (immediate) "finish env (s\<lparr>sn_raw := r\<rparr>) now (success (case rr_event_text r of None \<Rightarrow> [] | Some t \<Rightarrow> t)) = Inr d"
      "ck_command (check env (s\<lparr>sn_raw := r\<rparr>)) = []"
      "rr_status r = Active" "ow_auto_wake (sn_owner s)" "rr_epoch r = ow_epoch (sn_owner s)"
  | (command) "d = (change r)\<lparr>rd_check := Some (check env (s\<lparr>sn_raw := r\<rparr>))\<rparr>"
      "ck_command (check env (s\<lparr>sn_raw := r\<rparr>)) \<noteq> []"
      "rr_status r = Active" "ow_auto_wake (sn_owner s)" "rr_epoch r = ow_epoch (sn_owner s)"
proof -
  let ?s = "s\<lparr>sn_raw := r\<rparr>"
  let ?refuse = "rr_status r \<noteq> Active \<or> \<not> ow_auto_wake (sn_owner s) \<or> rr_epoch r \<noteq> ow_epoch (sn_owner s)"
  have d: "(if ?refuse then Inr (change (r\<lparr>rr_in_flight := False\<rparr>))
       else if ck_command (check env ?s) = []
       then finish env ?s now (success (case rr_event_text r of None \<Rightarrow> [] | Some t \<Rightarrow> t))
       else Inr ((change r)\<lparr>rd_check := Some (check env ?s)\<rparr>)) = Inr d"
    using assms(1) unfolding launch_def with_record_ok[OF assms(2,3)] by (simp cong: if_cong)
  consider "?refuse" | "\<not> ?refuse" "ck_command (check env ?s) = []" | "\<not> ?refuse" "ck_command (check env ?s) \<noteq> []"
    by blast
  then show thesis
  proof cases
    case 1
    with d show thesis by (intro refused) auto
  next
    case 2
    with d show thesis by (intro immediate) auto
  next
    case 3
    with d show thesis by (intro command) auto
  qed
qed

text \<open>The owner that a tick may start something for.\<close>

definition runnable :: "rule_snapshot \<Rightarrow> bool \<Rightarrow> bool" where
  "runnable s held_input \<longleftrightarrow> can_tick (sn_raw s) \<and> \<not> stopped s \<and> hold (sn_owner s) held_input = None
     \<and> \<not> recovery_pending (sn_owner s) (rr_epoch (sn_raw s))"

lemma tick_kind_Inr:
  assumes "tick_kind env s now ob = Inr d"
  obtains (nothing) "d = no_decision"
  | (low) minimum duration where "rr_kind (sn_raw s) = LowWorkers minimum duration"
      "low_workers env s now (ob_active_workers ob) minimum duration = Inr d"
  | (stall) "stalled (sn_raw s) now" "tick_stalled env s now ob = Inr d"
  | (late) "missed (sn_raw s) now" "tick_missed env (sn_raw s) now = Inr d"
  | (due) "\<not> missed (sn_raw s) now" "\<not> f64_less now (seconds (rr_next_at (sn_raw s)))"
      "rr_kind (sn_raw s) \<noteq> Event" "\<not> is_low_workers (rr_kind (sn_raw s))" "tick_due env s now ob = Inr d"
proof (cases "rr_kind (sn_raw s) = Event \<or> is_low_workers (rr_kind (sn_raw s))")
  case True
  then consider "rr_kind (sn_raw s) = Event" | m n where "rr_kind (sn_raw s) = LowWorkers m n"
    by (cases "rr_kind (sn_raw s)") auto
  then show thesis
  proof cases
    case 1
    with assms have "d = no_decision" by (simp add: tick_kind_def)
    then show thesis by (rule nothing)
  next
    case 2
    with assms show thesis by (intro low[of m n]) (simp_all add: tick_kind_def)
  qed
next
  case False
  with assms have t: "(if stalled (sn_raw s) now then tick_stalled env s now ob
          else if f64_less now (seconds (rr_next_at (sn_raw s))) then Inr no_decision
          else if missed (sn_raw s) now then tick_missed env (sn_raw s) now
          else tick_due env s now ob) = Inr d"
    unfolding tick_kind_def Let_def by (cases "rr_kind (sn_raw s)") (simp_all cong: if_cong)
  show thesis
  proof (cases "f64_less now (seconds (rr_next_at (sn_raw s))) \<and> \<not> stalled (sn_raw s) now")
    case True
    with t have "d = no_decision" by simp
    then show thesis by (rule nothing)
  next
    case f: False
    with t False stall late due show thesis by (simp split: if_splits)
  qed
qed

lemma tick_Inr:
  assumes "tick env s now ob = Inr d"
  obtains (nothing) "d = no_decision"
  | (resume) "owner_paused (sn_raw s)" "d = resume_after_owner_hold s (ob_held_input ob)"
  | (stop) "can_tick (sn_raw s)" "stopped s" "d = change ((sn_raw s)\<lparr>rr_status := Paused, rr_error := Some STOPPED\<rparr>)"
  | (held) h where "can_tick (sn_raw s)" "hold (sn_owner s) (ob_held_input ob) = Some h"
      "d = change ((sn_raw s)\<lparr>rr_status := Paused, rr_owner_hold := Some h, rr_error := Some (owner_hold_reason h)\<rparr>)"
  | (runs) "runnable s (ob_held_input ob)" "tick_kind env s now ob = Inr d" "is_finite now"
proof -
  define waits where "waits \<longleftrightarrow> \<not> deleted (sn_owner s) \<and> ow_epoch (sn_owner s) = rr_epoch (sn_raw s)
    \<and> recovery_pending (sn_owner s) (rr_epoch (sn_raw s))"
  have now: "is_finite now" and body: "(if owner_paused (sn_raw s) then Inr (resume_after_owner_hold s (ob_held_input ob))
      else if \<not> can_tick (sn_raw s) then Inr no_decision
      else if waits then Inr no_decision
      else if stopped s then Inr (change ((sn_raw s)\<lparr>rr_status := Paused, rr_error := Some STOPPED\<rparr>))
      else case hold (sn_owner s) (ob_held_input ob) of
        Some h \<Rightarrow> Inr (change ((sn_raw s)\<lparr>rr_status := Paused, rr_owner_hold := Some h, rr_error := Some (owner_hold_reason h)\<rparr>))
      | None \<Rightarrow> tick_kind env s now ob) = Inr d"
    using assms unfolding tick_def Let_def waits_def
    by (cases "is_finite now"; simp only: finite_time_def if_True if_False try_result_simps sum.distinct simp_thms)+
  consider (1) "owner_paused (sn_raw s)" | (2) "\<not> owner_paused (sn_raw s)" "\<not> can_tick (sn_raw s) \<or> waits"
    | (3) "\<not> owner_paused (sn_raw s)" "can_tick (sn_raw s)" "\<not> waits" "stopped s"
    | (4) "\<not> owner_paused (sn_raw s)" "can_tick (sn_raw s)" "\<not> waits" "\<not> stopped s" by blast
  then show thesis
  proof cases
    case 1
    with body show thesis by (intro resume) simp_all
  next
    case 2
    with body have "d = no_decision" by (simp split: if_splits)
    then show thesis by (rule nothing)
  next
    case 3
    with body show thesis by (intro stop) simp_all
  next
    case 4
    show thesis
    proof (cases "hold (sn_owner s) (ob_held_input ob)")
      case (Some h)
      with 4 body show thesis by (intro held[of h]) simp_all
    next
      case None
      with 4 have "runnable s (ob_held_input ob)" by (auto simp: runnable_def stopped_def waits_def)
      with 4 body None now show thesis by (intro runs) simp_all
    qed
  qed
qed

section \<open>What a tick or an event changes\<close>

text \<open>Only a paused rule with no check under way waits for a restarted check or for its owner.\<close>

definition rule_consistent :: "rule_record \<Rightarrow> bool" where
  "rule_consistent r \<longleftrightarrow>
     (rr_restart_check r \<noteq> None \<longrightarrow> rr_status r = Paused \<and> \<not> rr_in_flight r \<and> rr_owner_hold r = None)
     \<and> (rr_owner_hold r \<noteq> None \<longrightarrow> rr_status r = Paused \<and> \<not> rr_in_flight r)"

text \<open>A rule that its user or agent paused waits for neither.\<close>

definition user_paused :: "rule_record \<Rightarrow> bool" where
  "user_paused r \<longleftrightarrow> rr_status r = Paused \<and> rr_owner_hold r = None \<and> rr_restart_check r = None"

text \<open>
  A decision leaves the number of checks alone, or counts one new check. A new check is under way
  and given out to be launched, or it is over, and then a wake for it carries its number.
\<close>

definition same_check :: "rule_record \<Rightarrow> rule_decision \<Rightarrow> rule_record \<Rightarrow> bool" where
  "same_check r d r' \<longleftrightarrow> rr_checks r' = rr_checks r \<and> \<not> rr_in_flight r' \<and> rd_check d = None
     \<and> (\<forall>w. rd_wake d = Some w \<longrightarrow> wk_kind w \<noteq> ''rule'')"

definition new_check :: "rule_env \<Rightarrow> rule_snapshot \<Rightarrow> rule_decision \<Rightarrow> rule_record \<Rightarrow> bool" where
  "new_check env s d r' \<longleftrightarrow> rr_status (sn_raw s) = Active \<and> rr_checks r' = rr_checks (sn_raw s) + 1
     \<and> (\<forall>w. rd_wake d = Some w \<longrightarrow> wk_kind w = ''rule'' \<longrightarrow> wk_id w = wake_id r')
     \<and> (if rr_in_flight r' then rd_wake d = None \<and> rd_check d = Some (check env (s\<lparr>sn_raw := r'\<rparr>)) \<and> rr_status r' = Active
        else rd_check d = None)"

definition moves :: "rule_env \<Rightarrow> rule_snapshot \<Rightarrow> rule_decision \<Rightarrow> bool" where
  "moves env s d \<longleftrightarrow>
     (case rd_record d of
        None \<Rightarrow> rd_wake d = None \<and> rd_check d = None
      | Some r' \<Rightarrow>
          rr_id r' = rr_id (sn_raw s) \<and> rr_agent r' = rr_agent (sn_raw s)
          \<and> rr_restart_check r' = rr_restart_check (sn_raw s)
          \<and> (rule_typed (sn_raw s) \<longrightarrow> rule_typed r') \<and> (rule_consistent (sn_raw s) \<longrightarrow> rule_consistent r')
          \<and> \<not> user_paused (sn_raw s)
          \<and> (same_check (sn_raw s) d r' \<or> new_check env s d r'))"

lemma no_decision_simps [simp]:
  "rd_record no_decision = None" "rd_wake no_decision = None" "rd_check no_decision = None"
  by (simp_all add: no_decision_def)

lemma change_simps [simp]:
  "rd_record (change r) = Some r" "rd_wake (change r) = None" "rd_check (change r) = None"
  by (simp_all add: change_def)

lemma moves_nothing [simp]: "moves env s no_decision"
  by (simp add: moves_def)

lemma moves_change:
  assumes "rr_id r' = rr_id (sn_raw s)" "rr_agent r' = rr_agent (sn_raw s)"
    "rr_restart_check r' = rr_restart_check (sn_raw s)" "rr_checks r' = rr_checks (sn_raw s)" "\<not> rr_in_flight r'"
    "rule_typed (sn_raw s) \<Longrightarrow> rule_typed r'" "rule_consistent (sn_raw s) \<Longrightarrow> rule_consistent r'"
    "\<not> user_paused (sn_raw s)"
  shows "moves env s (change r')"
  using assms by (simp add: moves_def same_check_def)

lemma active_consistent: "rr_status r = Active \<Longrightarrow> rule_consistent r \<longleftrightarrow> rr_restart_check r = None \<and> rr_owner_hold r = None"
  by (auto simp: rule_consistent_def)

lemma active_not_paused: "rr_status r = Active \<Longrightarrow> \<not> user_paused r"
  by (simp add: user_paused_def)

lemma finished_paused: "finished r r' \<Longrightarrow> user_paused r \<Longrightarrow> user_paused r'"
  by (auto simp: finished_def user_paused_def)

lemma finished_consistent:
  "finished r r' \<Longrightarrow> rr_restart_check r = None \<Longrightarrow> rr_owner_hold r = None \<Longrightarrow> rule_consistent r'"
  by (simp add: finished_def rule_consistent_def)

text \<open>A new check that finishes at once, and everything that reserves a check for a running rule.\<close>

lemma finish_moves:
  assumes finish: "finish env (s\<lparr>sn_raw := r\<rparr>) now result = Inr d"
    and same: "rr_id r = rr_id (sn_raw s)" "rr_agent r = rr_agent (sn_raw s)"
      "rr_restart_check r = rr_restart_check (sn_raw s)" "rr_owner_hold r = rr_owner_hold (sn_raw s)"
    and new: "rr_checks r = rr_checks (sn_raw s) + 1" "rr_status (sn_raw s) = Active"
    and typed: "rule_typed (sn_raw s) \<Longrightarrow> rule_typed r"
  shows "moves env s d"
  using finish
proof (cases rule: finish_Inr)
  case (1 r')
  then have f: "rr_id r' = rr_id r" "rr_agent r' = rr_agent r" "rr_checks r' = rr_checks r"
    "rr_restart_check r' = rr_restart_check r" "\<not> rr_in_flight r'" by (simp_all add: finished_def)
  have "new_check env s d r'"
    using 1(2,5) f new by (auto simp: new_check_def finish_wake_def wake_id_def split: if_splits)
  moreover have "rule_consistent (sn_raw s) \<Longrightarrow> rule_consistent r'"
    using finished_consistent[of r r'] 1(3) same new(2) by (simp add: active_consistent)
  ultimately show ?thesis using 1(1,4) f same typed active_not_paused[OF new(2)] by (simp add: moves_def)
qed

lemma launch_moves:
  assumes launch: "launch env s r now = Inr d" and ok: "snapshot_ok env s"
    and same: "rr_id r = rr_id (sn_raw s)" "rr_agent r = rr_agent (sn_raw s)"
      "rr_restart_check r = rr_restart_check (sn_raw s)" "rr_owner_hold r = rr_owner_hold (sn_raw s)"
      "rr_status r = rr_status (sn_raw s)"
    and new: "rr_checks r = rr_checks (sn_raw s) + 1" "rr_in_flight r" "rr_status (sn_raw s) = Active"
    and typed: "rule_typed (sn_raw s) \<Longrightarrow> rule_typed r"
  shows "moves env s d"
  using launch ok same(2)
proof (cases rule: launch_Inr)
  case refused
  with same new typed show ?thesis by (simp add: moves_def new_check_def active_consistent active_not_paused)
next
  case immediate
  from immediate(1) same(1-4) new(1,3) typed show ?thesis by (rule finish_moves)
next
  case command
  with same new typed show ?thesis by (simp add: moves_def new_check_def active_consistent active_not_paused)
qed

lemma resume_moves:
  assumes "owner_paused (sn_raw s)"
  shows "moves env s (resume_after_owner_hold s held_input)"
proof -
  have paused: "rr_status (sn_raw s) = Paused" "\<not> rr_in_flight (sn_raw s)" "rr_owner_hold (sn_raw s) \<noteq> None"
    using assms by (simp_all add: owner_paused_def)
  then have none: "rule_consistent (sn_raw s) \<Longrightarrow> rr_restart_check (sn_raw s) = None"
    by (auto simp: rule_consistent_def)
  show ?thesis
    unfolding resume_after_owner_hold_def Let_def using paused none
    by (auto split: option.split intro!: moves_change simp: rule_typed_bounded rule_consistent_def user_paused_def)
qed

text \<open>A decision with a record, a wake that is not for a check, and nothing to launch.\<close>

lemma moves_wake:
  assumes "rr_id r' = rr_id (sn_raw s)" "rr_agent r' = rr_agent (sn_raw s)"
    "rr_restart_check r' = rr_restart_check (sn_raw s)" "rr_checks r' = rr_checks (sn_raw s)" "\<not> rr_in_flight r'"
    "rule_typed (sn_raw s) \<Longrightarrow> rule_typed r'" "rule_consistent (sn_raw s) \<Longrightarrow> rule_consistent r'"
    "wk_kind w \<noteq> ''rule''" "\<not> user_paused (sn_raw s)"
  shows "moves env s \<lparr>rd_record = Some r', rd_wake = Some w, rd_check = None\<rparr>"
  using assms by (simp add: moves_def same_check_def)

lemma low_workers_moves:
  assumes lw: "low_workers env s now workers minimum duration = Inr d"
    and ok: "snapshot_ok env s" and can: "can_tick (sn_raw s)" and now: "is_finite now"
  shows "moves env s d"
proof -
  define r where "r = sn_raw s"
  have r: "rr_status r = Active" "\<not> rr_in_flight r" using can by (simp_all add: can_tick_def r_def)
  note cons = active_consistent[OF r(1), unfolded r_def]
  obtain count where count: "workers = Some count" "0 \<le> count" "count \<le> MAX_COUNTER"
    using lw by (auto simp: low_workers_def Let_def rule_integer_Inr split: option.splits elim!: try_result_InrE)
  define nx where "nx = r\<lparr>rr_active_workers := Some count\<rparr>"
  have quiet: "moves env s (if q = r then no_decision else change q)"
    if "q = nx\<lparr>rr_low_since := t\<rparr> \<or> q = nx\<lparr>rr_low_since := t, rr_alerted := a\<rparr>" "pred_option time_typed t" for q t a
    using that r count cons unfolding nx_def
    by (auto intro!: moves_change simp: r_def rule_typed_bounded counter_typed_def rule_consistent_def active_not_paused)
  show ?thesis
  proof (cases "minimum \<le> count")
    case True
    with lw count have "d = (let q = nx\<lparr>rr_low_since := None, rr_alerted := Some False\<rparr> in if q = r then no_decision else change q)"
      by (auto simp: low_workers_def Let_def nx_def r_def rule_integer_Inr elim!: try_result_InrE)
    with quiet[of _ None "Some False"] show ?thesis by (simp add: Let_def)
  next
    case low: False
    define since where "since = low_since r now"
    define q where "q = nx\<lparr>rr_low_since := Some (Float since)\<rparr>"
    define alert where "alert \<longleftrightarrow> rr_alerted r \<noteq> Some True \<and> f64_less (f64_of_int (duration * 60)) (f64_sub now since)"
    from lw count low obtain tx where since: "is_finite since" and body: "(if alert then
          try_result (time_number now) (\<lambda>at.
          try_result (rule_counter (rr_checks r + 1)) (\<lambda>checks.
          try_result (with_record env s (q\<lparr>rr_alerted := Some True, rr_last_at := Some at, rr_checks := checks\<rparr>))
            (\<lambda>snapshot. finish env snapshot now (success tx))))
        else Inr (if q = r then no_decision else change q)) = Inr d"
      unfolding low_workers_def Let_def
      by (auto simp: rule_integer_Inr time_number_Inr nx_def[symmetric] r_def[symmetric] since_def[symmetric]
          q_def alert_def elim!: try_result_InrE cong: if_cong)
    show ?thesis
    proof (cases alert)
      case False
      with body have "d = (if q = r then no_decision else change q)" by simp
      with quiet[of q "Some (Float since)"] since show ?thesis by (simp add: q_def)
    next
      case True
      define a where "a = q\<lparr>rr_alerted := Some True, rr_last_at := Some (Float now), rr_checks := rr_checks r + 1\<rparr>"
      have w: "with_record env s a = Inr (s\<lparr>sn_raw := a\<rparr>)"
        by (rule with_record_ok[OF ok]) (simp add: a_def q_def nx_def r_def)
      from True body have f: "finish env (s\<lparr>sn_raw := a\<rparr>) now (success tx) = Inr d" "counter_typed (rr_checks r + 1)"
        using w by (auto simp: time_number_Inr rule_integer_Inr counter_typed_def a_def elim!: try_result_InrE)
      from f(1) show ?thesis
        by (rule finish_moves)
          (use f(2) count now since r in \<open>simp_all add: a_def q_def nx_def r_def[symmetric] rule_typed_bounded counter_typed_def\<close>)
    qed
  qed
qed

lemma tick_stalled_Inr:
  assumes "tick_stalled env s now ob = Inr d"
  obtains (changed) fp where "is_finite now" "counter_typed (rr_file_generation (sn_raw s) + 1)"
      "d = change ((sn_raw s)\<lparr>rr_fingerprint := fp, rr_file_activity_at := Some (Float now),
         rr_file_generation := rr_file_generation (sn_raw s) + 1\<rparr>)"
  | (reported) g w where "- 1 \<le> g" "g \<le> MAX_COUNTER" "wk_kind w = ''rule_stall''"
      "d = \<lparr>rd_record = Some ((sn_raw s)\<lparr>rr_stall_wake_generation := g\<rparr>), rd_wake = Some w, rd_check = None\<rparr>"
  | (probe) k tx where "launch env s ((sn_raw s)\<lparr>rr_in_flight := True, rr_checks := rr_checks (sn_raw s) + 1,
        rr_stall_probe := Some True, rr_stall_event_key := Some k, rr_stall_text := Some tx\<rparr>) now = Inr d"
      "counter_typed (rr_checks (sn_raw s) + 1)"
proof -
  obtain fp where fp: "fingerprint_seen ob = Inr fp"
    using assms by (auto simp: tick_stalled_def Let_def elim!: try_result_InrE)
  show thesis
  proof (cases "fp \<noteq> rr_fingerprint (sn_raw s)")
    case True
    with assms fp show thesis
      by (intro changed[of fp])
        (auto simp: tick_stalled_def Let_def time_number_Inr rule_integer_Inr counter_typed_def elim!: try_result_InrE)
  next
    case same: False
    show thesis
    proof (cases "rr_liveness_command (sn_raw s) = []")
      case True
      define tx where "tx = print_json env (JObject
              [(''message'', JString ''file unchanged''), (''name'', JString (rr_name (sn_raw s))),
               (''path'', json_option JString (rule_path (rr_kind (sn_raw s)))),
               (''quietSeconds'', quiet_seconds (sn_raw s) now), (''rule'', JString (rr_id (sn_raw s)))])"
      from assms fp same True show thesis
        by (intro reported[of "rr_file_generation (sn_raw s)" "\<lparr>wk_id = stall_id (sn_raw s), wk_kind = ''rule_stall'', wk_text = tx\<rparr>"])
          (auto simp: tick_stalled_def Let_def rule_integer_Inr tx_def elim!: try_result_InrE)
    next
      case False
      with assms fp same show thesis
        by (auto simp: tick_stalled_def Let_def rule_integer_Inr counter_typed_def elim!: try_result_InrE intro: probe)
    qed
  qed
qed

lemma tick_stalled_moves:
  assumes t: "tick_stalled env s now ob = Inr d" and ok: "snapshot_ok env s" and can: "can_tick (sn_raw s)"
  shows "moves env s d"
proof -
  have r: "rr_status (sn_raw s) = Active" "\<not> rr_in_flight (sn_raw s)" using can by (simp_all add: can_tick_def)
  from t show ?thesis
  proof (cases rule: tick_stalled_Inr)
    case (changed fp)
    then show ?thesis using r
      by (auto intro!: moves_change simp: rule_consistent_def active_not_paused rule_typed_bounded)
  next
    case (reported g w)
    then show ?thesis using r
      by (auto intro!: moves_wake simp: rule_consistent_def active_not_paused rule_typed_bounded)
  next
    case (probe k tx)
    from probe(1) ok show ?thesis by (rule launch_moves) (simp_all add: r probe(2) rule_typed_bounded)
  qed
qed

lemma tick_missed_moves:
  assumes "tick_missed env (sn_raw s) now = Inr d" "can_tick (sn_raw s)"
  shows "moves env s d"
  using assms unfolding tick_missed_def can_tick_def
  by (auto simp: rule_integer_Inr rule_consistent_def rule_typed_bounded counter_typed_def active_not_paused
      elim!: try_result_InrE intro!: moves_wake)

lemma tick_due_Inr:
  assumes "tick_due env s now ob = Inr d"
  obtains (seen) at fp where "is_finite at" "d = change ((sn_raw s)\<lparr>rr_next_at := Float at, rr_fingerprint := fp\<rparr>)"
  | (start) q where "launch env s (q\<lparr>rr_in_flight := True, rr_last_at := Some (Float now), rr_checks := rr_checks (sn_raw s) + 1\<rparr>) now = Inr d"
      "is_finite now" "counter_typed (rr_checks (sn_raw s) + 1)"
      "\<exists>at fp g. is_finite at \<and> counter_typed g \<and> (q = (sn_raw s)\<lparr>rr_next_at := Float at\<rparr>
         \<or> q = (sn_raw s)\<lparr>rr_next_at := Float at, rr_fingerprint := fp, rr_file_activity_at := Some (Float now), rr_file_generation := g\<rparr>)"
proof -
  define begin_check where "begin_check q = try_result (time_number now) (\<lambda>at.
            try_result (rule_counter (rr_checks (sn_raw s) + 1)) (\<lambda>checks.
              launch env s (q\<lparr>rr_in_flight := True, rr_last_at := Some at, rr_checks := checks\<rparr>) now))" for q
  have begun: "launch env s (q\<lparr>rr_in_flight := True, rr_last_at := Some (Float now), rr_checks := rr_checks (sn_raw s) + 1\<rparr>) now = Inr d
      \<and> is_finite now \<and> counter_typed (rr_checks (sn_raw s) + 1)" if "begin_check q = Inr d" for q
    using that by (auto simp: begin_check_def time_number_Inr rule_integer_Inr counter_typed_def elim!: try_result_InrE)
  obtain at where at: "is_finite at" and t': "(let q = (sn_raw s)\<lparr>rr_next_at := Float at\<rparr> in
      if is_file (rr_kind (sn_raw s)) then
        try_result (fingerprint_seen ob) (\<lambda>fingerprint.
        let q = q\<lparr>rr_fingerprint := fingerprint\<rparr> in
        if fingerprint = rr_fingerprint (sn_raw s) then Inr (change q)
        else try_result (time_number now) (\<lambda>at.
          try_result (rule_counter (rr_file_generation (sn_raw s) + 1)) (\<lambda>generation.
            begin_check (q\<lparr>rr_file_activity_at := Some at, rr_file_generation := generation\<rparr>))))
      else begin_check q) = Inr d"
    using assms unfolding tick_due_def Let_def begin_check_def
    by (elim try_result_InrE) (auto simp: time_number_Inr)
  show thesis
  proof (cases "is_file (rr_kind (sn_raw s))")
    case False
    with t' have "begin_check ((sn_raw s)\<lparr>rr_next_at := Float at\<rparr>) = Inr d" by (simp add: Let_def)
    from begun[OF this] at show thesis
      by (intro start[of "(sn_raw s)\<lparr>rr_next_at := Float at\<rparr>"] exI[of _ at] exI[of _ None] exI[of _ 0])
        (simp_all add: counter_typed_def MAX_COUNTER_def)
  next
    case True
    with t' obtain fp where fp: "(if fp = rr_fingerprint (sn_raw s) then Inr (change ((sn_raw s)\<lparr>rr_next_at := Float at, rr_fingerprint := fp\<rparr>))
        else try_result (time_number now) (\<lambda>n.
          try_result (rule_counter (rr_file_generation (sn_raw s) + 1)) (\<lambda>generation.
            begin_check ((sn_raw s)\<lparr>rr_next_at := Float at, rr_fingerprint := fp, rr_file_activity_at := Some n, rr_file_generation := generation\<rparr>)))) = Inr d"
      by (auto simp: Let_def elim!: try_result_InrE)
    show thesis
    proof (cases "fp = rr_fingerprint (sn_raw s)")
      case True
      with fp have "d = change ((sn_raw s)\<lparr>rr_next_at := Float at, rr_fingerprint := fp\<rparr>)" by simp
      with at show thesis by (rule seen)
    next
      case False
      define q where "q = (sn_raw s)\<lparr>rr_next_at := Float at, rr_fingerprint := fp, rr_file_activity_at := Some (Float now),
           rr_file_generation := rr_file_generation (sn_raw s) + 1\<rparr>"
      from False fp have "begin_check q = Inr d" "counter_typed (rr_file_generation (sn_raw s) + 1)"
        by (auto simp: time_number_Inr rule_integer_Inr counter_typed_def q_def elim!: try_result_InrE)
      with begun[of q] at show thesis by (intro start[of q]) (auto simp: q_def)
    qed
  qed
qed

lemma tick_due_moves:
  assumes t: "tick_due env s now ob = Inr d" and ok: "snapshot_ok env s" and can: "can_tick (sn_raw s)"
  shows "moves env s d"
proof -
  have r: "rr_status (sn_raw s) = Active" "\<not> rr_in_flight (sn_raw s)" using can by (simp_all add: can_tick_def)
  from t show ?thesis
  proof (cases rule: tick_due_Inr)
    case (seen at fp)
    then show ?thesis using r
      by (auto intro!: moves_change simp: rule_typed_bounded rule_consistent_def active_not_paused)
  next
    case (start q)
    have same: "rr_id q = rr_id (sn_raw s)" "rr_agent q = rr_agent (sn_raw s)" "rr_status q = rr_status (sn_raw s)"
        "rr_restart_check q = rr_restart_check (sn_raw s)" "rr_owner_hold q = rr_owner_hold (sn_raw s)"
        "rule_typed (sn_raw s) \<Longrightarrow> rule_typed q"
      using start(2,4) by (auto simp: rule_typed_bounded)
    from start(1) ok show ?thesis by (rule launch_moves) (simp_all add: same r start(2,3) rule_typed_bounded)
  qed
qed

lemma tick_moves:
  assumes "tick env s now ob = Inr d" "snapshot_ok env s"
  shows "moves env s d"
  using assms(1)
proof (cases rule: tick_Inr)
  case nothing
  then show ?thesis by simp
next
  case resume
  then show ?thesis using resume_moves by simp
next
  case stop
  then show ?thesis by (auto simp: can_tick_def rule_consistent_def active_not_paused intro!: moves_change)
next
  case (held h)
  then show ?thesis by (auto simp: can_tick_def rule_consistent_def active_not_paused intro!: moves_change)
next
  case runs
  then have can: "can_tick (sn_raw s)" by (simp add: runnable_def)
  from runs(2) show ?thesis
    by (cases rule: tick_kind_Inr)
      (use low_workers_moves tick_stalled_moves tick_missed_moves tick_due_moves assms(2) can runs(3) in auto)
qed

lemma event_moves:
  assumes "event env s kind body key now = Inr d" "snapshot_ok env s"
  shows "moves env s d"
proof (cases "event_starts s kind key")
  case False
  with assms(1) show ?thesis by (auto simp: event_def Let_def elim!: try_result_InrE)
next
  case True
  with assms(1) obtain b where
    l: "launch env s ((sn_raw s)\<lparr>rr_in_flight := True, rr_last_event := Some key, rr_last_at := Some (Float now),
        rr_checks := rr_checks (sn_raw s) + 1, rr_event_text := Some b\<rparr>) now = Inr d"
      "is_finite now" "counter_typed (rr_checks (sn_raw s) + 1)" "text_typed b"
    by (auto simp: event_def Let_def time_number_Inr rule_integer_Inr counter_typed_def bounded_text_def text_typed_def
        split: if_splits elim!: try_result_InrE)
  have a: "rr_status (sn_raw s) = Active" using True by (simp add: event_starts_def Let_def)
  from l(1) assms(2) show ?thesis by (rule launch_moves) (simp_all add: a l rule_typed_bounded)
qed

section \<open>What a result or a restart changes\<close>

text \<open>A result or a restart counts no check; a wake for the check carries its number, and the check
  was still open, under way or marked by a restart.\<close>

definition settles :: "rule_snapshot \<Rightarrow> rule_decision \<Rightarrow> bool" where
  "settles s d \<longleftrightarrow> rd_check d = None \<and>
     (case rd_record d of
        None \<Rightarrow> rd_wake d = None
      | Some r' \<Rightarrow>
          rr_id r' = rr_id (sn_raw s) \<and> rr_agent r' = rr_agent (sn_raw s) \<and> rr_checks r' = rr_checks (sn_raw s)
          \<and> \<not> rr_in_flight r' \<and> (rule_typed (sn_raw s) \<longrightarrow> rule_typed r')
          \<and> (rule_consistent (sn_raw s) \<longrightarrow> rule_consistent r') \<and> (user_paused (sn_raw s) \<longrightarrow> user_paused r')
          \<and> (rr_restart_check r' \<noteq> None \<longrightarrow> rr_in_flight (sn_raw s) \<or> rr_restart_check (sn_raw s) \<noteq> None)
          \<and> (\<forall>w. rd_wake d = Some w \<longrightarrow> wk_kind w = ''rule'' \<longrightarrow> wk_id w = wake_id (sn_raw s)
               \<and> (rr_in_flight (sn_raw s) \<or> rr_restart_check (sn_raw s) \<noteq> None)
               \<and> (rule_consistent (sn_raw s) \<longrightarrow> rr_restart_check r' = None)))"

lemma finish_check_Inr:
  assumes "finish_check env s c result now = Inr d" "snapshot_ok env s"
  obtains (nothing) "d = no_decision"
  | (under_way) "matches_check env s c" "rr_in_flight (sn_raw s)" "finish env s now result = Inr d"
  | (cancelled) "matches_check env s c" "rr_status (sn_raw s) = Paused" "\<not> rr_in_flight (sn_raw s)" "cr_cancelled result"
      "finish env s now result = Inr d"
  | (marked) "matches_check env s c" "rr_restart_check (sn_raw s) = Some (marker_of c)" "rr_status (sn_raw s) = Paused"
      "\<not> rr_in_flight (sn_raw s)" "\<not> deleted (sn_owner s)"
      "finish env (s\<lparr>sn_raw := (sn_raw s)\<lparr>rr_restart_check := None, rr_status := Active, rr_error := None\<rparr>\<rparr>) now result = Inr d"
proof -
  let ?r = "(sn_raw s)\<lparr>rr_restart_check := None, rr_status := Active, rr_error := None\<rparr>"
  have w: "with_record env s ?r = Inr (s\<lparr>sn_raw := ?r\<rparr>)" by (rule with_record_ok[OF assms(2)]) simp
  define skip where "skip \<longleftrightarrow> ow_epoch (sn_owner s) \<noteq> ck_epoch c \<or> ck_rule_id c \<noteq> rr_id (sn_raw s)
    \<or> ck_agent_id c \<noteq> rr_agent (sn_raw s) \<or> \<not> matches_check env s c"
  define keep where "keep \<longleftrightarrow> rr_restart_check (sn_raw s) \<noteq> Some (marker_of c) \<or> rr_status (sn_raw s) \<noteq> Paused
        \<or> ow_epoch (sn_owner s) \<noteq> ck_epoch c \<or> deleted (sn_owner s)"
  have body: "finish_check env s c result now =
      (if skip then Inr no_decision
       else if rr_in_flight (sn_raw s) then finish env s now result
       else if rr_status (sn_raw s) = Paused \<and> cr_cancelled result then finish env s now result
       else if keep then Inr no_decision
       else finish env (s\<lparr>sn_raw := ?r\<rparr>) now result)"
    unfolding finish_check_def Let_def skip_def keep_def w try_result_simps by (simp cong: if_cong)
  consider "skip" | "\<not> skip" "rr_in_flight (sn_raw s)"
    | "\<not> skip" "\<not> rr_in_flight (sn_raw s)" "rr_status (sn_raw s) = Paused" "cr_cancelled result"
    | "\<not> skip" "\<not> rr_in_flight (sn_raw s)" "\<not> (rr_status (sn_raw s) = Paused \<and> cr_cancelled result)" "keep"
    | "\<not> skip" "\<not> rr_in_flight (sn_raw s)" "\<not> (rr_status (sn_raw s) = Paused \<and> cr_cancelled result)" "\<not> keep"
    by blast
  then show thesis
  proof cases
    case 1
    with assms(1) have "d = no_decision" unfolding body by simp
    then show thesis by (rule nothing)
  next
    case 2
    with assms(1) have "finish env s now result = Inr d" unfolding body by simp
    with 2 show thesis by (intro under_way) (simp_all add: skip_def)
  next
    case 3
    with assms(1) have "finish env s now result = Inr d" unfolding body by simp
    with 3 show thesis by (intro cancelled) (simp_all add: skip_def)
  next
    case 4
    with assms(1) have "d = no_decision" unfolding body by (simp only: if_True if_False) simp
    then show thesis by (rule nothing)
  next
    case 5
    with assms(1) have "finish env (s\<lparr>sn_raw := ?r\<rparr>) now result = Inr d" unfolding body by (simp only: if_False)
    with 5 show thesis by (intro marked) (simp_all add: skip_def keep_def)
  qed
qed

lemma finish_settles:
  assumes "finish env (s\<lparr>sn_raw := r\<rparr>) now result = Inr d"
    and "rr_id r = rr_id (sn_raw s)" "rr_agent r = rr_agent (sn_raw s)" "rr_checks r = rr_checks (sn_raw s)"
    and typed: "rule_typed (sn_raw s) \<Longrightarrow> rule_typed r"
    and cons: "\<And>r'. finished r r' \<Longrightarrow> rule_consistent (sn_raw s) \<Longrightarrow> rule_consistent r'"
    and paused: "user_paused (sn_raw s) \<Longrightarrow> user_paused r"
    and mark: "rr_restart_check r \<noteq> None \<Longrightarrow> rr_restart_check (sn_raw s) \<noteq> None"
    and wake: "rr_status r = Active \<Longrightarrow> (rr_in_flight (sn_raw s) \<or> rr_restart_check (sn_raw s) \<noteq> None)
      \<and> (rule_consistent (sn_raw s) \<longrightarrow> rr_restart_check r = None)"
  shows "settles s d"
  using assms(1)
proof (cases rule: finish_Inr)
  case (1 r')
  then have f: "rr_id r' = rr_id r" "rr_agent r' = rr_agent r" "rr_checks r' = rr_checks r"
    "rr_restart_check r' = rr_restart_check r" "\<not> rr_in_flight r'" "finished r r'" by (simp_all add: finished_def)
  have "wk_id w = wake_id (sn_raw s) \<and> rr_status r = Active" if "rd_wake d = Some w" "wk_kind w = ''rule''" for w
    using 1(5)[OF that(1)] that(2) assms(2,4)
    by (auto simp: finish_wake_def wake_id_def authorized_def split: if_splits)
  then show ?thesis
    using 1 f assms(2-4) typed cons[OF f(6)] finished_paused[OF f(6)] paused mark wake by (simp add: settles_def)
qed

lemma finish_check_settles:
  assumes "finish_check env s c result now = Inr d" "snapshot_ok env s"
  shows "settles s d"
  using assms
proof (cases rule: finish_check_Inr)
  case nothing
  then show ?thesis by (simp add: settles_def)
next
  case under_way
  have c: "rule_consistent (sn_raw s) \<Longrightarrow> rr_restart_check (sn_raw s) = None \<and> rr_owner_hold (sn_raw s) = None"
    using under_way(2) by (auto simp: rule_consistent_def)
  from under_way(3) have "finish env (s\<lparr>sn_raw := sn_raw s\<rparr>) now result = Inr d" by simp
  then show ?thesis by (rule finish_settles) (use c under_way(2) finished_consistent in auto)
next
  case cancelled
  have c: "rule_consistent r'" if "finished (sn_raw s) r'" "rule_consistent (sn_raw s)" for r'
    using that cancelled(2) by (auto simp: rule_consistent_def finished_def)
  from cancelled(5) have "finish env (s\<lparr>sn_raw := sn_raw s\<rparr>) now result = Inr d" by simp
  then show ?thesis by (rule finish_settles) (use c cancelled(2) in auto)
next
  case marked
  have c: "rule_consistent (sn_raw s) \<Longrightarrow> rr_owner_hold (sn_raw s) = None"
    using marked(2) by (auto simp: rule_consistent_def)
  from marked(6) show ?thesis
    by (rule finish_settles) (use c marked(2) finished_consistent in \<open>auto simp: user_paused_def\<close>)
qed

lemma recovered_keeps:
  "rr_id (recovered env s at) = rr_id (sn_raw s)" "rr_agent (recovered env s at) = rr_agent (sn_raw s)"
  "rr_checks (recovered env s at) = rr_checks (sn_raw s)" "\<not> rr_in_flight (recovered env s at)"
  "rr_kind (recovered env s at) = rr_kind (sn_raw s)" "rr_owner_hold (recovered env s at) = rr_owner_hold (sn_raw s)"
  "rr_epoch (recovered env s at) = rr_epoch (sn_raw s)"
  by (simp_all add: recovered_def Let_def)

lemma recovered_restart:
  "rr_restart_check (recovered env s at) =
     (if rr_in_flight (sn_raw s)
      then if rr_status (sn_raw s) = Active then Some (restart_marker env s) else None
      else rr_restart_check (sn_raw s))"
  "rr_status (recovered env s at) = (if rr_in_flight (sn_raw s) then Paused else rr_status (sn_raw s))"
  by (simp_all add: recovered_def Let_def)

lemma recovered_typed: "rule_typed (sn_raw s) \<Longrightarrow> time_typed at \<Longrightarrow> rule_typed (recovered env s at)"
  by (simp add: recovered_def Let_def rule_typed_bounded counter_typed_def MAX_COUNTER_def YEAR_SECONDS_def
      DEFAULT_RULE_STALL_SECONDS_def text_typed_def chars_count_def)

lemma recover_Inr:
  assumes "recover env s now = Inr d"
  obtains "is_finite now" "d = (if recovered env s (Float now) = sn_raw s then no_decision else change (recovered env s (Float now)))"
  using assms by (auto simp: recover_def time_number_Inr Let_def elim!: try_result_InrE)

lemma recover_settles:
  assumes "recover env s now = Inr d"
  shows "settles s d" "rd_wake d = None"
proof -
  obtain d': "is_finite now" "d = (if recovered env s (Float now) = sn_raw s then no_decision else change (recovered env s (Float now)))"
    using assms by (rule recover_Inr)
  then show "rd_wake d = None" by simp
  have "rule_consistent (sn_raw s) \<Longrightarrow> rule_consistent (recovered env s (Float now))"
    by (auto simp: rule_consistent_def recovered_keeps recovered_restart)
  moreover have "user_paused (sn_raw s) \<Longrightarrow> user_paused (recovered env s (Float now))"
    by (simp add: user_paused_def recovered_keeps recovered_restart)
  ultimately show "settles s d" using d'
      recovered_typed[of s "Float now" env] by (simp add: settles_def recovered_keeps recovered_restart)
qed

end
