(* ===== verification/Rule_Actions.thy ===== *)
theory Rule_Actions
  imports Rule_Engine
begin

text \<open>
  What users and agents do to rules: the checked save shared by both ways in
  (\<open>runtime-services/src/rules.rs\<close>), the transaction of \<open>POST /api/rules\<close>
  (\<open>runtime-http/src/routes/rules.rs\<close>), and the part of the managed tool's transaction that acts on the
  rule (\<open>runtime-services/src/managed_status_watch.rs\<close>). A transaction is given what it reads and
  answers with what it writes: a rule to put, a rule to delete, or nothing.
\<close>

section \<open>Names of actions\<close>

datatype rule_action_name = RaSave | RaPause | RaResume | RaDelete

definition ALL_ACTIONS :: "rule_action_name list" where
  "ALL_ACTIONS = [RaSave, RaPause, RaResume, RaDelete]"

fun action_str :: "rule_action_name \<Rightarrow> string" where
  "action_str RaSave = ''save''"
| "action_str RaPause = ''pause''"
| "action_str RaResume = ''resume''"
| "action_str RaDelete = ''delete''"

definition action_parse :: "string \<Rightarrow> rule_action_name option" where
  "action_parse s = List.find (\<lambda>a. action_str a = s) ALL_ACTIONS"

text \<open>\<open>visible_rules\<close>: the rules whose agent is not deleted, in order; agents as \<open>(id, deleted)\<close>.\<close>

fun visible_rules :: "rule_record list \<Rightarrow> (string \<times> bool) list \<Rightarrow> string + rule_record list" where
  "visible_rules [] agents = Inr []"
| "visible_rules (r # rs) agents =
     (case om_get (foldl (\<lambda>m (i, d). om_insert i d m) [] agents) (rr_agent r) of
        None \<Rightarrow> Inl (rr_id r)
      | Some gone \<Rightarrow> try_result (visible_rules rs agents) (\<lambda>rest. Inr (if gone then rest else r # rest)))"

section \<open>Checked saves\<close>

datatype rule_save_error =
    SeKind | SeMinimum | SeDuration | SeInterval | SeStall | SeAt | SeEvent | SeCommand | SeLiveness
  | SeName | SeText | SeLead | SeInteger | SeInputText

datatype rule_time_input = CheckedAt f64 | UncheckedAt f64

datatype rule_save_order = Http | Managed

record rule_save_input =
  si_kind :: string
  si_minimum :: "rule_save_error + json_number option"
  si_duration :: "rule_save_error + json_number option"
  si_interval :: "rule_save_error + int"
  si_stall :: "rule_save_error + int"
  si_at :: rule_time_input
  si_event :: string
  si_command :: "rule_save_error + string"
  si_liveness :: "rule_save_error + string"
  si_name :: "rule_save_error + string"
  si_text :: "rule_save_error + string"

datatype save_kind =
    SkInterval | SkOnce | SkFile int string | SkEvent | SkLowWorkers "json_number option" "json_number option"

datatype save_event = SvWorkerCompleted | SvMonitorExit | SvWorkReview | SvComplaint

record rule_save_fields =
  sf_kind :: save_kind
  sf_interval :: int
  sf_at :: f64
  sf_event :: save_event
  sf_command :: string
  sf_name :: string
  sf_text :: string

fun event_str :: "save_event \<Rightarrow> string" where
  "event_str SvWorkerCompleted = ''worker_completed''"
| "event_str SvMonitorExit = ''monitor_exit''"
| "event_str SvWorkReview = ''work_review''"
| "event_str SvComplaint = ''complaint''"

fun kind_str :: "save_kind \<Rightarrow> string" where
  "kind_str SkInterval = ''interval''"
| "kind_str SkOnce = ''once''"
| "kind_str (SkFile _ _) = ''file''"
| "kind_str SkEvent = ''event''"
| "kind_str (SkLowWorkers _ _) = ''low_workers''"

fun kind_stall :: "save_kind \<Rightarrow> int" where
  "kind_stall (SkFile stall _) = stall"
| "kind_stall _ = 0"

fun kind_liveness :: "save_kind \<Rightarrow> string" where
  "kind_liveness (SkFile _ liveness) = liveness"
| "kind_liveness _ = []"

definition time_check :: "f64 \<Rightarrow> f64 \<Rightarrow> rule_save_error + f64" where
  "time_check v now =
     (if \<not> is_finite v \<or> f64_less v (f64_sub now (f64_of_int 1)) \<or> f64_less (f64_add now (f64_of_int YEAR_SECONDS)) v
      then Inl SeAt else Inr v)"

definition require :: "bool \<Rightarrow> rule_save_error \<Rightarrow> rule_save_error + unit" where
  "require b e = (if b then Inr () else Inl e)"

definition within :: "int \<Rightarrow> int \<Rightarrow> json_number option \<Rightarrow> bool" where
  "within lo hi v =
     (case v of
        None \<Rightarrow> True
      | Some n \<Rightarrow> f64_le (f64_of_int lo) (number_f64 n) \<and> f64_le (number_f64 n) (f64_of_int hi))"

definition SAVE_KINDS :: "string list" where
  "SAVE_KINDS = [''interval'', ''once'', ''file'', ''event'', ''low_workers'']"

definition save_event_of :: "string \<Rightarrow> rule_save_error + save_event" where
  "save_event_of s =
     (if s = ''worker_completed'' then Inr SvWorkerCompleted
      else if s = ''monitor_exit'' then Inr SvMonitorExit
      else if s = ''work_review'' then Inr SvWorkReview
      else if s = ''complaint'' then Inr SvComplaint
      else Inl SeEvent)"

definition save_kind_of ::
  "string \<Rightarrow> int \<Rightarrow> string \<Rightarrow> json_number option \<Rightarrow> json_number option \<Rightarrow> rule_save_error + save_kind" where
  "save_kind_of kind stall liveness minimum duration =
     (if kind = ''interval'' then Inr SkInterval
      else if kind = ''once'' then Inr SkOnce
      else if kind = ''file'' then Inr (SkFile stall liveness)
      else if kind = ''event'' then Inr SkEvent
      else if kind = ''low_workers'' then Inr (SkLowWorkers minimum duration)
      else Inl SeKind)"

definition check_if :: "bool \<Rightarrow> rule_save_error + unit \<Rightarrow> rule_save_error + unit" where
  "check_if b r = (if b then r else Inr ())"

definition empty_text :: "rule_save_error + string \<Rightarrow> rule_save_error \<Rightarrow> rule_save_error + unit" where
  "empty_text v e = try_result v (\<lambda>s. require (s = []) e)"

definition some_text :: "rule_save_error + string \<Rightarrow> rule_save_error \<Rightarrow> rule_save_error + string" where
  "some_text v e = try_result v (\<lambda>s. if s = [] then Inl e else Inr s)"

definition checked_low_workers ::
  "rule_save_input \<Rightarrow> json_number option \<Rightarrow> json_number option \<Rightarrow> bool \<Rightarrow> rule_save_order \<Rightarrow> rule_save_error + unit" where
  "checked_low_workers input minimum duration is_lead order =
     try_result (require is_lead SeLead) (\<lambda>_.
     try_result (require (within 1 255 minimum) SeMinimum) (\<lambda>_.
     try_result (require (within 1 YEAR_MINUTES duration) SeDuration) (\<lambda>_.
       check_if (order = Managed) (empty_text (si_command input) SeCommand))))"

definition checked_rule_save ::
  "rule_save_input \<Rightarrow> f64 \<Rightarrow> bool \<Rightarrow> rule_save_order \<Rightarrow> rule_save_error + rule_save_fields" where
  "checked_rule_save input now is_lead order =
     (let kind = si_kind input in
      try_result (require (kind \<in> set SAVE_KINDS) SeKind) (\<lambda>_.
      try_result (si_minimum input) (\<lambda>minimum.
      try_result (si_duration input) (\<lambda>duration.
      try_result (check_if (order = Http \<and> kind = ''low_workers'') (empty_text (si_command input) SeCommand)) (\<lambda>_.
      try_result (check_if (order = Http \<and> kind \<noteq> ''file'') (empty_text (si_liveness input) SeLiveness)) (\<lambda>_.
      try_result (check_if (kind = ''low_workers'') (checked_low_workers input minimum duration is_lead order)) (\<lambda>_.
      try_result (si_interval input) (\<lambda>interval.
      try_result (require (10 \<le> interval \<and> interval \<le> YEAR_SECONDS) SeInterval) (\<lambda>_.
      try_result (si_stall input) (\<lambda>stall.
      try_result (require (0 \<le> stall \<and> stall \<le> YEAR_SECONDS) SeStall) (\<lambda>_.
      try_result (case si_at input of CheckedAt v \<Rightarrow> Inr v | UncheckedAt v \<Rightarrow> time_check v now) (\<lambda>at.
      try_result (save_event_of (si_event input)) (\<lambda>ev.
      try_result (si_command input) (\<lambda>command.
      try_result (si_liveness input) (\<lambda>liveness.
      try_result (require (\<not> (order = Managed \<and> kind \<noteq> ''file'' \<and> liveness \<noteq> [])) SeLiveness) (\<lambda>_.
      try_result (check_if (order = Http) (try_result (some_text (si_text input) SeText) (\<lambda>_. Inr ()))) (\<lambda>_.
      try_result (some_text (si_name input) SeName) (\<lambda>name.
      try_result (some_text (si_text input) SeText) (\<lambda>body.
      try_result (save_kind_of kind stall liveness minimum duration) (\<lambda>skind.
        Inr \<lparr>sf_kind = skind, sf_interval = interval, sf_at = at, sf_event = ev,
             sf_command = str_trim command, sf_name = name, sf_text = body\<rparr>))))))))))))))))))))"

section \<open>Records of saves\<close>

text \<open>The part of an agent record that a save reads.\<close>

record rule_actor =
  ac_id :: string
  ac_root_id :: string
  ac_epoch :: int
  ac_auto_wake :: "bool option"
  ac_is_lead :: "bool option"

record rule_context =
  cx_id :: string
  cx_actor :: rule_actor
  cx_previous :: "rule_record option"
  cx_path :: "string option"
  cx_fingerprint :: "fingerprint option"
  cx_now :: f64

definition or_error :: "'a option \<Rightarrow> rule_save_error \<Rightarrow> rule_save_error + 'a" where
  "or_error v e = (case v of None \<Rightarrow> Inl e | Some x \<Rightarrow> Inr x)"

definition rule_bound :: "int \<Rightarrow> int \<Rightarrow> json_number option \<Rightarrow> rule_save_error \<Rightarrow> rule_save_error + int" where
  "rule_bound lo hi v e =
     (case v of
        None \<Rightarrow> Inl e
      | Some n \<Rightarrow>
          if fract_is_zero (number_f64 n) then or_error (bounded_integer lo hi (f64_as_i64 (number_f64 n))) e
          else Inl e)"

definition stored_kind :: "save_kind \<Rightarrow> string option \<Rightarrow> rule_save_error + rule_kind" where
  "stored_kind k path =
     (case k of
        SkInterval \<Rightarrow> Inr Interval
      | SkOnce \<Rightarrow> Inr Once
      | SkEvent \<Rightarrow> Inr Event
      | SkFile _ _ \<Rightarrow> try_result (or_error path SeInputText) (\<lambda>p. Inr (File p))
      | SkLowWorkers minimum duration \<Rightarrow>
          try_result (rule_bound 1 255 minimum SeMinimum) (\<lambda>m.
          try_result (rule_bound 1 YEAR_MINUTES duration SeDuration) (\<lambda>d. Inr (LowWorkers m d))))"

definition previous_or :: "(rule_record \<Rightarrow> 'a) \<Rightarrow> 'a \<Rightarrow> rule_record option \<Rightarrow> 'a" where
  "previous_or f v previous = (case previous of None \<Rightarrow> v | Some r \<Rightarrow> f r)"

definition persisted_rule :: "rule_save_fields \<Rightarrow> rule_context \<Rightarrow> rule_save_error + rule_record" where
  "persisted_rule f cx =
     (let actor = cx_actor cx; previous = cx_previous cx in
      try_result (stored_kind (sf_kind f) (cx_path cx)) (\<lambda>kind.
      try_result (or_error (number_from_f64 (cx_now cx)) SeAt) (\<lambda>now.
      try_result (or_error (bounded_integer 0 MAX_COUNTER (ac_epoch actor)) SeInteger) (\<lambda>epoch.
      try_result (or_error (bounded_text 0 RULE_NAME (sf_name f)) SeName) (\<lambda>name.
      try_result (or_error (bounded_integer 10 YEAR_SECONDS (sf_interval f)) SeInterval) (\<lambda>interval.
      try_result (or_error (number_from_f64 (sf_at f)) SeAt) (\<lambda>at.
      try_result (or_error (bounded_text 0 RULE_TEXT (sf_command f)) SeCommand) (\<lambda>command.
      try_result (or_error (bounded_integer 0 YEAR_SECONDS (kind_stall (sf_kind f))) SeStall) (\<lambda>stall.
      try_result (or_error (bounded_text 0 RULE_TEXT (kind_liveness (sf_kind f))) SeLiveness) (\<lambda>liveness.
        Inr \<lparr>rr_active_workers = None, rr_agent = ac_id actor,
             rr_alerted = (if is_low_workers kind then Some False else None), rr_at = Some at,
             rr_checks = previous_or rr_checks 0 previous, rr_command = command,
             rr_created = previous_or rr_created now previous, rr_epoch = epoch, rr_error = None,
             rr_event = event_str (sf_event f), rr_event_text = None,
             rr_file_activity_at = Some (case previous_or rr_file_activity_at None previous of Some t \<Rightarrow> t | None \<Rightarrow> now),
             rr_file_generation = previous_or rr_file_generation 0 previous,
             rr_fingerprint = (case sf_kind f of SkFile _ _ \<Rightarrow> cx_fingerprint cx | _ \<Rightarrow> None),
             rr_id = cx_id cx, rr_in_flight = False, rr_interval_seconds = interval, rr_kind = kind,
             rr_last_at = None, rr_last_event = None, rr_last_exit_code = None, rr_last_finished = None,
             rr_last_output = None, rr_last_stall_error = None, rr_last_stall_exit_code = None,
             rr_last_stall_finished = None, rr_launch_intent = None, rr_liveness_command = liveness,
             rr_low_since = None, rr_name = name, rr_next_at = at, rr_owner_hold = None,
             rr_restart_check = None, rr_root_id = Some (ac_root_id actor), rr_stall_event_key = None,
             rr_stall_probe = None, rr_stall_text = None, rr_stall_timeout_seconds = stall,
             rr_stall_wake_generation = previous_or rr_stall_wake_generation (- 1) previous,
             rr_status = (if ac_auto_wake actor = Some True then Active else Paused),
             rr_text = sf_text f, rr_wakes = previous_or rr_wakes 0 previous\<rparr>))))))))))"

definition low_worker_rule_unchanged :: "rule_record \<Rightarrow> rule_record \<Rightarrow> bool" where
  "low_worker_rule_unchanged old new =
     (rr_kind old = rr_kind new \<and> rr_name old = rr_name new \<and> rr_text old = rr_text new \<and> rr_epoch old = rr_epoch new)"

section \<open>The HTTP action\<close>

datatype rule_write = NoWrite | PutRule rule_record | DeleteRule string

datatype http_error =
    UnknownAgent | InvalidAgent string | AgentChanged | RuleChanged | OtherAgentsRule | SaveInFlight
  | ResumeInFlight | UnknownRule | ResumeAgentFirst | PathMissing | SaveRefused rule_save_error | Internal

datatype rule_write_response = Deleted string | Record rule_record

text \<open>The body of a save, with the checked time and the path found before the transaction. Numbers
  that are no \<open>u64\<close> count as missing.\<close>

record rule_body =
  bo_kind :: "string option"
  bo_name :: "string option"
  bo_text :: "string option"
  bo_command :: "string option"
  bo_path :: "string option"
  bo_liveness_command :: "string option"
  bo_interval_seconds :: "json_number option"
  bo_stall_timeout_seconds :: "json_number option"
  bo_stall_alias :: "json_number option"
  bo_minimum_workers :: "json_number option"
  bo_duration_minutes :: "json_number option"
  bo_event :: "string option"

datatype rule_action = Save rule_body | Pause | Resume | Delete

definition option_or :: "'a option \<Rightarrow> 'a \<Rightarrow> 'a" where
  "option_or v d = (case v of None \<Rightarrow> d | Some x \<Rightarrow> x)"

definition number_u64_or :: "json_number option \<Rightarrow> int \<Rightarrow> int" where
  "number_u64_or v d = (case v of Some (PosInt n) \<Rightarrow> uint n | _ \<Rightarrow> d)"

text \<open>\<open>n as i64\<close> for a \<open>u64\<close>.\<close>

definition u64_as_i64 :: "int \<Rightarrow> int" where
  "u64_as_i64 n = (if n < 2 ^ 63 then n else n - 2 ^ 64)"

definition DEFAULT_TEXT :: string where
  "DEFAULT_TEXT = ''Check this event and continue the original task.''"

definition http_save_input :: "rule_body \<Rightarrow> f64 \<Rightarrow> rule_save_input" where
  "http_save_input b at =
     \<lparr>si_kind = option_or (bo_kind b) ''interval'',
      si_minimum = Inr (Some (option_or (bo_minimum_workers b) (PosInt 8))),
      si_duration = Inr (Some (option_or (bo_duration_minutes b) (PosInt 30))),
      si_interval = Inr (u64_as_i64 (number_u64_or (bo_interval_seconds b) 60)),
      si_stall = Inr (u64_as_i64 (number_u64_or
        (case bo_stall_timeout_seconds b of Some n \<Rightarrow> Some n | None \<Rightarrow> bo_stall_alias b) 1800)),
      si_at = CheckedAt at, si_event = option_or (bo_event b) ''worker_completed'',
      si_command = Inr (option_or (bo_command b) []),
      si_liveness = Inr (str_trim (option_or (bo_liveness_command b) [])),
      si_name = Inr (case bo_name b of None \<Rightarrow> [] | Some n \<Rightarrow> str_trim n),
      si_text = Inr (str_trim (option_or (bo_text b) DEFAULT_TEXT))\<rparr>"

definition number :: "f64 \<Rightarrow> http_error + json_number" where
  "number x = (case number_from_f64 x of None \<Rightarrow> Inl Internal | Some n \<Rightarrow> Inr n)"

definition saturating_i64 :: "int \<Rightarrow> int" where
  "saturating_i64 n = max (- (2 ^ 63)) (min (2 ^ 63 - 1) n)"

definition http_integer :: "int \<Rightarrow> int \<Rightarrow> int \<Rightarrow> http_error + int" where
  "http_integer lo hi n = (case bounded_integer lo hi n of None \<Rightarrow> Inl Internal | Some m \<Rightarrow> Inr m)"

text \<open>A resumed file rule watches from now on: a new generation, with no stall reported for it.\<close>

definition restart_watch :: "rule_record \<Rightarrow> fingerprint option \<Rightarrow> f64 \<Rightarrow> http_error + rule_record" where
  "restart_watch r fp now =
     (let generation = saturating_i64 (rr_file_generation r + 1) in
      try_result (number now) (\<lambda>at.
      try_result (http_integer 0 MAX_COUNTER generation) (\<lambda>file_generation.
      try_result (http_integer (- 1) MAX_COUNTER (saturating_i64 (generation - 1))) (\<lambda>stall_generation.
        Inr (r\<lparr>rr_file_activity_at := Some at, rr_fingerprint := fp, rr_file_generation := file_generation,
               rr_stall_wake_generation := stall_generation\<rparr>)))))"

definition http_change ::
  "rule_status \<Rightarrow> rule_actor \<Rightarrow> rule_record \<Rightarrow> fingerprint option \<Rightarrow> f64 \<Rightarrow> http_error + rule_record" where
  "http_change desired actor rule fp now =
     try_result (http_integer 0 MAX_COUNTER (ac_epoch actor)) (\<lambda>epoch.
     try_result (number (f64_add now (f64_of_int (rr_interval_seconds rule)))) (\<lambda>next_at.
     let rule = rule\<lparr>rr_status := desired, rr_epoch := epoch, rr_next_at := next_at, rr_error := None\<rparr> in
     try_result (if desired = Active \<and> is_file (rr_kind rule) then restart_watch rule fp now else Inr rule) (\<lambda>rule.
       Inr (if is_low_workers (rr_kind rule) then rule\<lparr>rr_low_since := None, rr_alerted := Some False\<rparr> else rule))))"

definition http_control ::
  "rule_status \<Rightarrow> rule_actor \<Rightarrow> rule_record \<Rightarrow> fingerprint option \<Rightarrow> f64 \<Rightarrow> http_error + rule_record \<times> rule_write" where
  "http_control desired actor rule fp now =
     (let owner_held = (rr_owner_hold rule \<noteq> None);
          rule = rule\<lparr>rr_owner_hold := None, rr_restart_check := None\<rparr> in
      if owner_held \<or> \<not> is_low_workers (rr_kind rule) \<or> rr_status rule \<noteq> desired \<or> rr_epoch rule \<noteq> ac_epoch actor
      then try_result (http_change desired actor rule fp now) (\<lambda>rule. Inr (rule, PutRule rule))
      else Inr (rule, NoWrite))"

definition http_save ::
  "rule_body \<Rightarrow> f64 option \<Rightarrow> rule_actor \<Rightarrow> string \<Rightarrow> rule_record option \<Rightarrow> string option \<Rightarrow> fingerprint option \<Rightarrow> f64 \<Rightarrow>
     http_error + rule_record \<times> rule_write" where
  "http_save b checked_at actor rule_id old path fp now =
     (if option_or (bo_kind b) ''interval'' = ''file'' \<and> (case bo_path b of None \<Rightarrow> True | Some p \<Rightarrow> str_trim p = [])
      then Inl PathMissing
      else
        try_result (case checked_at of None \<Rightarrow> Inl Internal | Some at \<Rightarrow> Inr at) (\<lambda>at.
        case checked_rule_save (http_save_input b at) now (ac_is_lead actor = Some True) Http of
          Inl e \<Rightarrow> Inl (SaveRefused e)
        | Inr saved \<Rightarrow>
            (case persisted_rule saved
                \<lparr>cx_id = rule_id, cx_actor = actor, cx_previous = old, cx_path = path, cx_fingerprint = fp, cx_now = now\<rparr> of
               Inl e \<Rightarrow> Inl (SaveRefused e)
             | Inr rule \<Rightarrow>
                 let low = (kind_str (sf_kind saved) = ''low_workers'') in
                 (case (case old of None \<Rightarrow> None
                        | Some previous \<Rightarrow> if low \<and> low_worker_rule_unchanged previous rule then Some previous else None) of
                    Some previous \<Rightarrow> Inr (previous, NoWrite)
                  | None \<Rightarrow>
                      try_result (if low then try_result (number now) (\<lambda>at. Inr (rule\<lparr>rr_next_at := at\<rparr>)) else Inr rule)
                        (\<lambda>rule. Inr (rule, PutRule rule))))))"

text \<open>What the transaction reads again and compares with what was prepared before it.\<close>

definition validate_agent :: "string \<Rightarrow> json \<Rightarrow> bool" where
  "validate_agent i v =
     (Option.bind (json_get v ''id'') as_str = Some i
      \<and> Option.bind (json_get v ''epoch'') as_u64 \<noteq> None
      \<and> (case json_get v ''deletedAt'' of None \<Rightarrow> True | Some d \<Rightarrow> d = JNull))"

definition http_update ::
  "rule_action \<Rightarrow> f64 \<Rightarrow> f64 option \<Rightarrow> string \<Rightarrow> json \<Rightarrow> rule_record option \<Rightarrow> string option \<Rightarrow> fingerprint option \<Rightarrow>
     (rule_actor \<times> json) option \<Rightarrow> rule_record option \<Rightarrow> string list \<Rightarrow>
     http_error + rule_write_response \<times> rule_write \<times> string list" where
  "http_update action now checked_at rule_id prepared_agent prepared_old path fp agent old active_checks =
     (case agent of
        None \<Rightarrow> Inl UnknownAgent
      | Some (actor, agent_value) \<Rightarrow>
          if \<not> validate_agent (ac_id actor) agent_value then Inl (InvalidAgent (ac_id actor))
          else if agent_value \<noteq> prepared_agent then Inl AgentChanged
          else if old \<noteq> prepared_old then Inl RuleChanged
          else if (case old of None \<Rightarrow> False | Some r \<Rightarrow> rr_agent r \<noteq> ac_id actor) then Inl OtherAgentsRule
          else
            let in_flight = (case old of None \<Rightarrow> False | Some r \<Rightarrow> rr_in_flight r) in
            (case action of
               Save b \<Rightarrow>
                 if in_flight then Inl SaveInFlight
                 else try_result (http_save b checked_at actor rule_id old path fp now)
                   (\<lambda>(rule, w). Inr (Record rule, w, []))
             | Delete \<Rightarrow>
                 (case old of
                    None \<Rightarrow> Inl UnknownRule
                  | Some rule \<Rightarrow> Inr (Deleted rule_id, DeleteRule rule_id, active_checks))
             | Pause \<Rightarrow>
                 (case old of
                    None \<Rightarrow> Inl UnknownRule
                  | Some rule \<Rightarrow> try_result (http_control Paused actor rule fp now)
                      (\<lambda>(rule, w). Inr (Record rule, w, active_checks)))
             | Resume \<Rightarrow>
                 if in_flight then Inl ResumeInFlight
                 else (case old of
                    None \<Rightarrow> Inl UnknownRule
                  | Some rule \<Rightarrow>
                      if Option.bind (json_get agent_value ''autoWake'') as_bool \<noteq> Some True then Inl ResumeAgentFirst
                      else try_result (http_control Active actor rule fp now)
                        (\<lambda>(rule, w). Inr (Record rule, w, [])))))"

section \<open>The managed tool's action\<close>

datatype managed_error =
    MeOtherAgent | MeInFlightEdit | MeInFlightResume | MeUnknownRule | MeResumeAgentFirst | MeRule | MeTime
  | MeSave rule_save_error

record managed_body =
  mb_kind :: string
  mb_minimum_workers :: "int option"
  mb_duration_minutes :: "int option"
  mb_interval_seconds :: "int option"
  mb_stall_timeout_seconds :: "int option"
  mb_stall_alias :: "int option"
  mb_at :: "f64 option"
  mb_event :: "string option"
  mb_command :: "string option"
  mb_liveness_command :: "string option"
  mb_liveness_alias :: "string option"
  mb_name :: "string option"
  mb_text :: "string option"

datatype managed_action = ManagedSave managed_body | ManagedPause | ManagedResume | ManagedDelete

definition rule_text :: "string option \<Rightarrow> nat \<Rightarrow> bool \<Rightarrow> string option" where
  "rule_text field maximum allow_empty =
     (case field of
        None \<Rightarrow> None
      | Some s \<Rightarrow> let v = str_trim s in
          if maximum < chars_count v \<or> \<not> allow_empty \<and> v = [] then None else Some v)"

definition rule_empty_text :: "string option \<Rightarrow> nat \<Rightarrow> string option" where
  "rule_empty_text field maximum = (if field \<noteq> None then rule_text field maximum True else Some [])"

definition json_number_i64 :: "int \<Rightarrow> json_number" where
  "json_number_i64 n = (if 0 \<le> n then PosInt (word_of_int n) else NegInt n)"

definition check_save ::
  "managed_body \<Rightarrow> rule_record option \<Rightarrow> rule_actor \<Rightarrow> f64 \<Rightarrow> managed_error + rule_save_fields" where
  "check_save b old actor now =
     (if (case old of None \<Rightarrow> False | Some r \<Rightarrow> rr_in_flight r) then Inl MeInFlightEdit
      else
        let interval = option_or (mb_interval_seconds b) 60;
            stall = option_or (case mb_stall_timeout_seconds b of Some n \<Rightarrow> Some n | None \<Rightarrow> mb_stall_alias b) 1800;
            liveness_field = (if mb_liveness_command b \<noteq> None then mb_liveness_command b else mb_liveness_alias b) in
        (case checked_rule_save
           \<lparr>si_kind = mb_kind b,
            si_minimum = Inr (Some (json_number_i64 (option_or (mb_minimum_workers b) 8))),
            si_duration = Inr (Some (json_number_i64 (option_or (mb_duration_minutes b) 30))),
            si_interval = Inr interval, si_stall = Inr stall,
            si_at = UncheckedAt (option_or (mb_at b) (f64_add now (f64_of_int interval))),
            si_event = option_or (mb_event b) ''worker_completed'',
            si_command = or_error (rule_empty_text (mb_command b) RULE_TEXT) SeInputText,
            si_liveness = or_error (rule_empty_text liveness_field RULE_TEXT) SeInputText,
            si_name = or_error (rule_text (mb_name b) RULE_NAME False) SeName,
            si_text = (if mb_text b = None then Inr DEFAULT_TEXT
              else or_error (rule_text (mb_text b) RULE_TEXT False) SeText)\<rparr>
           now (ac_is_lead actor = Some True) Managed of
           Inl e \<Rightarrow> Inl (MeSave e)
         | Inr f \<Rightarrow> Inr f))"

definition managed_save ::
  "rule_save_fields \<Rightarrow> rule_actor \<Rightarrow> string \<Rightarrow> rule_record option \<Rightarrow> string option \<Rightarrow> fingerprint option \<Rightarrow> f64 \<Rightarrow>
     managed_error + rule_record \<times> rule_write" where
  "managed_save saved actor key old path fp now =
     (case persisted_rule saved
         \<lparr>cx_id = key, cx_actor = actor, cx_previous = old, cx_path = path, cx_fingerprint = fp, cx_now = now\<rparr> of
        Inl e \<Rightarrow> Inl (MeSave e)
      | Inr rule \<Rightarrow>
          (case (case old of None \<Rightarrow> None
                 | Some previous \<Rightarrow> if is_low_workers (rr_kind rule) \<and> low_worker_rule_unchanged previous rule
                     then Some previous else None) of
             Some previous \<Rightarrow> Inr (previous, NoWrite)
           | None \<Rightarrow>
               if is_low_workers (rr_kind rule) then
                 (case number_from_f64 now of
                    None \<Rightarrow> Inl MeTime
                  | Some at \<Rightarrow> let rule = rule\<lparr>rr_next_at := at\<rparr> in Inr (rule, PutRule rule))
               else Inr (rule, PutRule rule)))"

definition managed_watch :: "rule_record \<Rightarrow> fingerprint option \<Rightarrow> f64 \<Rightarrow> managed_error + rule_record" where
  "managed_watch r fp now =
     (let generation = saturating_i64 (rr_file_generation r + 1) in
      case number_from_f64 now of
        None \<Rightarrow> Inl MeTime
      | Some at \<Rightarrow>
          (case bounded_integer 0 MAX_COUNTER generation of
             None \<Rightarrow> Inl MeRule
           | Some file_generation \<Rightarrow>
               (case bounded_integer (- 1) MAX_COUNTER (saturating_i64 (generation - 1)) of
                  None \<Rightarrow> Inl MeRule
                | Some stall_generation \<Rightarrow>
                    Inr (r\<lparr>rr_file_activity_at := Some at, rr_fingerprint := fp,
                           rr_file_generation := file_generation, rr_stall_wake_generation := stall_generation\<rparr>))))"

definition managed_change ::
  "rule_status \<Rightarrow> rule_actor \<Rightarrow> rule_record \<Rightarrow> fingerprint option \<Rightarrow> f64 \<Rightarrow> managed_error + rule_record" where
  "managed_change desired actor old fp now =
     (let old = (if is_low_workers (rr_kind old) then old\<lparr>rr_low_since := None, rr_alerted := Some False\<rparr> else old) in
      try_result (if desired = Active \<and> is_file (rr_kind old) then managed_watch old fp now else Inr old) (\<lambda>old.
        case bounded_integer 0 MAX_COUNTER (ac_epoch actor) of
          None \<Rightarrow> Inl MeRule
        | Some epoch \<Rightarrow>
            (case number_from_f64 (f64_add now (f64_of_int (rr_interval_seconds old))) of
               None \<Rightarrow> Inl MeTime
             | Some next_at \<Rightarrow>
                 Inr (old\<lparr>rr_status := desired, rr_epoch := epoch, rr_next_at := next_at, rr_error := None\<rparr>))))"

definition managed_control ::
  "rule_status \<Rightarrow> rule_actor \<Rightarrow> rule_record \<Rightarrow> fingerprint option \<Rightarrow> f64 \<Rightarrow> managed_error + rule_record \<times> rule_write" where
  "managed_control desired actor old fp now =
     (let old = old\<lparr>rr_restart_check := None\<rparr> in
      if is_low_workers (rr_kind old) \<and> rr_status old = desired \<and> rr_epoch old = ac_epoch actor then Inr (old, NoWrite)
      else try_result (managed_change desired actor old fp now) (\<lambda>old. Inr (old, PutRule old)))"

definition managed_rules ::
  "managed_action \<Rightarrow> rule_actor \<Rightarrow> string \<Rightarrow> rule_record option \<Rightarrow> string option \<Rightarrow> fingerprint option \<Rightarrow> f64 \<Rightarrow>
     managed_error + rule_write" where
  "managed_rules action actor key old path fp now =
     (if (case old of None \<Rightarrow> False | Some r \<Rightarrow> rr_agent r \<noteq> ac_id actor) then Inl MeOtherAgent
      else case action of
        ManagedSave b \<Rightarrow>
          try_result (check_save b old actor now) (\<lambda>saved.
          try_result (managed_save saved actor key old path fp now) (\<lambda>(_, w). Inr w))
      | _ \<Rightarrow>
          (case old of
             None \<Rightarrow> Inl MeUnknownRule
           | Some rule \<Rightarrow>
               if action = ManagedResume \<and> rr_in_flight rule then Inl MeInFlightResume
               else if action = ManagedDelete then Inr (DeleteRule key)
               else if action = ManagedResume \<and> ac_auto_wake actor \<noteq> Some True then Inl MeResumeAgentFirst
               else try_result (managed_control (if action = ManagedResume then Active else Paused) actor rule fp now) (\<lambda>(_, w). Inr w)))"

end
