(* ===== verification/Rule_Driver.thy ===== *)
theory Rule_Driver
  imports Rule_Decisions Rule_Actions
begin

text \<open>
  The effect adapter \<open>runtime-services/src/rules_tick.rs\<close>: the transactions that decide on the stored
  rules and write what was decided. The table of rules is a list of rows in the order of their row
  ids. The agents are a function each transaction is given, since other components write them; a wake
  is appended to the list of wakes when the event queue takes it, and an error rolls the whole
  transaction back.
\<close>

section \<open>The table of rules\<close>

type_synonym rule_rows = "(int \<times> rule_record) list"

record rule_world =
  rw_rules :: rule_rows
  rw_wakes :: "rule_wake list"

definition get_rule :: "rule_rows \<Rightarrow> string \<Rightarrow> rule_record option" where
  "get_rule rows i = map_option snd (List.find (\<lambda>row. rr_id (snd row) = i) rows)"

definition put_rule :: "rule_record \<Rightarrow> rule_rows \<Rightarrow> rule_rows" where
  "put_rule r rows =
     (if get_rule rows (rr_id r) = None
      then rows @ [(if rows = [] then 1 else fst (last rows) + 1, r)]
      else map (\<lambda>row. if rr_id (snd row) = rr_id r then (fst row, r) else row) rows)"

definition delete_rule :: "string \<Rightarrow> rule_rows \<Rightarrow> rule_rows" where
  "delete_rule i rows = filter (\<lambda>row. rr_id (snd row) \<noteq> i) rows"

definition RULE_BATCH :: nat where "RULE_BATCH = 128"

definition page :: "rule_rows \<Rightarrow> int \<Rightarrow> rule_rows" where
  "page rows after = take RULE_BATCH (filter (\<lambda>row. after < fst row) rows)"

definition next_rowid :: "rule_rows \<Rightarrow> int option" where
  "next_rowid batch = (if length batch = RULE_BATCH then Some (fst (last batch)) else None)"

section \<open>Applying a decision\<close>

datatype tick_error = TeRule rule_error | TeAgent string | TeEvent | TeMonitorUnavailable | TeFile

definition rule_result :: "rule_error + 'a \<Rightarrow> tick_error + 'a" where
  "rule_result r = (case r of Inl e \<Rightarrow> Inl (TeRule e) | Inr x \<Rightarrow> Inr x)"

definition schema_or :: "'a option \<Rightarrow> rule_error + 'a" where
  "schema_or v = (case v of None \<Rightarrow> Inl Schema | Some x \<Rightarrow> Inr x)"

definition i64_of_u64 :: "int \<Rightarrow> int option" where
  "i64_of_u64 n = (if n < 2 ^ 63 then Some n else None)"

definition intent_of :: "rule_check \<Rightarrow> rule_error + launch_intent" where
  "intent_of c =
     try_result (schema_or (Option.bind (i64_of_u64 (ck_check_number c)) (bounded_integer 0 MAX_COUNTER))) (\<lambda>number.
     try_result (schema_or (Option.bind (i64_of_u64 (ck_epoch c)) (bounded_integer 0 MAX_COUNTER))) (\<lambda>epoch.
     try_result (schema_or (Option.bind (i64_of_u64 (ck_timeout_ms c)) (bounded_integer 1000 86400000))) (\<lambda>timeout.
     try_result (schema_or (bounded_text 0 RULE_TEXT (ck_command c))) (\<lambda>command.
       Inr \<lparr>li_account_key = ck_account_key c, li_agent_id = ck_agent_id c, li_check_number = number,
            li_command = command, li_epoch = epoch, li_liveness = ck_liveness c, li_monitor_id = ck_monitor_id c,
            li_rule_id = ck_rule_id c, li_thread_id = ck_thread_id c, li_timeout_ms = timeout\<rparr>))))"

definition apply_decision ::
  "(rule_wake \<Rightarrow> bool) \<Rightarrow> rule_world \<Rightarrow> rule_decision \<Rightarrow> tick_error + bool \<times> rule_world" where
  "apply_decision accepts w d =
     (case rd_record d of
        None \<Rightarrow> Inr (False, w)
      | Some r \<Rightarrow>
          try_result (rule_result
            (case rd_check d of
               None \<Rightarrow> Inr r
             | Some c \<Rightarrow> try_result (intent_of c) (\<lambda>i. Inr (r\<lparr>rr_launch_intent := Some i\<rparr>)))) (\<lambda>r.
          let w = w\<lparr>rw_rules := put_rule r (rw_rules w)\<rparr> in
          (case rd_wake d of
             None \<Rightarrow> Inr (True, w)
           | Some wake \<Rightarrow>
               if accepts wake then Inr (True, w\<lparr>rw_wakes := rw_wakes w @ [wake]\<rparr>) else Inl TeEvent)))"

type_synonym agents = "string \<Rightarrow> json option"

definition owner_value :: "agents \<Rightarrow> string \<Rightarrow> tick_error + json" where
  "owner_value agents i = (case agents i of None \<Rightarrow> Inl (TeAgent i) | Some v \<Rightarrow> Inr v)"

definition load_snapshot :: "rule_env \<Rightarrow> agents \<Rightarrow> rule_record \<Rightarrow> tick_error + rule_snapshot" where
  "load_snapshot env agents r =
     try_result (owner_value agents (rr_agent r)) (\<lambda>v. rule_result (from_stored env r v))"

section \<open>Ticks\<close>

text \<open>What a tick reads besides the rule and its owner: the team's activity, the held input of a failed
  owner, whether the monitor can be reached, and whether the event queue takes a wake.\<close>

record tick_reads =
  tr_agents :: agents
  tr_read_worker :: "json \<Rightarrow> rule_error + rule_worker"
  tr_activity :: "string \<Rightarrow> json list \<times> rule_monitor list"
  tr_held_input :: "string \<times> int \<Rightarrow> bool"
  tr_available :: bool
  tr_accepts :: "rule_wake \<Rightarrow> bool"

definition decide ::
  "rule_env \<Rightarrow> tick_reads \<Rightarrow> rule_rows \<Rightarrow> rule_snapshot \<Rightarrow> f64 \<Rightarrow> fingerprint option \<Rightarrow>
     tick_error + rule_decision option" where
  "decide env q rows sampled now fp =
     (case get_rule rows (rr_id (sn_raw sampled)) of
        None \<Rightarrow> Inr None
      | Some r \<Rightarrow>
          try_result (owner_value (tr_agents q) (rr_agent (sn_raw sampled))) (\<lambda>o'.
          if \<not> current sampled r o' then Inr None
          else
            try_result (if is_low_workers (rr_kind (sn_raw sampled))
              then (case tr_activity q (rr_agent (sn_raw sampled)) of (as, ms) \<Rightarrow>
                try_result (rule_result (active_workers (tr_read_worker q) as ms)) (\<lambda>n. Inr (Some n)))
              else Inr None) (\<lambda>activity.
            try_result (rule_result (tick env sampled now
              \<lparr>ob_fingerprint = Some fp, ob_active_workers = activity,
               ob_held_input = (case held_input_owner sampled of None \<Rightarrow> False | Some k \<Rightarrow> tr_held_input q k)\<rparr>)) (\<lambda>d.
            if rd_check d \<noteq> None \<and> \<not> tr_available q then Inl TeMonitorUnavailable
            else Inr (Some d)))))"

text \<open>The writing transaction of one row of \<open>tick_batch\<close>: whether it changed the rule, and the check
  to submit.\<close>

definition tick_row ::
  "rule_env \<Rightarrow> tick_reads \<Rightarrow> rule_world \<Rightarrow> rule_snapshot \<Rightarrow> f64 \<Rightarrow> fingerprint option \<Rightarrow>
     tick_error + (bool \<times> rule_check option) option \<times> rule_world" where
  "tick_row env q w sampled now fp =
     try_result (decide env q (rw_rules w) sampled now fp) (\<lambda>v.
       case v of
         None \<Rightarrow> Inr (None, w)
       | Some d \<Rightarrow> try_result (apply_decision (tr_accepts q) w d) (\<lambda>(changed, w).
           Inr (Some (changed, rd_check d), w)))"

section \<open>Checks\<close>

definition finish_in_transaction ::
  "rule_env \<Rightarrow> tick_reads \<Rightarrow> rule_world \<Rightarrow> rule_check \<Rightarrow> check_result \<Rightarrow> f64 \<Rightarrow> tick_error + bool \<times> rule_world" where
  "finish_in_transaction env q w c result now =
     (case get_rule (rw_rules w) (ck_rule_id c) of
        None \<Rightarrow> Inr (False, w)
      | Some r \<Rightarrow>
          try_result (load_snapshot env (tr_agents q) r) (\<lambda>s.
          try_result (rule_result (finish_check env s c result now)) (\<lambda>d.
            apply_decision (tr_accepts q) w
              (d\<lparr>rd_record := map_option (\<lambda>r. r\<lparr>rr_launch_intent := None\<rparr>) (rd_record d)\<rparr>))))"

datatype check_submission = Accepted | NotSubmitted string | SubmissionUnknown | Detached

definition UNKNOWN_SUBMISSION :: string where
  "UNKNOWN_SUBMISSION = ''Monitor submission outcome unknown; check was not repeated.''"

definition settle_submission ::
  "rule_env \<Rightarrow> tick_reads \<Rightarrow> rule_world \<Rightarrow> rule_check \<Rightarrow> check_submission \<Rightarrow> f64 \<Rightarrow> tick_error + rule_world" where
  "settle_submission env q w c submission now =
     (case submission of
        Accepted \<Rightarrow> Inr w
      | Detached \<Rightarrow> Inr w
      | NotSubmitted e \<Rightarrow>
          try_result (finish_in_transaction env q w c
            \<lparr>cr_code = None, cr_error = Some e, cr_cancelled = False, cr_output = []\<rparr> now) (\<lambda>(_, w). Inr w)
      | SubmissionUnknown \<Rightarrow>
          (case get_rule (rw_rules w) (ck_rule_id c) of
             None \<Rightarrow> Inr w
           | Some r \<Rightarrow>
               try_result (load_snapshot env (tr_agents q) r) (\<lambda>s.
               if launch_allowed env s c then
                 try_result (rule_result (recover env s now)) (\<lambda>d.
                 try_result (apply_decision (tr_accepts q) w
                   (d\<lparr>rd_record := map_option (\<lambda>r. r\<lparr>rr_error := Some UNKNOWN_SUBMISSION\<rparr>) (rd_record d)\<rparr>))
                   (\<lambda>(_, w). Inr w))
               else Inr w)))"

text \<open>The reading transaction of \<open>submit_check\<close>: only the check that is reserved is launched.\<close>

definition submit_allowed ::
  "rule_env \<Rightarrow> tick_reads \<Rightarrow> rule_world \<Rightarrow> rule_check \<Rightarrow> tick_error + bool" where
  "submit_allowed env q w c =
     (if \<not> tr_available q then Inl TeMonitorUnavailable
      else case get_rule (rw_rules w) (ck_rule_id c) of
        None \<Rightarrow> Inr False
      | Some r \<Rightarrow>
          try_result (load_snapshot env (tr_agents q) r) (\<lambda>s.
            Inr (launch_allowed env s c \<and> launch_intent_check (sn_raw s) = Some c)))"

section \<open>Restarts\<close>

datatype check_reconciliation = RcNotSubmitted | RcSubmitted | RcUnknown

definition recover_row ::
  "rule_env \<Rightarrow> tick_reads \<Rightarrow> rule_world \<Rightarrow> rule_snapshot \<Rightarrow> check_reconciliation \<Rightarrow> f64 \<Rightarrow>
     tick_error + (bool \<times> rule_check option) option \<times> rule_world" where
  "recover_row env q w sampled state now =
     (let intent = launch_intent_check (sn_raw sampled);
          state = (case intent of
             Some c \<Rightarrow> if launch_allowed env sampled c \<and> tr_available q then state else RcUnknown
           | None \<Rightarrow> RcUnknown) in
      case get_rule (rw_rules w) (rr_id (sn_raw sampled)) of
        None \<Rightarrow> Inr (None, w)
      | Some r \<Rightarrow>
          try_result (owner_value (tr_agents q) (rr_agent (sn_raw sampled))) (\<lambda>o'.
          if \<not> current sampled r o' then Inr (None, w)
          else
            let decided = (case intent of Some c \<Rightarrow> launch_allowed env sampled c | None \<Rightarrow> False) in
            if decided \<and> state = RcNotSubmitted then Inr (Some (False, intent), w)
            else if decided \<and> state = RcSubmitted then Inr (None, w)
            else
              try_result (rule_result (recover env sampled now)) (\<lambda>d.
              try_result (apply_decision (tr_accepts q) w d) (\<lambda>(changed, w). Inr (Some (changed, None), w)))))"

section \<open>Events\<close>

fun event_rows ::
  "rule_env \<Rightarrow> tick_reads \<Rightarrow> string \<Rightarrow> json \<Rightarrow> string \<Rightarrow> string \<Rightarrow> string \<Rightarrow> f64 \<Rightarrow> rule_rows \<Rightarrow> rule_world \<Rightarrow>
     nat \<Rightarrow> rule_check list \<Rightarrow> tick_error + (nat \<times> rule_check list) \<times> rule_world" where
  "event_rows env q agent o' kind body key now [] w changed checks = Inr ((changed, checks), w)"
| "event_rows env q agent o' kind body key now ((i, r) # rows) w changed checks =
     (if rr_agent r \<noteq> agent then event_rows env q agent o' kind body key now rows w changed checks
      else
        try_result (rule_result (from_stored env r o')) (\<lambda>s.
        try_result (rule_result (event env s kind body key now)) (\<lambda>d.
        if rd_check d \<noteq> None \<and> \<not> tr_available q then Inl TeMonitorUnavailable
        else
          try_result (apply_decision (tr_accepts q) w d) (\<lambda>(did, w).
          event_rows env q agent o' kind body key now rows w (if did then changed + 1 else changed)
            (case rd_check d of None \<Rightarrow> checks | Some c \<Rightarrow> checks @ [c])))))"

definition event_in_transaction ::
  "rule_env \<Rightarrow> tick_reads \<Rightarrow> rule_world \<Rightarrow> string \<Rightarrow> string \<Rightarrow> string \<Rightarrow> string \<Rightarrow> f64 \<Rightarrow> int \<Rightarrow>
     tick_error + (int option \<times> nat \<times> rule_check list) \<times> rule_world" where
  "event_in_transaction env q w agent kind body key now after =
     try_result (owner_value (tr_agents q) agent) (\<lambda>o'.
       let rows = page (rw_rules w) after in
       try_result (event_rows env q agent o' kind body key now rows w 0 [])
         (\<lambda>((changed, checks), w). Inr ((next_rowid rows, changed, checks), w)))"

section \<open>Completed monitors\<close>

record finished_monitor =
  fm_id :: string
  fm_agent :: string
  fm_epoch :: int
  fm_command :: string
  fm_rule_id :: "string option"
  fm_account :: "string option"
  fm_status :: monitor_status
  fm_exit_code :: "int option"
  fm_error :: "string option"
  fm_tail :: string

datatype monitor_refusal = MrIdentityMissing | MrIdentityChanged | MrStale | MrRules tick_error

definition monitor_result :: "finished_monitor \<Rightarrow> check_result" where
  "monitor_result after =
     \<lparr>cr_code = fm_exit_code after,
      cr_error = (if fm_status after = MsCancelled then Some ''Monitor cancelled'' else fm_error after),
      cr_cancelled = (fm_status after = MsCancelled), cr_output = fm_tail after\<rparr>"

definition same_monitor :: "finished_monitor \<Rightarrow> rule_check \<Rightarrow> bool" where
  "same_monitor before c =
     (fm_id before = ck_monitor_id c \<and> fm_agent before = ck_agent_id c
      \<and> 0 \<le> fm_epoch before \<and> fm_epoch before = ck_epoch c \<and> fm_command before = ck_command c
      \<and> (case fm_account before of None \<Rightarrow> True | Some a \<Rightarrow> a = option_or (ck_account_key c) ''default''))"

definition monitor_finish ::
  "rule_env \<Rightarrow> tick_reads \<Rightarrow> rule_world \<Rightarrow> finished_monitor \<Rightarrow> finished_monitor \<Rightarrow> f64 \<Rightarrow> monitor_refusal + rule_world" where
  "monitor_finish env q w before after now =
     (if fm_status before \<in> {MsCompleted, MsFailed, MsCancelled} then Inr w
      else case fm_rule_id before of
        None \<Rightarrow> Inl MrIdentityMissing
      | Some i \<Rightarrow>
          (case get_rule (rw_rules w) i of
             None \<Rightarrow> Inr w
           | Some r \<Rightarrow>
               (case load_snapshot env (tr_agents q) r of
                  Inl e \<Rightarrow> Inl (MrRules e)
                | Inr s \<Rightarrow>
                    let c = option_or (launch_intent_check (sn_raw s)) (check env s) in
                    if \<not> same_monitor before c then Inl MrIdentityChanged
                    else (case finish_in_transaction env q w c (monitor_result after) now of
                      Inl e \<Rightarrow> Inl (MrRules e)
                    | Inr (did, w) \<Rightarrow> if did then Inr w else Inl MrStale))))"

section \<open>Writes of actions\<close>

definition apply_write :: "rule_write \<Rightarrow> rule_world \<Rightarrow> rule_world" where
  "apply_write v w =
     (case v of
        NoWrite \<Rightarrow> w
      | PutRule r \<Rightarrow> w\<lparr>rw_rules := put_rule r (rw_rules w)\<rparr>
      | DeleteRule i \<Rightarrow> w\<lparr>rw_rules := delete_rule i (rw_rules w)\<rparr>)"

end
