(* ===== verification/Rule_Saves.thy ===== *)
theory Rule_Saves
  imports Rule_Actions Rule_Decisions
begin

text \<open>
  What the actions of users and agents guarantee: the two ways in accept the same saves, a saved rule is
  within its types, and what a pause or a resume leaves of a rule.
\<close>

section \<open>Saves\<close>

lemma or_error_Inr [simp]: "or_error v e = Inr x \<longleftrightarrow> v = Some x"
  by (cases v) (simp_all add: or_error_def)

lemma require_Inr [simp]: "require b e = Inr u \<longleftrightarrow> b"
  by (simp add: require_def)

lemma check_if_Inr [simp]: "check_if b r = Inr u \<longleftrightarrow> (b \<longrightarrow> r = Inr ())"
  by (auto simp: check_if_def)

lemma empty_text_Inr [simp]: "empty_text v e = Inr u \<longleftrightarrow> v = Inr []"
  by (cases v) (simp_all add: empty_text_def)

lemma some_text_Inr [simp]: "some_text v e = Inr s \<longleftrightarrow> v = Inr s \<and> s \<noteq> []"
  by (cases v) (auto simp: some_text_def)

lemma try_result_Inr: "try_result r f = Inr b \<longleftrightarrow> (\<exists>a. r = Inr a \<and> f a = Inr b)"
  by (cases r) simp_all

text \<open>What both orders of the checks accept.\<close>

definition save_accepted ::
  "rule_save_input \<Rightarrow> f64 \<Rightarrow> bool \<Rightarrow> rule_save_fields \<Rightarrow> bool" where
  "save_accepted input now is_lead f \<longleftrightarrow>
     (\<exists>minimum duration stall command liveness.
        si_kind input \<in> set SAVE_KINDS \<and> si_minimum input = Inr minimum \<and> si_duration input = Inr duration
        \<and> (si_kind input = ''low_workers'' \<longrightarrow>
             is_lead \<and> within 1 255 minimum \<and> within 1 YEAR_MINUTES duration \<and> command = [])
        \<and> (si_kind input \<noteq> ''file'' \<longrightarrow> liveness = [])
        \<and> si_interval input = Inr (sf_interval f) \<and> 10 \<le> sf_interval f \<and> sf_interval f \<le> YEAR_SECONDS
        \<and> si_stall input = Inr stall \<and> 0 \<le> stall \<and> stall \<le> YEAR_SECONDS
        \<and> (case si_at input of CheckedAt v \<Rightarrow> Inr v | UncheckedAt v \<Rightarrow> time_check v now) = Inr (sf_at f)
        \<and> save_event_of (si_event input) = Inr (sf_event f)
        \<and> si_command input = Inr command \<and> sf_command f = str_trim command \<and> si_liveness input = Inr liveness
        \<and> si_name input = Inr (sf_name f) \<and> sf_name f \<noteq> [] \<and> si_text input = Inr (sf_text f) \<and> sf_text f \<noteq> []
        \<and> save_kind_of (si_kind input) stall liveness minimum duration = Inr (sf_kind f))"

lemma checked_rule_save_accepted:
  "checked_rule_save input now is_lead order = Inr f \<longleftrightarrow> save_accepted input now is_lead f"
proof -
  define at where "at = (case si_at input of CheckedAt v \<Rightarrow> Inr v | UncheckedAt v \<Rightarrow> time_check v now)"
  show ?thesis
    unfolding checked_rule_save_def save_accepted_def checked_low_workers_def Let_def at_def[symmetric]
    by (cases order; cases f) (auto simp: try_result_Inr)
qed

text \<open>A saved rule: within its types, with no check under way, and counting on from the rule it replaces.\<close>

lemma previous_typed:
  assumes "\<And>r. previous = Some r \<Longrightarrow> rule_typed r" "is_finite now"
  shows "counter_typed (previous_or rr_checks 0 previous)" "counter_typed (previous_or rr_wakes 0 previous)"
    "counter_typed (previous_or rr_file_generation 0 previous)"
    "- 1 \<le> previous_or rr_stall_wake_generation (- 1) previous"
    "previous_or rr_stall_wake_generation (- 1) previous \<le> MAX_COUNTER"
    "time_typed (previous_or rr_created (Float now) previous)"
    "pred_option time_typed (previous_or rr_file_activity_at None previous)"
  using assms
  by (cases previous; simp add: previous_or_def rule_typed_def counter_typed_def MAX_COUNTER_def)+

lemma bounds_fact: "rule_bound lo hi v e = Inr n \<Longrightarrow> lo \<le> n \<and> n \<le> hi"
  by (auto simp: rule_bound_def split: option.splits if_splits)

lemma stored_kind_typed: "stored_kind k path = Inr kind \<Longrightarrow> kind_typed kind"
  by (auto simp: stored_kind_def try_result_Inr dest: bounds_fact split: save_kind.splits)

lemma persisted_rule_facts:
  assumes "persisted_rule f cx = Inr r"
  shows "rr_id r = cx_id cx" "rr_agent r = ac_id (cx_actor cx)" "rr_checks r = previous_or rr_checks 0 (cx_previous cx)"
    "\<not> rr_in_flight r" "rr_restart_check r = None" "rr_owner_hold r = None" "rr_launch_intent r = None"
    "rr_stall_probe r = None" "rr_status r = (if ac_auto_wake (cx_actor cx) = Some True then Active else Paused)"
  using assms by (auto simp: persisted_rule_def Let_def try_result_Inr)

lemma persisted_rule_typed:
  assumes "persisted_rule f cx = Inr r" and prev: "\<And>q. cx_previous cx = Some q \<Longrightarrow> rule_typed q"
  shows "rule_typed r"
proof -
  obtain kind where kind: "stored_kind (sf_kind f) (cx_path cx) = Inr kind" and now: "is_finite (cx_now cx)"
    using assms(1) by (auto simp: persisted_rule_def Let_def try_result_Inr number_from_f64_def split: if_splits)
  note typed = previous_typed[of "cx_previous cx", OF prev now]
  have act: "time_typed (case previous_or rr_file_activity_at None (cx_previous cx) of None \<Rightarrow> Float (cx_now cx) | Some t \<Rightarrow> t)"
    using typed(7) now by (auto split: option.splits)
  note facts = now typed[unfolded counter_typed_def] act stored_kind_typed[OF kind]
  show ?thesis
    using assms(1) unfolding persisted_rule_def Let_def kind
    by (elim try_result_InrE)
      (use facts in \<open>simp add: number_from_f64_def rule_typed_def counter_typed_def text_typed_def split: if_splits; clarsimp\<close>)
qed

section \<open>Pauses and resumes\<close>

text \<open>What a control leaves of a rule.\<close>

definition controlled :: "rule_status \<Rightarrow> rule_record \<Rightarrow> rule_record \<Rightarrow> bool" where
  "controlled desired r r' \<longleftrightarrow>
     rr_id r' = rr_id r \<and> rr_agent r' = rr_agent r \<and> rr_checks r' = rr_checks r \<and> rr_in_flight r' = rr_in_flight r
     \<and> rr_restart_check r' = rr_restart_check r \<and> rr_kind r' = rr_kind r \<and> rr_stall_probe r' = rr_stall_probe r
     \<and> rr_owner_hold r' = rr_owner_hold r \<and> rr_status r' = desired \<and> (rule_typed r \<longrightarrow> rule_typed r')"

lemma restart_watch_Inr:
  "restart_watch r fp now = Inr r' \<Longrightarrow>
     \<exists>g. r' = r\<lparr>rr_file_activity_at := Some (Float now), rr_fingerprint := fp, rr_file_generation := g,
               rr_stall_wake_generation := saturating_i64 (g - 1)\<rparr> \<and> is_finite now \<and> counter_typed g
       \<and> - 1 \<le> saturating_i64 (g - 1) \<and> saturating_i64 (g - 1) \<le> MAX_COUNTER"
  by (auto simp: restart_watch_def Let_def try_result_Inr number_def number_from_f64_def http_integer_def counter_typed_def
      bounded_integer_def split: option.splits if_splits)

lemma managed_watch_Inr:
  "managed_watch r fp now = Inr r' \<Longrightarrow>
     \<exists>g. r' = r\<lparr>rr_file_activity_at := Some (Float now), rr_fingerprint := fp, rr_file_generation := g,
               rr_stall_wake_generation := saturating_i64 (g - 1)\<rparr> \<and> is_finite now \<and> counter_typed g
       \<and> - 1 \<le> saturating_i64 (g - 1) \<and> saturating_i64 (g - 1) \<le> MAX_COUNTER"
  by (auto simp: managed_watch_def Let_def number_from_f64_def counter_typed_def
      bounded_integer_def split: option.splits if_splits)

lemma http_change_Inr:
  assumes "http_change desired actor r fp now = Inr r'"
  shows "controlled desired r r'"
proof -
  from assms obtain epoch at p where typed: "counter_typed epoch" "time_typed at"
    and p: "(let q = r\<lparr>rr_status := desired, rr_epoch := epoch, rr_next_at := at, rr_error := None\<rparr> in
        if desired = Active \<and> is_file (rr_kind q) then restart_watch q fp now else Inr q) = Inr p"
    and r': "r' = (if is_low_workers (rr_kind p) then p\<lparr>rr_low_since := None, rr_alerted := Some False\<rparr> else p)"
    unfolding http_change_def Let_def
    by (elim try_result_InrE)
      (auto simp: number_def http_integer_def counter_typed_def split: option.splits dest: time_typed_from)
  have "controlled desired r p"
    using p typed by (auto simp: controlled_def Let_def rule_typed_bounded split: if_splits dest!: restart_watch_Inr)
  then show ?thesis unfolding r' by (auto simp: controlled_def rule_typed_bounded)
qed

lemma managed_change_Inr:
  assumes "managed_change desired actor r fp now = Inr r'"
  shows "controlled desired r r'"
proof -
  define q where "q = (if is_low_workers (rr_kind r) then r\<lparr>rr_low_since := None, rr_alerted := Some False\<rparr> else r)"
  from assms obtain epoch at p where typed: "counter_typed epoch" "time_typed at"
    and p: "(if desired = Active \<and> is_file (rr_kind q) then managed_watch q fp now else Inr q) = Inr p"
    and r': "r' = p\<lparr>rr_status := desired, rr_epoch := epoch, rr_next_at := at, rr_error := None\<rparr>"
    unfolding managed_change_def Let_def q_def[symmetric]
    by (elim try_result_InrE) (auto simp: counter_typed_def split: option.splits dest: time_typed_from)
  have q: "controlled (rr_status r) r q" by (simp add: controlled_def q_def rule_typed_bounded)
  have "controlled (rr_status q) q p"
    using p by (auto simp: controlled_def rule_typed_bounded split: if_splits dest!: managed_watch_Inr)
  with q typed show ?thesis unfolding r' by (simp add: controlled_def rule_typed_bounded)
qed

lemma http_control_Inr:
  assumes "http_control desired actor r fp now = Inr (r', v)"
  shows "v = NoWrite \<or> v = PutRule r' \<and> controlled desired (r\<lparr>rr_owner_hold := None, rr_restart_check := None\<rparr>) r'"
  using assms unfolding http_control_def Let_def
  by (cases "http_change desired actor (r\<lparr>rr_owner_hold := None, rr_restart_check := None\<rparr>) fp now")
    (auto split: if_splits dest: http_change_Inr)

lemma managed_control_Inr:
  assumes "managed_control desired actor r fp now = Inr (r', v)"
  shows "v = NoWrite \<or> v = PutRule r' \<and> controlled desired (r\<lparr>rr_restart_check := None\<rparr>) r'"
  using assms unfolding managed_control_def Let_def
  by (cases "managed_change desired actor (r\<lparr>rr_restart_check := None\<rparr>) fp now")
    (auto split: if_splits dest: managed_change_Inr)

end
