(* ===== verification/Rule_Life.thy ===== *)
theory Rule_Life
  imports Rule_Driver Rule_Saves
begin

text \<open>
  Runs of the rule components: any sequence of ticks, events, results, submissions, restarts and actions
  of users and agents, each a transaction on the table of rules. Each is shown to be a sequence of
  replacements of stored rules; the invariants of runs are in the theory after this one.
\<close>

section \<open>The table\<close>

lemma find_map_same:
  assumes "\<And>x. x \<in> set xs \<Longrightarrow> P (f x) = P x"
  shows "List.find P (map f xs) = map_option f (List.find P xs)"
  using assms by (induction xs) auto

lemma find_SomeD: "List.find P xs = Some x \<Longrightarrow> P x"
  by (induction xs) (auto split: if_splits)

lemma get_rule_id: "get_rule rows i = Some r \<Longrightarrow> rr_id r = i"
  by (auto simp: get_rule_def dest: find_SomeD)

lemma find_append: "List.find P (xs @ ys) = (case List.find P xs of None \<Rightarrow> List.find P ys | Some x \<Rightarrow> Some x)"
  by (induction xs) auto

lemma get_put: "get_rule (put_rule r rows) i = (if i = rr_id r then Some r else get_rule rows i)"
proof (cases "get_rule rows (rr_id r)")
  case None
  then show ?thesis
    by (auto simp: put_rule_def get_rule_def find_append split: option.splits)
next
  case (Some q)
  let ?f = "\<lambda>row. if rr_id (snd row) = rr_id r then (fst row, r) else row"
  have f: "List.find (\<lambda>row. rr_id (snd row) = i) (map ?f rows) = map_option ?f (List.find (\<lambda>row. rr_id (snd row) = i) rows)"
    by (rule find_map_same) auto
  have put: "put_rule r rows = map ?f rows" using Some by (simp add: put_rule_def)
  show ?thesis
  proof (cases "List.find (\<lambda>row. rr_id (snd row) = i) rows")
    case None
    with f put Some show ?thesis by (auto simp: get_rule_def)
  next
    case (Some x)
    with f put find_SomeD[OF Some] show ?thesis by (simp add: get_rule_def)
  qed
qed

lemma get_delete: "get_rule (delete_rule j rows) i = (if i = j then None else get_rule rows i)"
  by (induction rows) (auto simp: delete_rule_def get_rule_def)

section \<open>Runs\<close>

text \<open>A tick and a restart come with the row and the owner that were read before their transaction.\<close>

datatype rule_op =
    OpTick tick_reads rule_record json f64 "fingerprint option"
  | OpEvent tick_reads string string string string f64 int
  | OpFinish tick_reads rule_check check_result f64
  | OpSettle tick_reads rule_check check_submission f64
  | OpRecover tick_reads rule_record json check_reconciliation f64
  | OpMonitor tick_reads finished_monitor finished_monitor f64
  | OpHttp rule_action f64 "f64 option" string json "rule_record option" "string option" "fingerprint option"
      "(rule_actor \<times> json) option" "string list"
  | OpManaged managed_action rule_actor string "string option" "fingerprint option" f64

definition committed :: "rule_world \<Rightarrow> 'e + 'a \<times> rule_world \<Rightarrow> rule_world" where
  "committed w r = (case r of Inl _ \<Rightarrow> w | Inr (_, w') \<Rightarrow> w')"

definition world_of :: "rule_world \<Rightarrow> 'e + rule_world \<Rightarrow> rule_world" where
  "world_of w r = (case r of Inl _ \<Rightarrow> w | Inr w' \<Rightarrow> w')"

fun rule_step :: "rule_env \<Rightarrow> rule_world \<Rightarrow> rule_op \<Rightarrow> rule_world" where
  "rule_step env w (OpTick q r o' now fp) =
     (case from_stored env r o' of Inl _ \<Rightarrow> w | Inr s \<Rightarrow> committed w (tick_row env q w s now fp))"
| "rule_step env w (OpEvent q agent kind body key now after) =
     committed w (event_in_transaction env q w agent kind body key now after)"
| "rule_step env w (OpFinish q c result now) = committed w (finish_in_transaction env q w c result now)"
| "rule_step env w (OpSettle q c submission now) = world_of w (settle_submission env q w c submission now)"
| "rule_step env w (OpRecover q r o' state now) =
     (case from_stored env r o' of Inl _ \<Rightarrow> w | Inr s \<Rightarrow> committed w (recover_row env q w s state now))"
| "rule_step env w (OpMonitor q before after now) = world_of w (monitor_finish env q w before after now)"
| "rule_step env w (OpHttp action now checked_at i prepared_agent prepared_old path fp agent checks) =
     (case http_update action now checked_at i prepared_agent prepared_old path fp agent (get_rule (rw_rules w) i) checks of
        Inl _ \<Rightarrow> w | Inr (_, v, _) \<Rightarrow> apply_write v w)"
| "rule_step env w (OpManaged action actor key path fp now) =
     (case managed_rules action actor key (get_rule (rw_rules w) key) path fp now of
        Inl _ \<Rightarrow> w | Inr v \<Rightarrow> apply_write v w)"

definition rule_run :: "rule_env \<Rightarrow> rule_world \<Rightarrow> rule_op list \<Rightarrow> rule_world" where
  "rule_run env w ops = foldl (rule_step env) w ops"

text \<open>
  Every operation is a sequence of replacements of stored rules, each with at most one wake. A
  replacement is described by the rule it replaces, if any, the rule it stores, and the wake.
\<close>

definition store_step :: "rule_world \<Rightarrow> rule_record \<Rightarrow> rule_wake option \<Rightarrow> rule_world" where
  "store_step w r wake =
     w\<lparr>rw_rules := put_rule r (rw_rules w), rw_wakes := rw_wakes w @ (case wake of None \<Rightarrow> [] | Some x \<Rightarrow> [x])\<rparr>"

definition replaced :: "(rule_record option \<Rightarrow> rule_record \<Rightarrow> rule_wake option \<Rightarrow> bool) \<Rightarrow> rule_world \<Rightarrow> rule_world \<Rightarrow> bool" where
  "replaced ok w w' \<longleftrightarrow> w' = w \<or> (\<exists>r wake. w' = store_step w r wake \<and> ok (get_rule (rw_rules w) (rr_id r)) r wake)"

text \<open>What the decisions of the engine store over a rule.\<close>

definition open_check :: "rule_record \<Rightarrow> bool" where
  "open_check r \<longleftrightarrow> rr_in_flight r \<or> rr_restart_check r \<noteq> None"

definition wake_name :: "string \<Rightarrow> int \<Rightarrow> string" where
  "wake_name i n = ''rule-wake:'' @ i @ '':'' @ decimal (nat n)"

definition wake_step :: "rule_record option \<Rightarrow> rule_record \<Rightarrow> rule_wake option \<Rightarrow> bool" where
  "wake_step old r' wake \<longleftrightarrow>
     (\<exists>r. old = Some r \<and> (rule_typed r \<longrightarrow> rule_typed r') \<and> (rule_consistent r \<longrightarrow> rule_consistent r')
        \<and> rr_checks r \<le> rr_checks r'
        \<and> (rule_consistent r \<longrightarrow> rr_checks r' = rr_checks r \<longrightarrow> open_check r' \<longrightarrow> open_check r)
        \<and> (\<forall>x. wake = Some x \<longrightarrow> wk_kind x = ''rule'' \<longrightarrow> rule_consistent r \<longrightarrow>
             wk_id x = wake_name (rr_id r') (rr_checks r') \<and> (rr_checks r < rr_checks r' \<or> open_check r) \<and> \<not> open_check r'))"

definition engine_step :: "rule_record option \<Rightarrow> rule_record \<Rightarrow> rule_wake option \<Rightarrow> bool" where
  "engine_step old r' wake \<longleftrightarrow> wake_step old r' wake \<and> (pred_option user_paused old \<longrightarrow> user_paused r')"

lemma moves_engine_step:
  assumes "moves env s d" "rd_record d = Some r'"
  shows "engine_step (Some (sn_raw s)) r' (rd_wake d)"
proof -
  have m: "rr_id r' = rr_id (sn_raw s)" "rr_restart_check r' = rr_restart_check (sn_raw s)"
    "rule_typed (sn_raw s) \<longrightarrow> rule_typed r'" "rule_consistent (sn_raw s) \<longrightarrow> rule_consistent r'"
    "same_check (sn_raw s) d r' \<or> new_check env s d r'" "\<not> user_paused (sn_raw s)"
    using assms by (simp_all add: moves_def)
  from m(5) show ?thesis
  proof
    assume "same_check (sn_raw s) d r'"
    with m show ?thesis by (auto simp: engine_step_def wake_step_def same_check_def open_check_def)
  next
    assume n: "new_check env s d r'"
    then have "rule_consistent (sn_raw s) \<Longrightarrow> rr_restart_check (sn_raw s) = None"
      by (simp add: new_check_def active_consistent)
    with m n show ?thesis
      by (auto simp: engine_step_def wake_step_def new_check_def open_check_def wake_id_def wake_name_def split: if_splits)
  qed
qed

lemma settles_engine_step:
  assumes "settles s d" "rd_record d = Some r'"
  shows "engine_step (Some (sn_raw s)) r' (rd_wake d)"
  using assms by (auto simp: settles_def engine_step_def wake_step_def open_check_def wake_id_def wake_name_def)

text \<open>Fields that no law mentions may change too, and the launch intent to a typed one.\<close>

lemma unmentioned_fields [simp]:
  "rule_consistent (r\<lparr>rr_error := e\<rparr>) = rule_consistent r" "open_check (r\<lparr>rr_error := e\<rparr>) = open_check r"
  "rule_consistent (r\<lparr>rr_launch_intent := i\<rparr>) = rule_consistent r" "open_check (r\<lparr>rr_launch_intent := i\<rparr>) = open_check r"
  "user_paused (r\<lparr>rr_error := e\<rparr>) = user_paused r" "user_paused (r\<lparr>rr_launch_intent := i\<rparr>) = user_paused r"
  by (simp_all add: rule_consistent_def open_check_def user_paused_def)

lemma engine_step_error: "engine_step old (r\<lparr>rr_error := e\<rparr>) wake = engine_step old r wake"
  by (simp add: engine_step_def wake_step_def)

lemma engine_step_intent:
  assumes "engine_step old r wake" "pred_option intent_typed i"
  shows "engine_step old (r\<lparr>rr_launch_intent := i\<rparr>) wake"
proof -
  obtain q where "old = Some q" using assms(1) by (auto simp: engine_step_def wake_step_def)
  with assms rule_typed_bounded(11)[OF _ assms(2), of r] show ?thesis by (simp add: engine_step_def wake_step_def)
qed

lemma intent_of_typed: "intent_of c = Inr i \<Longrightarrow> intent_typed i"
  by (auto simp: intent_of_def schema_or_def intent_typed_def counter_typed_def text_typed_def i64_of_u64_def bounded_integer_def
      bounded_text_def split: option.splits if_splits bind_splits elim!: try_result_InrE)

lemma rule_result_Inr [simp]: "rule_result r = Inr x \<longleftrightarrow> r = Inr x"
  by (cases r) (simp_all add: rule_result_def)

lemma apply_decision_Inr:
  assumes "apply_decision accepts w d = Inr (b, w')"
  obtains (nothing) "rd_record d = None" "w' = w"
  | (put) r q where "rd_record d = Some r" "w' = store_step w q (rd_wake d)" "rr_id q = rr_id r"
      "\<And>old. engine_step old r (rd_wake d) \<Longrightarrow> engine_step old q (rd_wake d)"
proof (cases "rd_record d")
  case None
  with assms have "w' = w" by (simp add: apply_decision_def)
  with None show thesis by (rule nothing)
next
  case (Some r)
  with assms obtain q where
    q: "(case rd_check d of None \<Rightarrow> Inr r | Some c \<Rightarrow> try_result (intent_of c) (\<lambda>i. Inr (r\<lparr>rr_launch_intent := Some i\<rparr>))) = Inr q"
    and w': "w' = store_step w q (rd_wake d)"
    by (auto simp: apply_decision_def store_step_def Let_def split: option.splits if_splits elim!: try_result_InrE)
  from q have "rr_id q = rr_id r" "engine_step old r (rd_wake d) \<Longrightarrow> engine_step old q (rd_wake d)" for old
    by (auto split: option.splits elim!: try_result_InrE intro!: engine_step_intent dest: intent_of_typed)
  with Some w' show thesis by (rule put)
qed

lemma apply_decision_replaced:
  assumes "apply_decision accepts w d = Inr (b, w')"
    and step: "\<And>r'. rd_record d = Some r' \<Longrightarrow> engine_step (get_rule (rw_rules w) (rr_id r')) r' (rd_wake d)"
  shows "replaced engine_step w w'"
  using assms(1)
proof (cases rule: apply_decision_Inr)
  case (put r q)
  with step[OF put(1)] show ?thesis
    unfolding replaced_def by (intro disjI2 exI[of _ q] exI[of _ "rd_wake d"]) simp
qed (simp add: replaced_def)

section \<open>Transactions replace rules\<close>

lemma load_snapshot_Inr:
  "load_snapshot env agents r = Inr s \<Longrightarrow> snapshot_ok env s \<and> sn_raw s = r"
  by (auto simp: load_snapshot_def dest: from_stored_ok elim!: try_result_InrE)

lemma decide_Inr:
  assumes "decide env q rows s now fp = Inr (Some d)" "snapshot_ok env s"
  shows "get_rule rows (rr_id (sn_raw s)) = Some (sn_raw s)" "moves env s d"
proof -
  obtain r where r: "get_rule rows (rr_id (sn_raw s)) = Some r"
    using assms(1) by (cases "get_rule rows (rr_id (sn_raw s))") (simp_all add: decide_def)
  with assms(1) obtain o' ob where "current s r o'" "tick env s now ob = Inr d"
    unfolding decide_def
    by (auto simp: owner_value_def split: option.splits if_splits prod.splits elim!: try_result_InrE)
  with r assms(2) show "get_rule rows (rr_id (sn_raw s)) = Some (sn_raw s)" "moves env s d"
    by (auto simp: current_def intro: tick_moves)
qed

lemma engine_replaced:
  assumes "apply_decision accepts w d = Inr (b, w')" "get_rule (rw_rules w) (rr_id (sn_raw s)) = Some (sn_raw s)"
    and "moves env s d \<or> settles s d"
  shows "replaced engine_step w w'"
  using assms(1)
proof (rule apply_decision_replaced)
  fix r' assume r': "rd_record d = Some r'"
  have "rr_id r' = rr_id (sn_raw s)" using assms(3) r' by (auto simp: moves_def settles_def)
  with assms(2,3) r' show "engine_step (get_rule (rw_rules w) (rr_id r')) r' (rd_wake d)"
    using moves_engine_step settles_engine_step by metis
qed

lemma replaced_refl [simp]: "replaced ok w w"
  by (simp add: replaced_def)

lemma tick_row_replaced:
  assumes "snapshot_ok env s"
  shows "replaced engine_step w (committed w (tick_row env q w s now fp))"
proof (cases "tick_row env q w s now fp")
  case (Inr x)
  then show ?thesis
    unfolding tick_row_def
    by (auto simp: committed_def split: option.splits elim!: try_result_InrE
        intro: engine_replaced[OF _ decide_Inr(1)[OF _ assms] disjI1[OF decide_Inr(2)[OF _ assms]]])
qed (simp add: committed_def)

text \<open>A decision whose record is changed in the error or the launch intent only.\<close>

lemma settles_map:
  assumes "settles s d" "apply_decision accepts w (d\<lparr>rd_record := map_option f (rd_record d)\<rparr>) = Inr (b, w')"
    and "get_rule (rw_rules w) (rr_id (sn_raw s)) = Some (sn_raw s)"
    and f: "f = (\<lambda>r. r\<lparr>rr_launch_intent := None\<rparr>) \<or> f = (\<lambda>r. r\<lparr>rr_error := e\<rparr>)"
  shows "replaced engine_step w w'"
  using assms(2)
proof (rule apply_decision_replaced)
  fix r' assume "rd_record (d\<lparr>rd_record := map_option f (rd_record d)\<rparr>) = Some r'"
  then obtain r where r: "rd_record d = Some r" "r' = f r" by auto
  have "rr_id r = rr_id (sn_raw s)" using assms(1) r by (auto simp: settles_def)
  with settles_engine_step[OF assms(1) r(1)] r(2) f assms(3)
  show "engine_step (get_rule (rw_rules w) (rr_id r')) r' (rd_wake (d\<lparr>rd_record := map_option f (rd_record d)\<rparr>))"
    by (auto simp: engine_step_error intro: engine_step_intent)
qed

lemma finish_transaction_replaced:
  assumes "finish_in_transaction env q w c result now = Inr (b, w')"
  shows "replaced engine_step w w'"
proof (cases "get_rule (rw_rules w) (ck_rule_id c)")
  case None
  with assms show ?thesis by (simp add: finish_in_transaction_def)
next
  case (Some r)
  with assms obtain s d where "load_snapshot env (tr_agents q) r = Inr s" and d: "finish_check env s c result now = Inr d"
    and a: "apply_decision (tr_accepts q) w (d\<lparr>rd_record := map_option (\<lambda>r. r\<lparr>rr_launch_intent := None\<rparr>) (rd_record d)\<rparr>) = Inr (b, w')"
    by (auto simp: finish_in_transaction_def elim!: try_result_InrE)
  then have s: "snapshot_ok env s" "sn_raw s = r" using load_snapshot_Inr by blast+
  with Some get_rule_id[OF Some] have "get_rule (rw_rules w) (rr_id (sn_raw s)) = Some (sn_raw s)" by simp
  from finish_check_settles[OF d s(1)] a this show ?thesis by (rule settles_map) simp
qed

lemma settle_submission_replaced:
  "replaced engine_step w (world_of w (settle_submission env q w c submission now))"
proof (cases "settle_submission env q w c submission now")
  case (Inl e)
  then show ?thesis by (simp add: world_of_def)
next
  case (Inr w')
  show ?thesis
  proof (cases submission)
    case Accepted
    with Inr show ?thesis by (simp add: settle_submission_def world_of_def)
  next
    case Detached
    with Inr show ?thesis by (simp add: settle_submission_def world_of_def)
  next
    case (NotSubmitted e)
    with Inr show ?thesis
      by (auto simp: settle_submission_def world_of_def elim!: try_result_InrE intro: finish_transaction_replaced)
  next
    case SubmissionUnknown
    show ?thesis
    proof (cases "get_rule (rw_rules w) (ck_rule_id c)")
      case None
      with SubmissionUnknown Inr show ?thesis by (simp add: settle_submission_def world_of_def)
    next
      case (Some r)
      with SubmissionUnknown Inr obtain s where s: "load_snapshot env (tr_agents q) r = Inr s"
        and b: "(if launch_allowed env s c then
                 try_result (rule_result (recover env s now)) (\<lambda>d.
                 try_result (apply_decision (tr_accepts q) w
                   (d\<lparr>rd_record := map_option (\<lambda>r. r\<lparr>rr_error := Some UNKNOWN_SUBMISSION\<rparr>) (rd_record d)\<rparr>))
                   (\<lambda>(_, w). Inr w))
               else Inr w) = Inr w'"
        by (auto simp: settle_submission_def elim!: try_result_InrE)
      from load_snapshot_Inr[OF s] Some get_rule_id[OF Some]
      have g: "get_rule (rw_rules w) (rr_id (sn_raw s)) = Some (sn_raw s)" by simp
      with b have "replaced engine_step w w'"
        by (auto split: if_splits elim!: try_result_InrE intro: settles_map[OF recover_settles(1) _ g])
      with Inr show ?thesis by (simp add: world_of_def)
    qed
  qed
qed

lemma recover_row_replaced:
  assumes "snapshot_ok env s"
  shows "replaced engine_step w (committed w (recover_row env q w s state now))"
proof (cases "recover_row env q w s state now")
  case (Inl e)
  then show ?thesis by (simp add: committed_def)
next
  case (Inr x)
  then consider "snd x = w" | r o' d b where "get_rule (rw_rules w) (rr_id (sn_raw s)) = Some r" "current s r o'"
      "recover env s now = Inr d" "apply_decision (tr_accepts q) w d = Inr (b, snd x)"
    by (auto simp: recover_row_def Let_def split: option.splits if_splits elim!: try_result_InrE)
  then show ?thesis
  proof cases
    case 1
    with Inr show ?thesis by (auto simp: committed_def split: prod.splits)
  next
    case 2
    then have "get_rule (rw_rules w) (rr_id (sn_raw s)) = Some (sn_raw s)" by (simp add: current_def)
    from engine_replaced[OF 2(4) this] recover_settles(1)[OF 2(3)] Inr show ?thesis
      by (auto simp: committed_def split: prod.splits)
  qed
qed

lemma monitor_finish_replaced:
  "replaced engine_step w (world_of w (monitor_finish env q w before after now))"
  by (auto simp: monitor_finish_def world_of_def Let_def split: option.splits sum.splits if_splits prod.splits
      dest: finish_transaction_replaced)

text \<open>An event goes through a page of rules, which are all there when it starts; each is replaced once.\<close>

definition keyed :: "rule_rows \<Rightarrow> bool" where
  "keyed rows \<longleftrightarrow> distinct (map (\<lambda>row. rr_id (snd row)) rows)"

lemma keyed_put: "keyed rows \<Longrightarrow> keyed (put_rule r rows)"
proof (cases "get_rule rows (rr_id r)")
  case None
  then have "\<forall>row \<in> set rows. rr_id (snd row) \<noteq> rr_id r" by (auto simp: get_rule_def find_None_iff)
  moreover assume "keyed rows"
  ultimately show ?thesis using None by (auto simp: keyed_def put_rule_def)
next
  case (Some q)
  then have "map (\<lambda>row. rr_id (snd row)) (put_rule r rows) = map (\<lambda>row. rr_id (snd row)) rows"
    by (auto simp: put_rule_def)
  moreover assume "keyed rows"
  ultimately show ?thesis by (simp only: keyed_def)
qed

lemma keyed_delete: "keyed rows \<Longrightarrow> keyed (delete_rule i rows)"
  by (simp add: keyed_def delete_rule_def distinct_map_filter)

lemma keyed_get: "keyed rows \<Longrightarrow> (n, r) \<in> set rows \<Longrightarrow> get_rule rows (rr_id r) = Some r"
proof (induction rows)
  case (Cons row rows)
  then show ?case by (cases row) (force simp: keyed_def get_rule_def)
qed simp

lemma event_rows_replaced:
  assumes "event_rows env q agent o' kind body key now rows w n checks = Inr (x, w')"
    and "\<And>m r. (m, r) \<in> set rows \<Longrightarrow> get_rule (rw_rules w) (rr_id r) = Some r" "keyed rows"
  shows "(replaced engine_step)\<^sup>*\<^sup>* w w'"
  using assms
proof (induction rows arbitrary: w n checks)
  case (Cons row rows)
  obtain m r where row: "row = (m, r)" by fastforce
  show ?case
  proof (cases "rr_agent r = agent")
    case False
    with Cons.prems(1) row have rest: "event_rows env q agent o' kind body key now rows w n checks = Inr (x, w')" by simp
    show ?thesis using Cons.prems(2,3) by (intro Cons.IH[OF rest]) (auto simp: keyed_def)
  next
    case True
    with Cons.prems(1) row obtain s d did w1 where "from_stored env r o' = Inr s" and d: "event env s kind body key now = Inr d"
      and a: "apply_decision (tr_accepts q) w d = Inr (did, w1)"
      and rest: "event_rows env q agent o' kind body key now rows w1 (if did then n + 1 else n)
            (case rd_check d of None \<Rightarrow> checks | Some c \<Rightarrow> checks @ [c]) = Inr (x, w')"
      by (auto split: if_splits elim!: try_result_InrE)
    then have s: "snapshot_ok env s" "sn_raw s = r" using from_stored_ok by blast+
    have g: "get_rule (rw_rules w) (rr_id r) = Some r" using Cons.prems(2)[of m r] row by simp
    have mv: "moves env s d" by (rule event_moves[OF d s(1)])
    have one: "replaced engine_step w w1"
      using a g s(2) mv by (intro engine_replaced[of "tr_accepts q" w d did w1 s env]) simp_all
    have "get_rule (rw_rules w1) (rr_id p) = Some p" if "(k, p) \<in> set rows" for k p
    proof -
      have ne: "rr_id p \<noteq> rr_id r" using Cons.prems(3) that row by (force simp: keyed_def)
      have "rw_rules w1 = rw_rules w \<or> (\<exists>r'. rw_rules w1 = put_rule r' (rw_rules w) \<and> rr_id r' = rr_id r)"
        using a by (cases rule: apply_decision_Inr) (use mv s(2) in \<open>auto simp: moves_def store_step_def\<close>)
      with ne Cons.prems(2)[of k p] that row show ?thesis by (auto simp: get_put)
    qed
    with Cons.IH[OF rest] Cons.prems(3) row have "(replaced engine_step)\<^sup>*\<^sup>* w1 w'" by (simp add: keyed_def)
    with one show ?thesis by (rule converse_rtranclp_into_rtranclp)
  qed
qed simp

lemma event_replaced:
  assumes "keyed (rw_rules w)"
  shows "(replaced engine_step)\<^sup>*\<^sup>* w (committed w (event_in_transaction env q w agent kind body key now after))"
proof (cases "event_in_transaction env q w agent kind body key now after")
  case (Inr x)
  then obtain o' y where e: "event_rows env q agent o' kind body key now (page (rw_rules w) after) w 0 [] = Inr (y, snd x)"
    by (auto simp: event_in_transaction_def Let_def elim!: try_result_InrE)
  have sub: "set (page (rw_rules w) after) \<subseteq> set (rw_rules w)"
    unfolding page_def using set_take_subset by fastforce
  have "keyed (page (rw_rules w) after)"
    using assms unfolding keyed_def page_def by (simp add: take_map[symmetric] distinct_map_filter)
  with e sub keyed_get[OF assms] have "(replaced engine_step)\<^sup>*\<^sup>* w (snd x)"
    by (intro event_rows_replaced[OF e]) auto
  with Inr show ?thesis by (auto simp: committed_def split: prod.splits)
qed (simp add: committed_def)

section \<open>Actions replace rules\<close>

text \<open>An action also makes new rules. A managed resume keeps the owner's hold; it is left out of
  \<open>tame_step\<close>, and is the only write that is not of this kind.\<close>

definition typed_step :: "rule_record option \<Rightarrow> rule_record \<Rightarrow> rule_wake option \<Rightarrow> bool" where
  "typed_step old r wake \<longleftrightarrow> (pred_option rule_typed old \<longrightarrow> rule_typed r)"

definition tame_step :: "rule_record option \<Rightarrow> rule_record \<Rightarrow> rule_wake option \<Rightarrow> bool" where
  "tame_step old r wake \<longleftrightarrow> wake_step old r wake \<or> old = None \<and> rule_typed r \<and> rule_consistent r \<and> wake = None"

lemma tame_typed: "tame_step old r wake \<Longrightarrow> typed_step old r wake"
  by (auto simp: tame_step_def typed_step_def engine_step_def wake_step_def)

lemma controlled_tame:
  assumes "controlled desired q r'" "rr_id q = rr_id r" "rr_checks q = rr_checks r" "rr_in_flight q = rr_in_flight r"
    and "rr_restart_check q = None" "rule_typed r \<Longrightarrow> rule_typed q"
    and "rule_consistent r \<Longrightarrow> rr_owner_hold q \<noteq> None \<Longrightarrow> desired = Paused \<and> \<not> rr_in_flight r"
  shows "tame_step (Some r) r' None"
proof -
  have c: "rr_checks r' = rr_checks r" "rr_in_flight r' = rr_in_flight r" "rr_restart_check r' = None"
      "rr_status r' = desired" "rr_owner_hold r' = rr_owner_hold q" "rule_typed r \<longrightarrow> rule_typed r'"
    using assms(1-6) by (simp_all add: controlled_def)
  have "rule_consistent r \<longrightarrow> rule_consistent r'"
    using c(2-5) assms(7) unfolding rule_consistent_def[of r'] by simp
  moreover have "open_check r' \<longrightarrow> open_check r" using c by (simp add: open_check_def)
  ultimately show ?thesis using c(1,6) by (simp add: tame_step_def engine_step_def wake_step_def)
qed

lemma persisted_tame:
  assumes "persisted_rule f cx = Inr r" "cx_previous cx = old"
  shows "tame_step old r None" "is_finite x \<Longrightarrow> tame_step old (r\<lparr>rr_next_at := Float x\<rparr>) None"
proof -
  note p = persisted_rule_facts[OF assms(1)]
  have typed: "pred_option rule_typed old \<Longrightarrow> rule_typed r"
    using assms by (intro persisted_rule_typed[OF assms(1)]) (auto simp: pred_option_def)
  have c: "rule_consistent r" "\<not> open_check r" "rule_consistent (r\<lparr>rr_next_at := Float x\<rparr>)"
      "\<not> open_check (r\<lparr>rr_next_at := Float x\<rparr>)"
    using p by (simp_all add: rule_consistent_def open_check_def)
  have t: "pred_option rule_typed old \<Longrightarrow> is_finite x \<Longrightarrow> rule_typed (r\<lparr>rr_next_at := Float x\<rparr>)"
    using typed by (simp add: rule_typed_bounded)
  show "tame_step old r None"
    using typed c p(3) assms(2) by (cases old) (simp_all add: tame_step_def engine_step_def wake_step_def previous_or_def)
  show "is_finite x \<Longrightarrow> tame_step old (r\<lparr>rr_next_at := Float x\<rparr>) None"
    using t c p(3) assms(2) by (cases old) (simp_all add: tame_step_def engine_step_def wake_step_def previous_or_def)
qed

lemma http_save_write:
  assumes "http_save b at actor i old path fp now = Inr (r, v)"
  shows "v = NoWrite \<or> v = PutRule r \<and> rr_id r = i \<and> tame_step old r None"
proof -
  define cx where "cx = \<lparr>cx_id = i, cx_actor = actor, cx_previous = old, cx_path = path, cx_fingerprint = fp, cx_now = now\<rparr>"
  obtain t where t: "at = Some t" using assms by (cases at) (simp_all add: http_save_def split: if_splits)
  obtain f where f: "checked_rule_save (http_save_input b t) now (ac_is_lead actor = Some True) Http = Inr f"
    using assms t
    by (cases "checked_rule_save (http_save_input b t) now (ac_is_lead actor = Some True) Http")
      (simp_all add: http_save_def split: if_splits)
  obtain p where p: "persisted_rule f cx = Inr p"
    using assms t f by (cases "persisted_rule f cx") (simp_all add: http_save_def cx_def split: if_splits)
  define kept where "kept = (case old of None \<Rightarrow> None
      | Some previous \<Rightarrow> if kind_str (sf_kind f) = ''low_workers'' \<and> low_worker_rule_unchanged previous p then Some previous else None)"
  have "(case kept of Some previous \<Rightarrow> Inr (previous, NoWrite)
      | None \<Rightarrow> try_result (if kind_str (sf_kind f) = ''low_workers'' then try_result (number now) (\<lambda>at. Inr (p\<lparr>rr_next_at := at\<rparr>)) else Inr p)
          (\<lambda>rule. Inr (rule, PutRule rule))) = Inr (r, v)"
    using assms t f p[unfolded cx_def] by (simp add: http_save_def kept_def Let_def cong: if_cong split: if_splits)
  then have "v = NoWrite \<or> v = PutRule r \<and> (r = p \<or> (\<exists>x. is_finite x \<and> r = p\<lparr>rr_next_at := Float x\<rparr>))"
    by (auto simp: number_def number_from_f64_def split: option.splits if_splits elim!: try_result_InrE)
  moreover have "cx_previous cx = old" "cx_id cx = i" by (simp_all add: cx_def)
  ultimately show ?thesis using persisted_tame[OF p] persisted_rule_facts(1)[OF p] by auto
qed

lemma managed_save_write:
  assumes "managed_save f actor i old path fp now = Inr (r, v)"
  shows "v = NoWrite \<or> v = PutRule r \<and> rr_id r = i \<and> tame_step old r None"
proof -
  define cx where "cx = \<lparr>cx_id = i, cx_actor = actor, cx_previous = old, cx_path = path, cx_fingerprint = fp, cx_now = now\<rparr>"
  obtain p where p: "persisted_rule f cx = Inr p"
    using assms by (cases "persisted_rule f cx") (simp_all add: managed_save_def cx_def)
  define kept where "kept = (case old of None \<Rightarrow> None
      | Some previous \<Rightarrow> if is_low_workers (rr_kind p) \<and> low_worker_rule_unchanged previous p then Some previous else None)"
  have "(case kept of Some previous \<Rightarrow> Inr (previous, NoWrite)
      | None \<Rightarrow> if is_low_workers (rr_kind p) then
          (case number_from_f64 now of None \<Rightarrow> Inl MeTime
           | Some at \<Rightarrow> Inr (p\<lparr>rr_next_at := at\<rparr>, PutRule (p\<lparr>rr_next_at := at\<rparr>)))
        else Inr (p, PutRule p)) = Inr (r, v)"
    using assms p[unfolded cx_def] unfolding managed_save_def Let_def kept_def by simp
  then have "v = NoWrite \<or> v = PutRule r \<and> (r = p \<or> is_finite now \<and> r = p\<lparr>rr_next_at := Float now\<rparr>)"
    by (cases kept) (auto simp: number_from_f64_def split: if_splits)
  moreover have "cx_previous cx = old" "cx_id cx = i" by (simp_all add: cx_def)
  ultimately show ?thesis using persisted_tame[OF p] persisted_rule_facts(1)[OF p] by auto
qed

lemma http_control_write:
  assumes "http_control desired actor r fp now = Inr (r', v)"
  shows "v = NoWrite \<or> v = PutRule r' \<and> rr_id r' = rr_id r \<and> tame_step (Some r) r' None"
  using http_control_Inr[OF assms]
proof
  assume c: "v = PutRule r' \<and> controlled desired (r\<lparr>rr_owner_hold := None, rr_restart_check := None\<rparr>) r'"
  then have "tame_step (Some r) r' None" by (intro controlled_tame[OF conjunct2[OF c]]) simp_all
  with c show ?thesis by (simp add: controlled_def)
qed simp

lemma managed_control_write:
  assumes "managed_control desired actor r fp now = Inr (r', v)"
  shows "v = NoWrite \<or> v = PutRule r' \<and> rr_id r' = rr_id r \<and> typed_step (Some r) r' None
     \<and> (desired = Paused \<longrightarrow> tame_step (Some r) r' None)"
  using managed_control_Inr[OF assms]
proof
  assume c: "v = PutRule r' \<and> controlled desired (r\<lparr>rr_restart_check := None\<rparr>) r'"
  then have "tame_step (Some r) r' None" if "desired = Paused"
    by (intro controlled_tame[OF conjunct2[OF c]]) (simp_all add: that rule_consistent_def)
  with c show ?thesis by (simp add: controlled_def typed_step_def)
qed simp

lemma http_update_write:
  assumes "http_update action now at i pa po path fp agent old checks = Inr (resp, v, ids)"
    and "\<And>r. old = Some r \<Longrightarrow> rr_id r = i"
  shows "v = NoWrite \<or> v = DeleteRule i \<and> action = Delete \<or> (\<exists>r. v = PutRule r \<and> rr_id r = i \<and> tame_step old r None)"
proof -
  consider (del) "v = DeleteRule i" "action = Delete"
    | (save) b actor r where "http_save b at actor i old path fp now = Inr (r, v)"
    | (control) desired actor r q where "old = Some q" "http_control desired actor q fp now = Inr (r, v)"
    using assms(1) unfolding http_update_def Let_def
    by (cases action) (auto simp: try_result_Inr split: option.splits if_splits prod.splits)
  then show ?thesis
  proof cases
    case save
    from http_save_write[OF this] show ?thesis by auto
  next
    case (control desired actor r q)
    from http_control_write[OF this(2)] assms(2)[OF this(1)] this(1) show ?thesis by auto
  qed simp
qed

lemma managed_rules_write:
  assumes "managed_rules action actor i old path fp now = Inr v" and "\<And>r. old = Some r \<Longrightarrow> rr_id r = i"
  shows "v = NoWrite \<or> v = DeleteRule i \<and> action = ManagedDelete
    \<or> (\<exists>r. v = PutRule r \<and> rr_id r = i \<and> typed_step old r None \<and> (action \<noteq> ManagedResume \<longrightarrow> tame_step old r None))"
proof -
  consider (del) "v = DeleteRule i" "action = ManagedDelete"
    | (save) f r where "managed_save f actor i old path fp now = Inr (r, v)"
    | (control) q r where "old = Some q"
        "managed_control (if action = ManagedResume then Active else Paused) actor q fp now = Inr (r, v)"
    using assms(1) unfolding managed_rules_def
    by (cases action) (auto simp: try_result_Inr split: option.splits if_splits)
  then show ?thesis
  proof cases
    case save
    from managed_save_write[OF this] tame_typed show ?thesis by auto
  next
    case (control q r)
    from managed_control_write[OF this(2)] assms(2)[OF this(1)] this(1) show ?thesis by auto
  qed simp
qed

end
