(* ===== verification/Rule_Runs.thy ===== *)
theory Rule_Runs
  imports Rule_Life
begin

text \<open>
  The invariants of runs of the rule components: every run keeps stored rules within their types, and a
  run that neither deletes rules nor resumes one by an agent gives the wake of a check at most once.
\<close>

section \<open>Steps\<close>

lemma replaced_mono: "replaced ok w w' \<Longrightarrow> (\<And>old r wake. ok old r wake \<Longrightarrow> ok' old r wake) \<Longrightarrow> replaced ok' w w'"
  unfolding replaced_def by blast

lemma replaced_star_mono:
  "(replaced ok)\<^sup>*\<^sup>* w w' \<Longrightarrow> (\<And>old r wake. ok old r wake \<Longrightarrow> ok' old r wake) \<Longrightarrow> (replaced ok')\<^sup>*\<^sup>* w w'"
  using rtranclp_mono[of "replaced ok" "replaced ok'"] replaced_mono by blast

lemma apply_write_replaced:
  "ok (get_rule (rw_rules w) (rr_id r)) r None \<Longrightarrow> replaced ok w (apply_write (PutRule r) w)"
  unfolding replaced_def apply_write_def store_step_def by (intro disjI2 exI[of _ r] exI[of _ None]) simp

lemma http_step_write:
  assumes "rule_step env w (OpHttp action now at i pa po path fp agent checks) = w'"
  shows "replaced tame_step w w' \<or> action = Delete \<and> w' = apply_write (DeleteRule i) w"
proof (cases "http_update action now at i pa po path fp agent (get_rule (rw_rules w) i) checks")
  case (Inl e)
  with assms show ?thesis by simp
next
  case (Inr x)
  obtain resp v ids where x: "x = (resp, v, ids)" by (cases x)
  with Inr assms have "w' = apply_write v w" by simp
  moreover note http_update_write[OF Inr[unfolded x] get_rule_id[of "rw_rules w"]]
  ultimately show ?thesis by (auto simp: apply_write_def[of NoWrite] intro!: apply_write_replaced)
qed

lemma managed_step_write:
  assumes "rule_step env w (OpManaged action actor i path fp now) = w'"
  shows "replaced typed_step w w' \<and> (action \<noteq> ManagedResume \<longrightarrow> replaced tame_step w w')
    \<or> action = ManagedDelete \<and> w' = apply_write (DeleteRule i) w"
proof (cases "managed_rules action actor i (get_rule (rw_rules w) i) path fp now")
  case (Inl e)
  with assms show ?thesis by simp
next
  case (Inr v)
  with assms have "w' = apply_write v w" by simp
  moreover note managed_rules_write[OF Inr get_rule_id[of "rw_rules w"]]
  ultimately show ?thesis by (auto simp: apply_write_def[of NoWrite] intro!: apply_write_replaced)
qed

fun tame_op :: "rule_op \<Rightarrow> bool" where
  "tame_op (OpHttp Delete _ _ _ _ _ _ _ _ _) = False"
| "tame_op (OpManaged ManagedDelete _ _ _ _ _) = False"
| "tame_op (OpManaged ManagedResume _ _ _ _ _) = False"
| "tame_op _ = True"

fun engine_op :: "rule_op \<Rightarrow> bool" where
  "engine_op (OpHttp _ _ _ _ _ _ _ _ _ _) = False"
| "engine_op (OpManaged _ _ _ _ _ _) = False"
| "engine_op _ = True"

lemma engine_op_replaced:
  assumes "keyed (rw_rules w)" "engine_op op"
  shows "(replaced engine_step)\<^sup>*\<^sup>* w (rule_step env w op)"
proof (cases op)
  case (OpTick q r o' now fp)
  then show ?thesis by (auto split: sum.split intro!: tick_row_replaced dest: from_stored_ok)
next
  case (OpEvent q agent kind body key now after)
  then show ?thesis using event_replaced[OF assms(1)] by simp
next
  case (OpFinish q c result now)
  then show ?thesis by (auto simp: committed_def split: sum.split dest: finish_transaction_replaced)
next
  case (OpSettle q c submission now)
  then show ?thesis using settle_submission_replaced by auto
next
  case (OpRecover q r o' state now)
  then show ?thesis by (auto split: sum.split intro!: recover_row_replaced dest: from_stored_ok)
next
  case (OpMonitor q before after now)
  then show ?thesis using monitor_finish_replaced by auto
qed (use assms(2) in simp_all)

lemma tame_op_replaced:
  assumes "keyed (rw_rules w)" "tame_op op"
  shows "(replaced tame_step)\<^sup>*\<^sup>* w (rule_step env w op)"
proof (cases "engine_op op")
  case True
  from engine_op_replaced[OF assms(1) this] show ?thesis by (rule replaced_star_mono) (simp add: tame_step_def engine_step_def)
next
  case False
  then consider a now at i pa po path fp agent cs where "op = OpHttp a now at i pa po path fp agent cs"
    | a actor i path fp now where "op = OpManaged a actor i path fp now" by (cases op) simp_all
  then show ?thesis
  proof cases
    case 1
    with assms(2) have "a \<noteq> Delete" by auto
    with 1 http_step_write[of env w a now at i pa po path fp agent cs] show ?thesis by auto
  next
    case 2
    with assms(2) have "a \<noteq> ManagedDelete" "a \<noteq> ManagedResume" by auto
    with 2 managed_step_write[of env w a actor i path fp now] show ?thesis by auto
  qed
qed

lemma any_op_replaced:
  assumes "keyed (rw_rules w)"
  shows "(replaced typed_step)\<^sup>*\<^sup>* w (rule_step env w op) \<or> (\<exists>i. rule_step env w op = apply_write (DeleteRule i) w)"
proof (cases "tame_op op")
  case True
  from tame_op_replaced[OF assms this] show ?thesis by (blast intro: replaced_star_mono tame_typed)
next
  case False
  then consider now at i pa po path fp agent cs where "op = OpHttp Delete now at i pa po path fp agent cs"
    | a actor i path fp now where "op = OpManaged a actor i path fp now"
    by (cases op rule: tame_op.cases) auto
  then show ?thesis
  proof cases
    case 1
    with http_step_write[of env w Delete now at i pa po path fp agent cs] show ?thesis
      by (blast intro: replaced_mono tame_typed)
  next
    case 2
    with managed_step_write[of env w a actor i path fp now] show ?thesis by blast
  qed
qed

section \<open>Types over runs\<close>

definition rules_typed :: "rule_world \<Rightarrow> bool" where
  "rules_typed w \<longleftrightarrow> keyed (rw_rules w) \<and> (\<forall>i r. get_rule (rw_rules w) i = Some r \<longrightarrow> rule_typed r)"

lemma replaced_typed: "replaced typed_step w w' \<Longrightarrow> rules_typed w \<Longrightarrow> rules_typed w'"
  by (auto simp: replaced_def rules_typed_def store_step_def get_put keyed_put typed_step_def pred_option_def split: if_splits)

lemma rule_step_typed: "rules_typed w \<Longrightarrow> rules_typed (rule_step env w op)"
proof -
  assume w: "rules_typed w"
  have star: "rules_typed w'" if "(replaced typed_step)\<^sup>*\<^sup>* w w'" for w'
    using that w by (induction rule: rtranclp_induct) (auto intro: replaced_typed)
  have "rules_typed (apply_write (DeleteRule i) w)" for i
    using w by (simp add: rules_typed_def apply_write_def keyed_delete get_delete)
  with star any_op_replaced[of w env op] w show ?thesis by (auto simp: rules_typed_def)
qed

interpretation typed_rules: guarded_machine "rule_step env" rules_typed for env
  by unfold_locales (rule rule_step_typed)

section \<open>Wakes over runs\<close>

lemma colon_decimal: "c \<in> set (rev (decimal n)) \<Longrightarrow> c \<noteq> CHR '':''"
proof -
  assume "c \<in> set (rev (decimal n))"
  with decimal_chars[of n] have "is_digit_char c" by (simp add: list_all_iff)
  then show "c \<noteq> CHR '':''" by (auto simp: is_digit_char_def)
qed

lemma wake_name_inject:
  assumes "wake_name i m = wake_name j n" "0 \<le> m" "0 \<le> n"
  shows "i = j \<and> m = n"
proof -
  have split: "takeWhile (\<lambda>c. c \<noteq> CHR '':'') (rev (wake_name i m)) = rev (decimal (nat m))" for i m
    using takeWhile_append2[of "rev (decimal (nat m))" "\<lambda>c. c \<noteq> CHR '':''", OF colon_decimal]
    by (simp add: wake_name_def)
  have d: "decimal (nat m) = decimal (nat n)"
    using split[of i m] split[of j n] assms(1) by simp
  then have "int (nat m) = int (nat n)" by (metis digits_value_decimal)
  with assms d show ?thesis by (simp add: wake_name_def)
qed

definition rule_wake_ids :: "rule_world \<Rightarrow> string list" where
  "rule_wake_ids w = map wk_id (filter (\<lambda>x. wk_kind x = ''rule'') (rw_wakes w))"

text \<open>The check a wake is for is over: a later one was counted, or the rule has none open.\<close>

definition wake_settled :: "rule_world \<Rightarrow> string \<Rightarrow> bool" where
  "wake_settled w x \<longleftrightarrow>
     (\<exists>i r n. get_rule (rw_rules w) i = Some r \<and> x = wake_name i n \<and> 0 \<le> n \<and> n \<le> rr_checks r
        \<and> (n = rr_checks r \<longrightarrow> \<not> open_check r))"

definition wakes_once :: "rule_world \<Rightarrow> bool" where
  "wakes_once w \<longleftrightarrow> rules_typed w \<and> (\<forall>i r. get_rule (rw_rules w) i = Some r \<longrightarrow> rule_consistent r)
     \<and> distinct (rule_wake_ids w) \<and> (\<forall>x \<in> set (rule_wake_ids w). wake_settled w x)"

lemma wake_settled_put:
  assumes "wake_settled w x" "wake_step (get_rule (rw_rules w) (rr_id r)) r wake"
    and "\<forall>q. get_rule (rw_rules w) (rr_id r) = Some q \<longrightarrow> rule_consistent q"
  shows "wake_settled (store_step w r wake) x"
proof -
  obtain i q n where q: "get_rule (rw_rules w) i = Some q" "x = wake_name i n" "0 \<le> n" "n \<le> rr_checks q"
      "n = rr_checks q \<longrightarrow> \<not> open_check q"
    using assms(1) by (auto simp: wake_settled_def)
  show ?thesis
  proof (cases "i = rr_id r")
    case False
    with q show ?thesis unfolding wake_settled_def
      by (intro exI[of _ i] exI[of _ q] exI[of _ n]) (simp add: store_step_def get_put)
  next
    case True
    with assms q(1) have "rr_checks q \<le> rr_checks r" "rr_checks r = rr_checks q \<longrightarrow> open_check r \<longrightarrow> open_check q"
      by (auto simp: wake_step_def)
    with True q show ?thesis unfolding wake_settled_def
      by (intro exI[of _ i] exI[of _ r] exI[of _ n]) (auto simp: store_step_def get_put)
  qed
qed

lemma wake_settled_new:
  assumes "wake_settled w x" "get_rule (rw_rules w) (rr_id r) = None"
  shows "wake_settled (store_step w r wake) x"
proof -
  obtain i q n where q: "get_rule (rw_rules w) i = Some q" "x = wake_name i n" "0 \<le> n"
      "n \<le> rr_checks q" "n = rr_checks q \<longrightarrow> \<not> open_check q"
    using assms(1) by (auto simp: wake_settled_def)
  moreover from this(1) assms(2) have "i \<noteq> rr_id r" by auto
  ultimately show ?thesis unfolding wake_settled_def
    by (intro exI[of _ i] exI[of _ q] exI[of _ n]) (simp add: store_step_def get_put)
qed

lemma typed_checks: "rule_typed r \<Longrightarrow> 0 \<le> rr_checks r"
  by (simp add: rule_typed_def counter_typed_def)

text \<open>The id of a new wake is not among the given ones, and its check is over after it.\<close>

lemma new_wake:
  assumes "wake_step (Some q) r (Some x)" "wk_kind x = ''rule''" "get_rule (rw_rules w) (rr_id r) = Some q"
    and "rule_typed q" "rule_consistent q"
  shows "\<not> wake_settled w (wk_id x)" "wake_settled (store_step w r (Some x)) (wk_id x)"
proof -
  have x: "wk_id x = wake_name (rr_id r) (rr_checks r)" "rr_checks q < rr_checks r \<or> open_check q" "\<not> open_check r"
      "rr_checks q \<le> rr_checks r" "rule_typed r"
    using assms by (auto simp: wake_step_def)
  show "\<not> wake_settled w (wk_id x)"
  proof
    assume "wake_settled w (wk_id x)"
    then obtain i p n where p: "get_rule (rw_rules w) i = Some p" "wk_id x = wake_name i n" "0 \<le> n" "n \<le> rr_checks p"
        "n = rr_checks p \<longrightarrow> \<not> open_check p"
      by (auto simp: wake_settled_def)
    with wake_name_inject[of "rr_id r" "rr_checks r" i n] x typed_checks have "i = rr_id r" "n = rr_checks r" by auto
    with p assms(3) x show False by auto
  qed
  show "wake_settled (store_step w r (Some x)) (wk_id x)"
    unfolding wake_settled_def using x typed_checks
    by (intro exI[of _ "rr_id r"] exI[of _ r] exI[of _ "rr_checks r"]) (simp add: store_step_def get_put)
qed

lemma wake_ids_store:
  "rule_wake_ids (store_step w r wake) =
     rule_wake_ids w @ (case wake of None \<Rightarrow> [] | Some x \<Rightarrow> if wk_kind x = ''rule'' then [wk_id x] else [])"
  by (simp add: rule_wake_ids_def store_step_def split: option.split)

lemma replaced_wakes_once:
  assumes "replaced tame_step w w'" "wakes_once w"
  shows "wakes_once w'"
proof (cases "w' = w")
  case False
  with assms(1) obtain r wake where w': "w' = store_step w r wake"
    and t: "tame_step (get_rule (rw_rules w) (rr_id r)) r wake" by (auto simp: replaced_def)
  have typed: "rules_typed w'"
    using assms by (auto simp: wakes_once_def intro: replaced_typed replaced_mono tame_typed)
  have old: "rule_typed q \<and> rule_consistent q" if "get_rule (rw_rules w) i = Some q" for i q
    using that assms(2) by (auto simp: wakes_once_def rules_typed_def)
  have cons: "\<forall>i q. get_rule (rw_rules w') i = Some q \<longrightarrow> rule_consistent q"
    using t old w' by (auto simp: tame_step_def wake_step_def store_step_def get_put)
  have keep: "wake_settled w' x" if "x \<in> set (rule_wake_ids w)" for x
    using t w' old that assms(2) wake_settled_put[of w x r wake] wake_settled_new[of w x r wake]
    by (auto simp: tame_step_def wakes_once_def)
  have new: "\<not> wake_settled w (wk_id x) \<and> wake_settled w' (wk_id x)" if "wake = Some x" "wk_kind x = ''rule''" for x
  proof -
    from t that obtain q where q: "get_rule (rw_rules w) (rr_id r) = Some q" "wake_step (Some q) r (Some x)"
      by (auto simp: tame_step_def wake_step_def)
    with new_wake[OF q(2) that(2) q(1)] old[OF q(1)] w' that(1) show ?thesis by simp
  qed
  have "distinct (rule_wake_ids w')" "\<forall>x \<in> set (rule_wake_ids w'). wake_settled w' x"
    using w' keep new assms(2) by (auto simp: wake_ids_store wakes_once_def split: option.splits)
  with typed cons show ?thesis by (simp add: wakes_once_def)
qed (use assms in simp)

lemma tame_run_wakes_once:
  "wakes_once w \<Longrightarrow> list_all tame_op ops \<Longrightarrow> wakes_once (rule_run env w ops)"
proof (induction ops arbitrary: w)
  case (Cons op ops)
  have "keyed (rw_rules w)" "tame_op op" "list_all tame_op ops"
    using Cons.prems by (simp_all add: wakes_once_def rules_typed_def)
  then have "(replaced tame_step)\<^sup>*\<^sup>* w (rule_step env w op)" by (simp add: tame_op_replaced)
  then have "wakes_once (rule_step env w op)"
    using Cons.prems(1) by (induction rule: rtranclp_induct) (simp_all add: replaced_wakes_once)
  from Cons.IH[OF this \<open>list_all tame_op ops\<close>] show ?case by (simp add: rule_run_def)
qed (simp add: rule_run_def)

definition no_rules :: rule_world where
  "no_rules = \<lparr>rw_rules = [], rw_wakes = []\<rparr>"

lemma no_rules_start: "rules_typed no_rules" "wakes_once no_rules"
  by (simp_all add: no_rules_def rules_typed_def wakes_once_def keyed_def get_rule_def rule_wake_ids_def)

end
