(* ===== verification/Rule_Outcomes.thy ===== *)
theory Rule_Outcomes
  imports Rule_Runs
begin

text \<open>
  What the rule components give their users: stored rules stay within their types, a check wakes its
  agent once, a pause holds, a check that was decided is launched, a restart loses no result of an
  active rule, and an alert comes after the time it names. Some cases the code does not cover are
  stated as well: a managed pause that the next tick undoes, a liveness probe that a restart leaves
  behind, and a check of an event that is never launched.
\<close>

section \<open>Reserved checks\<close>

lemma finish_no_check: "finish env s now result = Inr d \<Longrightarrow> rd_check d = None"
  by (erule finish_Inr)

text \<open>A check that a decision gives out is the one of the rule it stores.\<close>

definition reserves :: "rule_env \<Rightarrow> rule_snapshot \<Rightarrow> rule_decision \<Rightarrow> rule_check \<Rightarrow> rule_record \<Rightarrow> bool" where
  "reserves env s d c q \<longleftrightarrow>
     rd_record d = Some q \<and> rd_wake d = None \<and> c = check env (s\<lparr>sn_raw := q\<rparr>)
     \<and> rr_in_flight q \<and> rr_status q = Active \<and> ow_auto_wake (sn_owner s) \<and> rr_epoch q = ow_epoch (sn_owner s)
     \<and> rr_id q = rr_id (sn_raw s) \<and> rr_agent q = rr_agent (sn_raw s) \<and> rr_epoch q = rr_epoch (sn_raw s)
     \<and> rr_liveness_command q = rr_liveness_command (sn_raw s)
     \<and> (rr_stall_probe q = rr_stall_probe (sn_raw s) \<or> rr_stall_probe q = Some True)"

lemma launch_reserves:
  assumes "launch env s q now = Inr d" "snapshot_ok env s" "rd_check d = Some c" "rr_in_flight q"
    and "rr_id q = rr_id (sn_raw s)" "rr_agent q = rr_agent (sn_raw s)" "rr_epoch q = rr_epoch (sn_raw s)"
    and "rr_liveness_command q = rr_liveness_command (sn_raw s)"
    and "rr_stall_probe q = rr_stall_probe (sn_raw s) \<or> rr_stall_probe q = Some True"
  shows "reserves env s d c q"
  using assms(1,2,6)
proof (cases rule: launch_Inr)
  case refused
  with assms(3) show ?thesis by simp
next
  case immediate
  with assms(3) finish_no_check[OF immediate(1)] show ?thesis by simp
next
  case command
  with assms(3-9) show ?thesis by (simp add: reserves_def)
qed

lemma low_workers_no_check: "low_workers env s now workers m n = Inr d \<Longrightarrow> rd_check d = None"
  unfolding low_workers_def Let_def
  by (elim try_result_InrE) (auto split: if_splits dest: finish_no_check elim!: try_result_InrE)

lemma tick_reserves:
  assumes "tick env s now ob = Inr d" "snapshot_ok env s" "rd_check d = Some c"
  shows "runnable s (ob_held_input ob) \<and> (\<exists>q. reserves env s d c q)"
  using assms(1)
proof (cases rule: tick_Inr)
  case resume
  with assms(3) show ?thesis by (simp add: resume_after_owner_hold_def Let_def split: option.splits if_splits)
next
  case runs
  from runs(2) have "\<exists>q. reserves env s d c q"
  proof (cases rule: tick_kind_Inr)
    case stall
    from stall(2) show ?thesis
    proof (cases rule: tick_stalled_Inr)
      case (probe k tx)
      from launch_reserves[OF probe(1) assms(2,3)] show ?thesis by auto
    qed (use assms(3) in simp_all)
  next
    case due
    from due(5) show ?thesis
    proof (cases rule: tick_due_Inr)
      case (start q)
      from start(4) have "rr_id q = rr_id (sn_raw s)" "rr_agent q = rr_agent (sn_raw s)" "rr_epoch q = rr_epoch (sn_raw s)"
        "rr_liveness_command q = rr_liveness_command (sn_raw s)" "rr_stall_probe q = rr_stall_probe (sn_raw s)" by auto
      with launch_reserves[OF start(1) assms(2,3)] show ?thesis by auto
    qed (use assms(3) in simp)
  qed (use assms(3) low_workers_no_check in \<open>auto simp: tick_missed_def elim!: try_result_InrE\<close>)
  with runs(1) show ?thesis by simp
qed (use assms(3) in simp_all)

lemma event_reserves:
  assumes "event env s kind body key now = Inr d" "snapshot_ok env s" "rd_check d = Some c"
  shows "\<exists>q. reserves env s d c q"
proof (cases "event_starts s kind key")
  case False
  with assms show ?thesis by (auto simp: event_def Let_def elim!: try_result_InrE)
next
  case True
  with assms(1) obtain at n b where
    "launch env s ((sn_raw s)\<lparr>rr_in_flight := True, rr_last_event := Some key, rr_last_at := Some at,
        rr_checks := n, rr_event_text := Some b\<rparr>) now = Inr d"
    by (auto simp: event_def Let_def elim!: try_result_InrE)
  from launch_reserves[OF this assms(2,3)] show ?thesis by auto
qed

text \<open>The launch intent names exactly the check it was made from.\<close>

lemma intent_of_check: "intent_of c = Inr i \<Longrightarrow> launch_intent_check (r\<lparr>rr_launch_intent := Some i\<rparr>) = Some c"
  by (cases c) (auto simp: intent_of_def launch_intent_check_def schema_or_def i64_of_u64_def bounded_integer_def bounded_text_def
      split: option.splits if_splits bind_splits elim!: try_result_InrE)

lemma apply_reserved:
  assumes "reserves env s d c q" "rd_check d = Some c" "apply_decision accepts w d = Inr (b, w')"
  obtains i where "intent_of c = Inr i" "get_rule (rw_rules w') (rr_id q) = Some (q\<lparr>rr_launch_intent := Some i\<rparr>)"
  using assms
  by (auto simp: apply_decision_def reserves_def Let_def get_put split: option.splits if_splits elim!: try_result_InrE)

lemma submit_reserved:
  assumes "reserves env s d c q" "rd_check d = Some c" "apply_decision accepts w d = Inr (b, w')"
    and "snapshot_ok env s" "tr_agents reads (rr_agent (sn_raw s)) = Some (sn_owner_raw s)" "tr_available reads"
  shows "submit_allowed env reads w' c =
    Inr (\<not> deleted (sn_owner s) \<and> \<not> recovery_pending (sn_owner s) (rr_epoch (sn_raw s)))"
proof -
  obtain i where i: "intent_of c = Inr i" "get_rule (rw_rules w') (rr_id q) = Some (q\<lparr>rr_launch_intent := Some i\<rparr>)"
    using assms(1-3) by (rule apply_reserved)
  let ?q = "q\<lparr>rr_launch_intent := Some i\<rparr>"
  have q: "rr_in_flight q" "rr_status q = Active" "ow_auto_wake (sn_owner s)" "rr_epoch q = ow_epoch (sn_owner s)"
      "rr_agent q = rr_agent (sn_raw s)" "rr_epoch q = rr_epoch (sn_raw s)" "c = check env (s\<lparr>sn_raw := q\<rparr>)"
    using assms(1) by (simp_all add: reserves_def)
  have load: "load_snapshot env (tr_agents reads) ?q = Inr (s\<lparr>sn_raw := ?q\<rparr>)"
    using with_record_ok[OF assms(4), of ?q] q(5) assms(5)
    by (simp add: load_snapshot_def owner_value_def rule_result_def with_record_def)
  have c: "check env (s\<lparr>sn_raw := ?q\<rparr>) = c" "ck_epoch c = rr_epoch q" "ck_rule_id c = rr_id q"
    using q(7) by (simp_all add: check_def Let_def monitor_name_def)
  have "launch_allowed env (s\<lparr>sn_raw := ?q\<rparr>) c \<longleftrightarrow> \<not> deleted (sn_owner s) \<and> \<not> recovery_pending (sn_owner s) (rr_epoch (sn_raw s))"
    unfolding launch_allowed_def c(1) using c(2) q(1-4,6) by simp
  with i(2) load c(3) assms(6) intent_of_check[OF i(1), of q] show ?thesis by (simp add: submit_allowed_def)
qed

section \<open>Examples\<close>

definition sample_owner :: owner where
  "sample_owner = \<lparr>ow_id = ''a'', ow_epoch = 1, ow_status = ''idle'', ow_auto_wake = True, ow_deleted_at = None,
     ow_account_key = None, ow_thread_id = None, ow_restart_recovery = None, ow_disconnect_recovery = None,
     ow_native_failure_hold = JNull, ow_archived = JNull\<rparr>"

definition sample_env :: "owner \<Rightarrow> rule_env" where
  "sample_env o' = \<lparr>read_owner = (\<lambda>_. Inr o'), print_json = (\<lambda>_. ''{}''), uuid_v5_url = (\<lambda>s. s), wake_directive = (\<lambda>_. None)\<rparr>"

definition sample_actor :: rule_actor where
  "sample_actor = \<lparr>ac_id = ''a'', ac_root_id = ''a'', ac_epoch = 1, ac_auto_wake = Some True, ac_is_lead = Some True\<rparr>"

definition sample_agent :: json where
  "sample_agent = JObject [(''epoch'', JNumber (PosInt 1)), (''id'', JString ''a'')]"

definition sample_reads :: tick_reads where
  "sample_reads = \<lparr>tr_agents = (\<lambda>_. Some sample_agent), tr_read_worker = (\<lambda>_. Inl Schema), tr_activity = (\<lambda>_. ([], [])),
     tr_held_input = (\<lambda>_. False), tr_available = True, tr_accepts = (\<lambda>_. True)\<rparr>"

definition sample_body :: rule_body where
  "sample_body = \<lparr>bo_kind = Some ''event'', bo_name = Some ''n'', bo_text = Some ''t'', bo_command = None, bo_path = None,
     bo_liveness_command = None, bo_interval_seconds = None, bo_stall_timeout_seconds = None, bo_stall_alias = None,
     bo_minimum_workers = None, bo_duration_minutes = None, bo_event = None\<rparr>"

definition sample_save :: rule_op where
  "sample_save = OpHttp (Save sample_body) (Finite 5) (Some (Finite 7)) ''r'' sample_agent None None None
     (Some (sample_actor, sample_agent)) []"

definition sample_event_op :: "string \<Rightarrow> rule_op" where
  "sample_event_op key = OpEvent sample_reads ''a'' ''child_result'' ''done'' key (Finite 9) 0"

definition sample_rule :: "rule_kind \<Rightarrow> string \<Rightarrow> rule_record" where
  "sample_rule kind command =
     \<lparr>rr_active_workers = None, rr_agent = ''a'', rr_alerted = None, rr_at = Some (Float (Finite 7)), rr_checks = 0,
      rr_command = command, rr_created = Float (Finite 5), rr_epoch = 1, rr_error = None, rr_event = ''worker_completed'',
      rr_event_text = None, rr_file_activity_at = Some (Float (Finite 5)), rr_file_generation = 0, rr_fingerprint = None,
      rr_id = ''r'', rr_in_flight = False, rr_interval_seconds = 60, rr_kind = kind, rr_last_at = None, rr_last_event = None,
      rr_last_exit_code = None, rr_last_finished = None, rr_last_output = None, rr_last_stall_error = None,
      rr_last_stall_exit_code = None, rr_last_stall_finished = None, rr_launch_intent = None, rr_liveness_command = [],
      rr_low_since = None, rr_name = ''n'', rr_next_at = Float (Finite 7), rr_owner_hold = None, rr_restart_check = None,
      rr_root_id = Some ''a'', rr_stall_event_key = None, rr_stall_probe = None, rr_stall_text = None,
      rr_stall_timeout_seconds = 0, rr_stall_wake_generation = - 1, rr_status = Active, rr_text = ''t'', rr_wakes = 0\<rparr>"

definition sample_paused :: rule_record where
  "sample_paused = (sample_rule Interval ''c'')\<lparr>rr_status := Paused, rr_next_at := Float (f64_of_int 69)\<rparr>"

definition sample_recovering :: owner where
  "sample_recovering = sample_owner\<lparr>ow_restart_recovery := Some \<lparr>re_stage = Some ''pending'', re_auto_wake = True,
     re_epoch = Some 1, re_account_key = None, re_thread_id = None\<rparr>\<rparr>"

definition sample_flight :: rule_record where
  "sample_flight = (sample_rule Interval ''c'')\<lparr>rr_in_flight := True, rr_checks := 1\<rparr>"

definition sample_held :: owner where
  "sample_held = sample_owner\<lparr>ow_native_failure_hold := JBool True\<rparr>"

definition sample_low :: rule_record where
  "sample_low = (sample_rule (LowWorkers 2 1) [])\<lparr>rr_low_since := Some (Float (f64_of_int 0))\<rparr>"

definition sample_waiting :: rule_record where
  "sample_waiting = (sample_rule Interval ''c'')\<lparr>rr_status := Paused, rr_owner_hold := Some Archived\<rparr>"

definition sample_probe :: rule_record where
  "sample_probe = (sample_rule (File ''/f'') ''c'')\<lparr>rr_in_flight := True, rr_checks := 1, rr_liveness_command := ''l'',
     rr_stall_probe := Some True, rr_stall_event_key := Some ''e''\<rparr>"

definition sample_world :: "rule_record \<Rightarrow> rule_world" where
  "sample_world r = \<lparr>rw_rules = [(1, r)], rw_wakes = []\<rparr>"

definition sample_snapshot :: "owner \<Rightarrow> rule_record \<Rightarrow> rule_snapshot" where
  "sample_snapshot o' r = \<lparr>sn_raw = r, sn_owner_raw = sample_agent, sn_owner = o'\<rparr>"

definition sample_seen :: "fingerprint option option \<Rightarrow> int option \<Rightarrow> tick_observation" where
  "sample_seen fp workers = \<lparr>ob_fingerprint = fp, ob_active_workers = workers, ob_held_input = False\<rparr>"

lemma sample_texts: "str_trim ''n'' = ''n''" "str_trim ''t'' = ''t''" "str_trim [] = []" "decimal (Suc 0) = ''1''" "decimal 0 = ''0''"
  by code_simp+

lemma sample_times: "\<bar>n\<bar> < 2 ^ 53 \<Longrightarrow> is_finite (f64_of_int n)"
  by (simp add: f64_of_int_exact)

lemmas sample_defs = sample_env_def sample_reads_def sample_actor_def sample_owner_def sample_rule_def sample_world_def
  sample_snapshot_def sample_seen_def sample_texts no_rules_def

lemmas bound_defs = bounded_integer_def bounded_text_def chars_count_def char_start_def RULE_NAME_def RULE_TEXT_def
  MAX_COUNTER_def YEAR_SECONDS_def YEAR_MINUTES_def OUTPUT_CHARACTERS_def MIN_COMMAND_MILLISECONDS_def MAX_COMMAND_MILLISECONDS_def
  RULE_BATCH_def or_error_def number_from_f64_def rule_integer_def schema_or_def i64_of_u64_def

lemmas decision_defs = Let_def change_def no_decision_def finite_time_def time_number_def hold_def stopped_def deleted_def
  can_tick_def owner_paused_def recovery_pending_def restart_pending_def matching_recovery_def launch_def with_record_def
  from_stored_def check_def monitor_name_def

lemmas finish_defs = finish_def finish_command_def success_def tail_text_def wakes_agent_def suppressed_def authorized_def
  finish_allowed_def rule_wake_of_def wake_id_def

lemmas table_defs = get_rule_def put_rule_def apply_write_def apply_decision_def rule_result_def owner_value_def intent_of_def

lemma sample_typed [simp]:
  "kind_typed kind \<Longrightarrow> chars_count command \<le> RULE_TEXT \<Longrightarrow> rule_typed (sample_rule kind command)"
  by (simp add: sample_rule_def rule_typed_def counter_typed_def text_typed_def time_typed_def number_f64.simps bound_defs)

lemma sample_world_typed: "rule_typed r \<Longrightarrow> rules_typed (sample_world r)"
  by (simp add: rules_typed_def sample_world_def keyed_def get_rule_def)

lemma sample_saved: "rule_step (sample_env sample_owner) no_rules sample_save = sample_world (sample_rule Event [])"
  by (simp add: sample_save_def sample_body_def sample_agent_def sample_defs http_update_def validate_agent_def http_save_def
     http_save_input_def checked_rule_save_def SAVE_KINDS_def option_or_def number_u64_or_def u64_as_i64_def
     save_event_of_def save_kind_of_def persisted_rule_def stored_kind_def bound_defs table_defs
     require_def check_if_def empty_text_def some_text_def previous_or_def Let_def)

lemma sample_woken:
  "rule_step (sample_env sample_owner) (sample_world (sample_rule Event [])) (sample_event_op ''k'') =
     (sample_world ((sample_rule Event [])\<lparr>rr_checks := 1, rr_wakes := 1, rr_last_event := Some ''k'',
        rr_event_text := Some ''done'', rr_last_at := Some (Float (Finite 9)), rr_last_finished := Some (Float (Finite 9)),
        rr_last_exit_code := Some 0, rr_last_output := Some ''done''\<rparr>))
     \<lparr>rw_wakes := [\<lparr>wk_id = ''rule-wake:r:1'', wk_kind = ''rule'', wk_text = ''{}''\<rparr>]\<rparr>"
  by (simp add: sample_event_op_def committed_def event_in_transaction_def page_def event_def event_starts_def event_alias_def
     next_rowid_def sample_defs decision_defs finish_defs bound_defs table_defs)

section \<open>Properties\<close>

text \<open>C5: over any run from an empty table, whatever the ticks, events, results, restarts and actions of
  users and agents, every stored rule stays within the types of its fields: counters within the
  integers that JSON keeps exact, finite times, bounded texts, intervals and thresholds.\<close>

theorem stored_rules_stay_typed:
  assumes "get_rule (rw_rules (rule_run env no_rules ops)) i = Some r"
  shows "rule_typed r \<and> rr_id r = i"
  using typed_rules.run_inv[OF no_rules_start(1), of env ops] assms
  by (simp add: rule_run_def rules_typed_def get_rule_id)

theorem stored_rules_stay_typed_witness:
  "get_rule (rw_rules (rule_run (sample_env sample_owner) no_rules [sample_save])) ''r'' = Some (sample_rule Event [])
   \<and> rule_typed (sample_rule Event []) \<and> rr_id (sample_rule Event []) = ''r''"
proof -
  have "get_rule (rw_rules (rule_run (sample_env sample_owner) no_rules [sample_save])) ''r'' = Some (sample_rule Event [])"
    by (simp add: rule_run_def sample_saved) (simp add: sample_world_def sample_rule_def get_rule_def)
  with stored_rules_stay_typed[OF this] show ?thesis by simp
qed

text \<open>C3: over any run that deletes no rule and resumes none by the managed tool, the wakes of checks
  have distinct ids: no check wakes its agent twice, across results, cancellations and restarts.\<close>

theorem checks_wake_once:
  assumes "list_all tame_op ops"
  shows "distinct (rule_wake_ids (rule_run env no_rules ops))"
  using tame_run_wakes_once[OF no_rules_start(2) assms] by (simp add: wakes_once_def)

theorem checks_wake_once_witness:
  "rule_wake_ids (rule_run (sample_env sample_owner) no_rules [sample_save, sample_event_op ''k'']) = [''rule-wake:r:1'']
   \<and> distinct (rule_wake_ids (rule_run (sample_env sample_owner) no_rules [sample_save, sample_event_op ''k'']))"
proof -
  have "list_all tame_op [sample_save, sample_event_op ''k'']" by (simp add: sample_save_def sample_event_op_def)
  moreover have "rule_wake_ids (rule_run (sample_env sample_owner) no_rules [sample_save, sample_event_op ''k'']) = [''rule-wake:r:1'']"
    by (simp add: rule_run_def sample_saved sample_woken rule_wake_ids_def)
  ultimately show ?thesis using checks_wake_once[of "[sample_save, sample_event_op ''k'']"] by blast
qed

lemma engine_step_paused:
  assumes "(replaced engine_step)\<^sup>*\<^sup>* w w'" "\<exists>r. get_rule (rw_rules w) i = Some r \<and> user_paused r"
  shows "\<exists>r. get_rule (rw_rules w') i = Some r \<and> user_paused r"
  using assms
  by (induction rule: rtranclp_induct) (auto simp: replaced_def engine_step_def store_step_def get_put)

lemma engine_run_paused:
  assumes "rules_typed w" "list_all engine_op ops" "\<exists>r. get_rule (rw_rules w) i = Some r \<and> user_paused r"
  shows "\<exists>r. get_rule (rw_rules (rule_run env w ops)) i = Some r \<and> user_paused r"
  using assms
proof (induction ops arbitrary: w)
  case (Cons op ops)
  have "keyed (rw_rules w)" using Cons.prems(1) by (simp add: rules_typed_def)
  with engine_step_paused[OF engine_op_replaced] Cons.prems(2,3)
  have "\<exists>r. get_rule (rw_rules (rule_step env w op)) i = Some r \<and> user_paused r" by auto
  from Cons.IH[OF rule_step_typed[OF Cons.prems(1)] _ this] Cons.prems(2) show ?case by (simp add: rule_run_def)
qed (simp add: rule_run_def)

text \<open>C4: a rule that a user paused stays paused through any sequence of ticks, events, results and
  restarts; only another action of a user or an agent makes it active again.\<close>

theorem http_pause_holds:
  assumes "rules_typed w" "list_all engine_op ops"
    and "http_update Pause now at i pa po path fp agent (get_rule (rw_rules w) i) ids = Inr (resp, PutRule r, ids')"
  shows "\<exists>r'. get_rule (rw_rules (rule_run env (apply_write (PutRule r) w) ops)) i = Some r' \<and> rr_status r' = Paused"
proof -
  obtain q actor r0 where q: "get_rule (rw_rules w) i = Some q" and c: "http_control Paused actor q fp now = Inr (r0, PutRule r)"
    using assms(3) unfolding http_update_def Let_def
    by (auto split: option.splits if_splits prod.splits elim!: try_result_InrE)
  from http_control_Inr[OF c] have r: "controlled Paused (q\<lparr>rr_owner_hold := None, rr_restart_check := None\<rparr>) r" by auto
  then have p: "user_paused r" "rr_id r = i" using get_rule_id[OF q] by (simp_all add: controlled_def user_paused_def)
  have "rules_typed (apply_write (PutRule r) w)"
    using assms(1) q r by (auto simp: rules_typed_def apply_write_def keyed_put get_put controlled_def)
  from engine_run_paused[OF this assms(2), of i env] p show ?thesis by (auto simp: apply_write_def get_put user_paused_def)
qed

theorem http_pause_holds_witness:
  "\<exists>r'. get_rule (rw_rules (rule_run (sample_env sample_owner) (apply_write (PutRule sample_paused)
     (sample_world (sample_rule Interval ''c''))) [sample_event_op ''k''])) ''r'' = Some r' \<and> rr_status r' = Paused"
proof -
  have "f64_add (f64_of_int 9) (f64_of_int 60) = f64_of_int 69" using f64_of_int_add[of 9 60] by simp
  then have "http_update Pause (f64_of_int 9) None ''r'' sample_agent (Some (sample_rule Interval ''c'')) None None
      (Some (sample_actor, sample_agent)) (get_rule (rw_rules (sample_world (sample_rule Interval ''c''))) ''r'') [] =
      Inr (Record sample_paused, PutRule sample_paused, [])"
    by (simp add: http_update_def validate_agent_def sample_agent_def http_control_def http_change_def http_integer_def number_def
      sample_paused_def sample_defs bound_defs table_defs Let_def sample_times)
  moreover have "rules_typed (sample_world (sample_rule Interval ''c''))"
    by (rule sample_world_typed, rule sample_typed) (simp_all add: bound_defs)
  moreover have "list_all engine_op [sample_event_op ''k'']" by (simp add: sample_event_op_def)
  ultimately show ?thesis by (intro http_pause_holds)
qed

text \<open>C34: a check that a tick reserves is the check that may be submitted next, as long as its owner is
  still the one the tick saw.\<close>

theorem ticked_check_is_submitted:
  assumes "from_stored env r o' = Inr s" "tick_row env reads w s now fp = Inr (Some (changed, Some c), w')"
    and "tr_agents reads (rr_agent r) = Some o'" "tr_available reads"
  shows "submit_allowed env reads w' c = Inr True"
proof -
  from assms(1) have s: "snapshot_ok env s" "sn_raw s = r" "sn_owner_raw s = o'" by (auto simp: from_stored_Inr snapshot_ok_def)
  obtain d where d: "decide env reads (rw_rules w) s now fp = Inr (Some d)" "rd_check d = Some c"
    and a: "apply_decision (tr_accepts reads) w d = Inr (changed, w')"
    using assms(2) by (auto simp: tick_row_def split: option.splits elim!: try_result_InrE)
  obtain ob where t: "tick env s now ob = Inr d"
    using d(1) by (auto simp: decide_def split: option.splits if_splits prod.splits elim!: try_result_InrE)
  from tick_reserves[OF t s(1) d(2)] obtain q where q: "runnable s (ob_held_input ob)" "reserves env s d c q" by auto
  from submit_reserved[OF q(2) d(2) a s(1)] s assms(3,4) q(1) show ?thesis by (simp add: runnable_def stopped_def)
qed

theorem ticked_check_is_submitted_witness:
  "\<exists>c w'. tick_row (sample_env sample_owner) sample_reads (sample_world (sample_rule Interval ''c''))
       (sample_snapshot sample_owner (sample_rule Interval ''c'')) (f64_of_int 9) None = Inr (Some (True, Some c), w')
     \<and> submit_allowed (sample_env sample_owner) sample_reads w' c = Inr True"
proof -
  have t: "f64_add (f64_of_int 9) (f64_of_int 60) = f64_of_int 69" using f64_of_int_add[of 9 60] by simp
  have n: "\<not> f64_less (f64_of_int 9) (Finite 7)"
    using f64_of_int_exact[of 9] f64_unit_pos by simp
  obtain c w' where c: "tick_row (sample_env sample_owner) sample_reads (sample_world (sample_rule Interval ''c''))
       (sample_snapshot sample_owner (sample_rule Interval ''c'')) (f64_of_int 9) None = Inr (Some (True, Some c), w')"
    using t n by (simp add: tick_row_def decide_def current_def tick_def tick_kind_def stalled_def missed_def tick_due_def seconds_def
      sample_defs decision_defs bound_defs table_defs sample_times list.pred_True held_input_owner_def)
  have "from_stored (sample_env sample_owner) (sample_rule Interval ''c'') sample_agent =
      Inr (sample_snapshot sample_owner (sample_rule Interval ''c''))"
    by (simp add: from_stored_def sample_defs)
  from ticked_check_is_submitted[OF this c] c show ?thesis by (auto simp: sample_reads_def)
qed

text \<open>C40: an event starts a check whether or not its owner is being recovered or deleted, and
  a check that was reserved then is refused when it is to be submitted, while its rule stays in flight.\<close>

theorem event_check_is_refused:
  assumes "from_stored env r o' = Inr s" "event env s kind body key now = Inr d" "rd_check d = Some c"
    and "apply_decision (tr_accepts reads) w d = Inr (changed, w')"
    and "recovery_pending (sn_owner s) (rr_epoch r) \<or> deleted (sn_owner s)"
    and "tr_agents reads (rr_agent r) = Some o'" "tr_available reads"
  shows "submit_allowed env reads w' c = Inr False \<and> (\<exists>r'. get_rule (rw_rules w') (rr_id r) = Some r' \<and> rr_in_flight r')"
proof -
  from assms(1) have s: "snapshot_ok env s" "sn_raw s = r" "sn_owner_raw s = o'" by (auto simp: from_stored_Inr snapshot_ok_def)
  from event_reserves[OF assms(2) s(1) assms(3)] obtain q where q: "reserves env s d c q" by auto
  from q assms(3,4) obtain i where "get_rule (rw_rules w') (rr_id q) = Some (q\<lparr>rr_launch_intent := Some i\<rparr>)"
    by (rule apply_reserved)
  with q s(2) have "\<exists>r'. get_rule (rw_rules w') (rr_id r) = Some r' \<and> rr_in_flight r'" by (auto simp: reserves_def)
  with submit_reserved[OF q assms(3,4) s(1)] s assms(5-7) show ?thesis by auto
qed

theorem event_check_is_refused_witness:
  "\<exists>d c w' r'. event (sample_env sample_recovering) (sample_snapshot sample_recovering (sample_rule Event ''c''))
       ''child_result'' ''done'' ''k'' (Finite 9) = Inr d
     \<and> rd_check d = Some c \<and> apply_decision (tr_accepts sample_reads) (sample_world (sample_rule Event ''c'')) d = Inr (True, w')
     \<and> submit_allowed (sample_env sample_recovering) sample_reads w' c = Inr False
     \<and> get_rule (rw_rules w') ''r'' = Some r' \<and> rr_in_flight r'"
proof -
  let ?r = "sample_rule Event ''c''"
  let ?s = "sample_snapshot sample_recovering ?r"
  obtain d c w' where d: "event (sample_env sample_recovering) ?s ''child_result'' ''done'' ''k'' (Finite 9) = Inr d" "rd_check d = Some c"
      "apply_decision (tr_accepts sample_reads) (sample_world ?r) d = Inr (True, w')"
    by (simp add: event_def event_starts_def event_alias_def sample_recovering_def sample_defs decision_defs bound_defs table_defs)
  have "from_stored (sample_env sample_recovering) ?r sample_agent = Inr ?s"
    by (simp add: from_stored_def sample_defs sample_recovering_def)
  moreover have "recovery_pending (sn_owner ?s) (rr_epoch ?r)"
    by (simp add: decision_defs sample_defs sample_recovering_def)
  ultimately have "submit_allowed (sample_env sample_recovering) sample_reads w' c = Inr False
      \<and> (\<exists>r'. get_rule (rw_rules w') (rr_id ?r) = Some r' \<and> rr_in_flight r')"
    by (intro event_check_is_refused[OF _ d]) (simp_all add: sample_reads_def)
  with d show ?thesis by (auto simp: sample_rule_def)
qed

text \<open>A restart forgets the error of the record and nothing else that the completion of a check reads.\<close>

lemma finish_restarted:
  assumes "rr_stall_probe (sn_raw s) \<noteq> Some True \<or> rr_error (sn_raw s) = None"
  shows "finish env (s\<lparr>sn_raw := (sn_raw s)\<lparr>rr_in_flight := False, rr_error := None\<rparr>\<rparr>) now result = finish env s now result"
proof (cases "rr_stall_probe (sn_raw s) = Some True")
  case True
  with assms have "(sn_raw s)\<lparr>rr_in_flight := False, rr_error := None\<rparr> = (sn_raw s)\<lparr>rr_in_flight := False\<rparr>" by simp
  with True show ?thesis
    by (cases "rr_stall_event_key (sn_raw s)")
      (simp_all add: finish_def finish_probe_def authorized_def quiet_seconds_def Let_def cong: if_cong)
next
  case False
  then show ?thesis
    by (simp add: finish_def finish_command_def wakes_agent_def authorized_def rule_wake_of_def wake_id_def Let_def
        cong: if_cong)
qed

text \<open>C33: a restart during a check loses no result of an active rule: when the result of the check arrives
  after the restart, the rule, the wake and every other part of the decision are what they would have
  been without it. The result of a rule that was paused while its check ran is dropped after a restart.
  The claim is about a result that is no cancellation, of a rule whose owner is not deleted; a low-worker
  rule, whose checks end in the tick that starts them, a file rule with no recorded activity and a
  liveness probe of a rule with an error are excluded, as the restart changes more of their records.\<close>

theorem restart_keeps_result:
  assumes "snapshot_ok env s" "rr_in_flight (sn_raw s)" "rr_restart_check (sn_raw s) = None"
    and "rr_stall_probe (sn_raw s) \<noteq> Some True \<or> rr_error (sn_raw s) = None" "\<not> is_low_workers (rr_kind (sn_raw s))"
    and "is_file (rr_kind (sn_raw s)) \<Longrightarrow> rr_file_activity_at (sn_raw s) \<noteq> None"
    and "\<not> deleted (sn_owner s)" "\<not> cr_cancelled result" "marker_of c = restart_marker env s"
    and "recover env s restarted = Inr d" "rd_record d = Some r"
  shows "finish_check env (s\<lparr>sn_raw := r\<rparr>) c result now =
    (if rr_status (sn_raw s) = Active then finish_check env s c result now else Inr no_decision)"
proof (cases "rr_status (sn_raw s) = Active")
  case False
  have "r = recovered env s (Float restarted)" using assms(10,11) by (auto elim!: recover_Inr split: if_splits)
  then have "rr_restart_check r = None" "\<not> rr_in_flight r" using False assms(2) by (auto simp: recovered_def Let_def)
  with False assms(8) show ?thesis by (simp add: finish_check_def)
next
  case active: True
  define q where "q = (sn_raw s)\<lparr>rr_in_flight := False, rr_status := Paused, rr_error := Some RESTARTED,
    rr_restart_check := Some (restart_marker env s)\<rparr>"
  have "r = recovered env s (Float restarted)" using assms(10,11) by (auto elim!: recover_Inr split: if_splits)
  then have r: "r = q" using active assms(2,5,6) by (auto simp: recovered_def Let_def q_def)
  define a where "a = q\<lparr>rr_restart_check := None, rr_status := Active, rr_error := None\<rparr>"
  have a: "a = (sn_raw s)\<lparr>rr_in_flight := False, rr_error := None\<rparr>" using active assms(3) by (simp add: a_def q_def)
  have w: "with_record env (s\<lparr>sn_raw := q\<rparr>) a = Inr (s\<lparr>sn_raw := a\<rparr>)"
    using with_record_ok[of env "s\<lparr>sn_raw := q\<rparr>" a] assms(1) by (simp add: snapshot_ok_def a q_def)
  have m: "matches_check env (s\<lparr>sn_raw := q\<rparr>) c = matches_check env s c"
    by (simp add: matches_check_def launch_intent_check_def check_def Let_def q_def monitor_name_def split: option.split)
  have f: "finish env (s\<lparr>sn_raw := a\<rparr>) now result = finish env s now result"
    unfolding a using assms(4) by (rule finish_restarted)
  show ?thesis
    unfolding finish_check_def Let_def r m using active assms(2,3,7-9) w f by (simp add: q_def a_def)
qed

theorem restart_keeps_result_witness:
  "\<exists>d r. recover (sample_env sample_owner) (sample_snapshot sample_owner sample_flight) (Finite 9) = Inr d \<and> rd_record d = Some r
     \<and> finish_check (sample_env sample_owner) ((sample_snapshot sample_owner sample_flight)\<lparr>sn_raw := r\<rparr>)
         (check (sample_env sample_owner) (sample_snapshot sample_owner sample_flight)) (success ''x'') (Finite 10)
       = finish_check (sample_env sample_owner) (sample_snapshot sample_owner sample_flight)
         (check (sample_env sample_owner) (sample_snapshot sample_owner sample_flight)) (success ''x'') (Finite 10)"
proof -
  let ?s = "sample_snapshot sample_owner sample_flight"
  obtain d r where d: "recover (sample_env sample_owner) ?s (Finite 9) = Inr d" "rd_record d = Some r"
    by (simp add: recover_def recovered_def sample_flight_def sample_defs decision_defs bound_defs)
  have "finish_check (sample_env sample_owner) (?s\<lparr>sn_raw := r\<rparr>) (check (sample_env sample_owner) ?s) (success ''x'') (Finite 10)
    = (if rr_status (sn_raw ?s) = Active
       then finish_check (sample_env sample_owner) ?s (check (sample_env sample_owner) ?s) (success ''x'') (Finite 10)
       else Inr no_decision)"
    by (rule restart_keeps_result[OF _ _ _ _ _ _ _ _ _ d])
      (simp_all add: snapshot_ok_def sample_flight_def sample_defs deleted_def success_def marker_of_def restart_marker_def check_def Let_def)
  moreover have "rr_status (sn_raw ?s) = Active" by (simp add: sample_flight_def sample_defs)
  ultimately show ?thesis using d by simp
qed

text \<open>A run of ticks on one rule: each tick stores the record it decides. The ticks that matter here find
  the owner held.\<close>

fun tick_run :: "rule_env \<Rightarrow> rule_record \<Rightarrow> (rule_snapshot \<times> f64 \<times> tick_observation) list \<Rightarrow> rule_record" where
  "tick_run env r [] = r"
| "tick_run env r ((s, now, ob) # ticks) =
     tick_run env (case tick env (s\<lparr>sn_raw := r\<rparr>) now ob of
         Inr d \<Rightarrow> (case rd_record d of Some r' \<Rightarrow> r' | None \<Rightarrow> r)
       | Inl _ \<Rightarrow> r) ticks"

definition held_at :: "rule_record \<Rightarrow> rule_snapshot \<times> f64 \<times> tick_observation \<Rightarrow> bool" where
  "held_at r t = (case t of (s, now, ob) \<Rightarrow>
     \<not> stopped (s\<lparr>sn_raw := r\<rparr>) \<and> hold (sn_owner s) (ob_held_input ob) \<noteq> None)"

definition held_form :: "rule_record \<Rightarrow> owner_hold \<Rightarrow> string option \<Rightarrow> rule_record" where
  "held_form r h e = r\<lparr>rr_status := Paused, rr_owner_hold := Some h, rr_error := e\<rparr>"

lemma tick_held:
  assumes "\<not> rr_in_flight r" "held_at r (s, now, ob)" "is_finite now"
  shows "\<exists>d. tick env (s\<lparr>sn_raw := held_form r h e\<rparr>) now ob = Inr d \<and>
    (\<exists>h' e'. (case rd_record d of Some r' \<Rightarrow> r' | None \<Rightarrow> held_form r h e) = held_form r h' e')"
  using assms
  by (auto simp: tick_def Let_def finite_time_def owner_paused_def held_form_def held_at_def stopped_def
      resume_after_owner_hold_def no_decision_def change_def) blast+

lemma tick_run_held:
  assumes "\<not> rr_in_flight r" "\<forall>t \<in> set ticks. held_at r t"
  shows "\<exists>h' e'. tick_run env (held_form r h e) ticks = held_form r h' e'"
  using assms(2)
proof (induction ticks arbitrary: h e)
  case (Cons t ticks)
  obtain s now ob where t: "t = (s, now, ob)" by (cases t)
  show ?case
  proof (cases "is_finite now")
    case True
    with tick_held[OF assms(1), of s now ob env h e] Cons.prems t
    obtain d h' e' where d: "tick env (s\<lparr>sn_raw := held_form r h e\<rparr>) now ob = Inr d"
      "(case rd_record d of Some r' \<Rightarrow> r' | None \<Rightarrow> held_form r h e) = held_form r h' e'" by auto
    with Cons.IH[of h' e'] Cons.prems t show ?thesis by simp
  next
    case False
    then obtain x where "tick env (s\<lparr>sn_raw := held_form r h e\<rparr>) now ob = Inl x"
      by (simp add: tick_def Let_def finite_time_def)
    with Cons t show ?thesis by simp
  qed
qed auto

definition resumed :: "rule_record \<Rightarrow> rule_record" where
  "resumed r = (if is_low_workers (rr_kind r) then r\<lparr>rr_error := None, rr_low_since := None, rr_alerted := Some False\<rparr>
     else r\<lparr>rr_error := None\<rparr>)"

text \<open>C36: a rule that a tick paused because its owner is held comes back as it was, with no error, at the
  first tick at which the owner can run again, however many ticks found the owner held in between and
  for whatever reasons. A low-worker rule also starts its count anew.\<close>

theorem owner_hold_round_trip:
  assumes "tick env s now ob = Inr d" "rd_record d = Some r" "hold (sn_owner s) (ob_held_input ob) \<noteq> None"
    and "rr_owner_hold (sn_raw s) = None" "rr_owner_hold r \<noteq> None"
    and "\<forall>t \<in> set ticks. held_at (sn_raw s) t"
    and "\<not> stopped (s'\<lparr>sn_raw := sn_raw s\<rparr>)" "hold (sn_owner s') (ob_held_input ob') = None" "is_finite later"
  shows "tick env (s'\<lparr>sn_raw := tick_run env r ticks\<rparr>) later ob' = Inr (change (resumed (sn_raw s)))"
  using assms(1)
proof (cases rule: tick_Inr)
  case (held h)
  then have r: "r = held_form (sn_raw s) h (Some (owner_hold_reason h))"
      "rr_status (sn_raw s) = Active" "\<not> rr_in_flight (sn_raw s)"
    using assms(2) by (simp_all add: can_tick_def held_form_def)
  obtain h' e' where run: "tick_run env r ticks = held_form (sn_raw s) h' e'"
    using tick_run_held[OF r(3) assms(6)] r(1) by blast
  have "(sn_raw s)\<lparr>rr_owner_hold := None, rr_status := Active, rr_error := e\<rparr> = (sn_raw s)\<lparr>rr_error := e\<rparr>" for e
    using r(2) assms(4) by simp
  with r(3) assms(7-9) show ?thesis
    by (simp add: run tick_def Let_def finite_time_def owner_paused_def resume_after_owner_hold_def held_form_def
        resumed_def stopped_def)
next
  case stop
  with assms(2) have "r = (sn_raw s)\<lparr>rr_status := Paused, rr_error := Some STOPPED\<rparr>" by simp
  with assms(4,5) show ?thesis by simp
qed (use assms in \<open>auto simp: owner_paused_def runnable_def\<close>)

definition sample_archived :: owner where
  "sample_archived = sample_owner\<lparr>ow_archived := JBool True\<rparr>"

theorem owner_hold_round_trip_witness:
  "\<exists>d r. tick (sample_env sample_held) (sample_snapshot sample_held sample_low) (Finite 9) (sample_seen None None) = Inr d
     \<and> rd_record d = Some r \<and> rr_owner_hold r = Some NativeFailureHold
     \<and> tick (sample_env sample_held)
         ((sample_snapshot sample_owner sample_low)\<lparr>sn_raw := tick_run (sample_env sample_held) r
            [(sample_snapshot sample_archived sample_low, Finite 10, sample_seen None None)]\<rparr>)
         (Finite 11) (sample_seen None None)
       = Inr (change (sample_low\<lparr>rr_error := None, rr_low_since := None, rr_alerted := Some False\<rparr>))"
proof -
  let ?s = "sample_snapshot sample_held sample_low"
  have raw: "sn_raw (sample_snapshot w sample_low) = sample_low" for w by (simp add: sample_snapshot_def)
  have low: "is_low_workers (rr_kind sample_low)" "rr_owner_hold sample_low = None"
    by (simp_all add: sample_low_def sample_rule_def)
  obtain d r where d: "tick (sample_env sample_held) ?s (Finite 9) (sample_seen None None) = Inr d" "rd_record d = Some r"
      "rr_owner_hold r = Some NativeFailureHold"
    by (simp add: tick_def sample_held_def sample_low_def sample_defs decision_defs)
  have "tick (sample_env sample_held)
         ((sample_snapshot sample_owner sample_low)\<lparr>sn_raw := tick_run (sample_env sample_held) r
            [(sample_snapshot sample_archived sample_low, Finite 10, sample_seen None None)]\<rparr>)
         (Finite 11) (sample_seen None None) = Inr (change (resumed (sn_raw ?s)))"
    by (rule owner_hold_round_trip[OF d(1,2)])
      (simp_all add: d raw low held_at_def sample_archived_def sample_held_def sample_low_def sample_defs stopped_def deleted_def hold_def)
  then show ?thesis using d low by (simp add: resumed_def raw)
qed

lemma finish_alerted:
  "finish env s now result = Inr d \<Longrightarrow> \<exists>r. rd_record d = Some r \<and> rr_alerted r = rr_alerted (sn_raw s)"
  by (auto simp: finish_def finish_probe_def finish_command_def Let_def split: if_splits prod.splits elim!: try_result_InrE)

text \<open>When a tick of a low-worker rule wakes the agent, the rule was not alerted and is alerted then.\<close>

lemma low_worker_wake:
  assumes "tick env s now ob = Inr d" "rd_wake d = Some x" "rr_kind (sn_raw s) = LowWorkers minimum minutes"
  obtains n where "ob_active_workers ob = Some n" "n < minimum" "is_finite now" "rr_alerted (sn_raw s) \<noteq> Some True"
    "f64_less (f64_of_int (minutes * 60)) (f64_sub now (low_since (sn_raw s) now))"
    "\<exists>r. rd_record d = Some r \<and> rr_alerted r = Some True"
proof -
  have lw: "low_workers env s now (ob_active_workers ob) minimum minutes = Inr d \<and> is_finite now"
    using assms(1)
  proof (cases rule: tick_Inr)
    case resume
    with assms(2) show ?thesis
      by (auto simp: resume_after_owner_hold_def Let_def split: option.splits if_splits)
  next
    case runs
    with assms(3) show ?thesis
      by (simp add: tick_kind_def)
  qed (use assms(2) in simp_all)
  then obtain n snapshot result where "ob_active_workers ob = Some n" "n < minimum" "rr_alerted (sn_raw s) \<noteq> Some True"
      "f64_less (f64_of_int (minutes * 60)) (f64_sub now (low_since (sn_raw s) now))"
    and f: "finish env snapshot now result = Inr d" "rr_alerted (sn_raw snapshot) = Some True"
    using assms(2) unfolding low_workers_def Let_def with_record_def from_stored_def
    by (auto simp: rule_integer_Inr split: option.splits if_splits elim!: try_result_InrE)
  with lw finish_alerted[OF f(1)] show thesis by (intro that) auto
qed

text \<open>C35: a low-worker rule alerts only when fewer workers than its minimum are active and the time since
  the count fell is longer than its duration, by exact subtraction of the two clock readings and not
  only by the rounded one. The rule was not marked as alerted before, the stored rule is, and no tick
  of a rule with that mark alerts.\<close>

theorem low_worker_alert_is_due:
  assumes "tick env s now ob = Inr d" "rd_wake d = Some x" "rr_kind (sn_raw s) = LowWorkers minimum minutes"
    and "rule_typed (sn_raw s)"
  shows "(\<exists>n t a b. ob_active_workers ob = Some n \<and> n < minimum \<and> rr_low_since (sn_raw s) = Some t \<and> number_f64 t = Finite a
      \<and> now = Finite b \<and> minutes * 60 * f64_unit < b - a \<and> rr_alerted (sn_raw s) \<noteq> Some True)
    \<and> (\<exists>r. rd_record d = Some r \<and> rr_alerted r = Some True
      \<and> (\<forall>s' later ob' d'. rr_alerted (sn_raw s') = rr_alerted r \<and> rr_kind (sn_raw s') = LowWorkers minimum minutes
           \<and> tick env s' later ob' = Inr d' \<longrightarrow> rd_wake d' = None))"
proof -
  obtain n where n: "ob_active_workers ob = Some n" "n < minimum" and now: "is_finite now"
    and late: "f64_less (f64_of_int (minutes * 60)) (f64_sub now (low_since (sn_raw s) now))" "rr_alerted (sn_raw s) \<noteq> Some True"
    and alerted: "\<exists>r. rd_record d = Some r \<and> rr_alerted r = Some True"
    by (rule low_worker_wake[OF assms(1-3)])
  obtain b where b: "now = Finite b" using now by (cases now) simp_all
  have minutes: "1 \<le> minutes" "\<bar>minutes * 60\<bar> < 2 ^ 53"
    using assms(3,4) by (simp_all add: rule_typed_def YEAR_MINUTES_def)
  have pos: "0 < minutes * 60 * f64_unit" using minutes(1) f64_unit_pos by simp
  have "is_finite (low_since (sn_raw s) now)"
    using assms(4) now by (auto simp: low_since_def seconds_def rule_typed_def time_typed_def split: option.splits)
  then obtain a where a: "low_since (sn_raw s) now = Finite a" by (cases "low_since (sn_raw s) now") simp_all
  have exact: "minutes * 60 * f64_unit < b - a" using f64_sub_exceeds[OF minutes(2), of b a] late(1) a b by simp
  with pos have "a \<noteq> b" by auto
  with a obtain t where t: "rr_low_since (sn_raw s) = Some t" "number_f64 t = Finite a"
    using b by (auto simp: low_since_def seconds_def split: option.splits if_splits)
  have "rd_wake d' = None" if "rr_alerted (sn_raw s') = Some True" "rr_kind (sn_raw s') = LowWorkers minimum minutes"
    "tick env s' later ob' = Inr d'" for s' later ob' d'
  proof (rule ccontr)
    assume "rd_wake d' \<noteq> None"
    then obtain y where "rd_wake d' = Some y" by blast
    from low_worker_wake[OF that(3) this that(2)] that(1) show False by blast
  qed
  with alerted n b t late(2) exact show ?thesis by auto
qed

theorem low_worker_alert_is_due_witness:
  "\<exists>d x r t a b. tick (sample_env sample_owner) (sample_snapshot sample_owner sample_low) (f64_of_int 100) (sample_seen None (Some 1)) = Inr d
     \<and> rd_wake d = Some x \<and> rr_low_since sample_low = Some t \<and> number_f64 t = Finite a \<and> f64_of_int 100 = Finite b
     \<and> 1 * 60 * f64_unit < b - a \<and> rd_record d = Some r \<and> rr_alerted r = Some True"
proof -
  let ?s = "sample_snapshot sample_owner sample_low"
  have f: "f64_le (f64_of_int 0) (f64_of_int 100)" "f64_sub (f64_of_int 100) (f64_of_int 0) = f64_of_int 100"
      "f64_less (f64_of_int 60) (f64_of_int 100)"
    using f64_of_int_le[of 0 100] f64_of_int_sub[of 100 0] f64_of_int_less[of 60 100] by simp_all
  obtain d x where d: "tick (sample_env sample_owner) ?s (f64_of_int 100) (sample_seen None (Some 1)) = Inr d" "rd_wake d = Some x"
    using f by (simp add: tick_def tick_kind_def low_workers_def low_since_def seconds_def sample_low_def sample_defs decision_defs
      bound_defs finish_defs sample_times)
  have k: "rr_kind (sn_raw ?s) = LowWorkers 2 1" by (simp add: sample_low_def sample_snapshot_def sample_rule_def)
  have "rule_typed (sn_raw ?s)"
    using sample_typed[of "LowWorkers 2 1" "[]"]
    by (simp add: sample_low_def sample_snapshot_def rule_typed_bounded sample_times bound_defs)
  from low_worker_alert_is_due[OF d k this] d show ?thesis by (auto simp: sample_snapshot_def sample_seen_def)
qed

text \<open>C37: the two orders in which a save is checked, that of the HTTP action and that of the managed
  tool, accept the same saves with the same fields; only the error they name may differ.\<close>

theorem save_orders_agree:
  "checked_rule_save input now is_lead Http = Inr f \<longleftrightarrow> checked_rule_save input now is_lead Managed = Inr f"
  by (simp add: checked_rule_save_accepted)

text \<open>C38: when an agent pauses, through the managed tool, a rule that waits for its owner, the pause
  does not hold: the next tick that finds the owner able to run makes the rule active again.\<close>

theorem managed_pause_is_undone:
  assumes "managed_control Paused actor r fp now = Inr (sn_raw s, PutRule (sn_raw s))" "owner_paused r"
    and "\<not> stopped s" "hold (sn_owner s) (ob_held_input ob) = None" "is_finite later"
  shows "\<exists>r'. tick env s later ob = Inr (change r') \<and> rr_status r' = Active"
proof -
  have "controlled Paused (r\<lparr>rr_restart_check := None\<rparr>) (sn_raw s)" using managed_control_Inr[OF assms(1)] by simp
  with assms(2) have "owner_paused (sn_raw s)" by (simp add: controlled_def owner_paused_def)
  with assms(3-5) show ?thesis
    by (auto simp: tick_def Let_def finite_time_def resume_after_owner_hold_def change_def no_decision_def)
qed

theorem managed_pause_is_undone_witness:
  "\<exists>r r'. managed_control Paused sample_actor sample_waiting None (f64_of_int 9) = Inr (r, PutRule r) \<and> rr_status r = Paused
     \<and> tick (sample_env sample_owner) (sample_snapshot sample_owner r) (f64_of_int 10) (sample_seen None None) = Inr (change r')
     \<and> rr_status r' = Active"
proof -
  have "f64_add (f64_of_int 9) (f64_of_int 60) = f64_of_int 69" using f64_of_int_add[of 9 60] by simp
  then obtain r where r: "managed_control Paused sample_actor sample_waiting None (f64_of_int 9) = Inr (r, PutRule r)"
      "rr_status r = Paused" "rr_epoch r = 1"
    by (simp add: managed_control_def managed_change_def sample_waiting_def sample_defs bound_defs Let_def sample_times)
  let ?s = "sample_snapshot sample_owner r"
  have m: "managed_control Paused sample_actor sample_waiting None (f64_of_int 9) = Inr (sn_raw ?s, PutRule (sn_raw ?s))"
    using r(1) by (simp add: sample_snapshot_def)
  have "\<exists>r'. tick (sample_env sample_owner) ?s (f64_of_int 10) (sample_seen None None) = Inr (change r') \<and> rr_status r' = Active"
    by (rule managed_pause_is_undone[OF m])
      (simp_all add: r sample_waiting_def sample_defs owner_paused_def stopped_def deleted_def hold_def sample_times)
  with r show ?thesis by blast
qed

text \<open>C39: a liveness probe that a restart interrupts is not forgotten: after the user resumes the rule,
  the next check it starts, also one for a changed file, runs the liveness command, and what it
  reports is that the file is unchanged.\<close>

theorem interrupted_probe_is_resumed:
  assumes "rr_stall_probe (sn_raw s) = Some True" "recover env s restarted = Inr d" "rd_record d = Some r"
    and "http_control Active actor r fp now = Inr (sn_raw s', PutRule (sn_raw s'))" "snapshot_ok env s'"
    and "tick env s' later ob = Inr d'" "rd_check d' = Some c"
  shows "ck_liveness c \<and> ck_command c = rr_liveness_command (sn_raw s')
    \<and> (\<exists>q. rd_record d' = Some q \<and> (\<forall>o' result finished d'' x. finish env \<lparr>sn_raw = q, sn_owner_raw = o', sn_owner = sn_owner s'\<rparr> finished result = Inr d''
         \<longrightarrow> rd_wake d'' = Some x \<longrightarrow> wk_kind x = ''rule_stall''))"
proof -
  have "r = recovered env s (Float restarted)" using assms(2,3) by (auto elim!: recover_Inr split: if_splits)
  with assms(1) have "rr_stall_probe r = Some True" by (simp add: recovered_def Let_def)
  with http_control_Inr[OF assms(4)] have p: "rr_stall_probe (sn_raw s') = Some True" by (simp add: controlled_def)
  from tick_reserves[OF assms(6,5,7)] obtain q where q: "reserves env s' d' c q" by auto
  with p have "rr_stall_probe q = Some True" by (auto simp: reserves_def)
  moreover from this q have "ck_liveness c" "ck_command c = rr_liveness_command (sn_raw s')"
    by (auto simp: reserves_def check_def Let_def)
  ultimately show ?thesis using q by (auto simp: reserves_def finish_wake_def elim!: finish_Inr)
qed

theorem interrupted_probe_is_resumed_witness:
  "\<exists>d r r' d' c. recover (sample_env sample_owner) (sample_snapshot sample_owner sample_probe) (Finite 9) = Inr d \<and> rd_record d = Some r
     \<and> http_control Active sample_actor r None (f64_of_int 9) = Inr (r', PutRule r')
     \<and> tick (sample_env sample_owner) (sample_snapshot sample_owner r') (f64_of_int 70) (sample_seen (Some (Some (1, 2, 3))) None) = Inr d'
     \<and> rd_check d' = Some c \<and> ck_liveness c \<and> ck_command c = ''l''"
proof -
  let ?s = "sample_snapshot sample_owner sample_probe"
  have t: "f64_add (f64_of_int 9) (f64_of_int 60) = f64_of_int 69" "f64_add (f64_of_int 70) (f64_of_int 60) = f64_of_int 130"
      "\<not> f64_less (f64_of_int 70) (f64_of_int 69)"
    using f64_of_int_add[of 9 60] f64_of_int_add[of 70 60] f64_of_int_less[of 70 69] by simp_all
  obtain d r where d: "recover (sample_env sample_owner) ?s (Finite 9) = Inr d" "rd_record d = Some r"
      "r = sample_probe\<lparr>rr_restart_check := Some (restart_marker (sample_env sample_owner) ?s), rr_in_flight := False,
        rr_status := Paused, rr_error := Some RESTARTED\<rparr>"
    by (simp add: recover_def recovered_def sample_probe_def sample_defs decision_defs bound_defs)
  obtain r' where r': "http_control Active sample_actor r None (f64_of_int 9) = Inr (r', PutRule r')"
      "r' = sample_probe\<lparr>rr_in_flight := False, rr_next_at := Float (f64_of_int 69), rr_file_activity_at := Some (Float (f64_of_int 9)),
        rr_file_generation := 1, rr_stall_wake_generation := 0\<rparr>"
    using t unfolding d(3)
    by (simp add: http_control_def http_change_def restart_watch_def http_integer_def number_def saturating_i64_def
      sample_probe_def sample_defs bound_defs Let_def sample_times)
  obtain d' c where d': "tick (sample_env sample_owner) (sample_snapshot sample_owner r') (f64_of_int 70)
      (sample_seen (Some (Some (1, 2, 3))) None) = Inr d'" "rd_check d' = Some c"
    using t unfolding r'(2)
    by (simp add: tick_def tick_kind_def stalled_def missed_def tick_due_def fingerprint_seen_def seconds_def
      sample_probe_def sample_defs decision_defs bound_defs sample_times)
  let ?s' = "sample_snapshot sample_owner r'"
  have p: "rr_stall_probe (sn_raw ?s) = Some True" by (simp add: sample_snapshot_def sample_probe_def)
  have h: "http_control Active sample_actor r None (f64_of_int 9) = Inr (sn_raw ?s', PutRule (sn_raw ?s'))"
    using r'(1) by (simp add: sample_snapshot_def)
  have ok: "snapshot_ok (sample_env sample_owner) ?s'" by (simp add: r'(2) sample_probe_def sample_defs snapshot_ok_def)
  from interrupted_probe_is_resumed[OF p d(1,2) h ok d'] have "ck_liveness c \<and> ck_command c = rr_liveness_command (sn_raw ?s')" by blast
  then have "ck_liveness c \<and> ck_command c = ''l''" by (simp add: r'(2) sample_snapshot_def sample_probe_def)
  with d(1,2) r'(1) d' show ?thesis by blast
qed

end
