(* ===== verification/Spec2Isabelle.thy ===== *)
theory Spec2Isabelle
  imports Receipt_Adapter Session_Order Voice_Session Peer_Client Peer_Links Rule_Outcomes
begin

text \<open>
  A verification library for the runtime of Codex Studio. Paths below are under
  \<open>src/workspaces/\<close>; \<open>packages\<close> stands for \<open>runtime/packages\<close> and \<open>apps\<close> for \<open>runtime/apps\<close>.

  \<^bold>\<open>The program.\<close> The runtime accepts requests of clients and of paired servers, turns them into
  operations that are dispatched at most once, drives provider processes over a line protocol,
  and keeps what it knows about unfinished work so that a crash or a lost connection leaves an
  \<^emph>\<open>unknown\<close> outcome instead of a wrong one. Agents leave rules with it that wake them
  later. Five parts of it are modelled.

  \<^item> \<^emph>\<open>Operations\<close> (\<open>packages/operations\<close>, \<open>packages/runtime-services/src/tool_requests*\<close>). One slot per
    operation with a revision; an event is accepted, absorbed or rejected. A request is reserved
    before it is dispatched and settled with the evidence of its result. Tool receipts are JSON
    records that store such a slot in columns.
  \<^item> \<^emph>\<open>Providers\<close> (\<open>packages/runtime-providers\<close>, \<open>packages/runtime-schema\<close>). Frames on a line, the book of
    pending requests, and the session that combines both with deadlines and with one queue for
    each thread whose requests must not overlap.
  \<^item> \<^emph>\<open>Voice\<close> (\<open>packages/runtime-services/src/voice\<close>). Realtime sessions: a pure policy and the statements
    on the table \<open>voice_sessions\<close> around it.
  \<^item> \<^emph>\<open>The peer link\<close> (\<open>apps/peer-link\<close>, \<open>packages/runtime-services/src/remote_transport.rs\<close>). Requests
    between paired servers over QUIC streams, with HTTPS as the fallback.
  \<^item> \<^emph>\<open>Rules\<close> (\<open>packages/runtime-services/src/rules*.rs\<close>, \<open>packages/runtime-http/src/routes/rules.rs\<close>). A rule
    of an agent watches a clock, a file, an event or the number of its workers, runs a command as a
    check, and wakes the agent with the result. Ticks, events, results, restarts, users and agents
    change it.

  \<^bold>\<open>Conventions.\<close> A Rust \<open>u64\<close> (\<open>u16\<close>, \<open>u8\<close>) is a word of that width, \<open>checked_add\<close> and \<open>saturating_add\<close>
  are written out. A \<open>String\<close> is the list of its UTF-8 bytes. A \<open>Result\<close> is a sum with the error on
  the left; an operation that can fail after it changed its state returns both the result and
  the state. A \<open>BTreeMap\<close> or a table with a primary key is an association list with increasing
  keys, a \<open>BTreeSet\<close> an increasing list. An \<open>f64\<close> is a not-a-number, an infinity or a multiple of the
  smallest positive double, and its arithmetic rounds to the nearest with ties to even; the two
  zeros are one. Code outside the repository is
  an argument: JSON text, the digest functions, PEM keys, QUIC and the sockets. What is relied
  on is a hypothesis of the theorem that needs it, and its witness instantiates it.

  \<^bold>\<open>The theories.\<close>

  \<^item> \<open>Studio_Prelude\<close>: words, results, lists, the lemma collections, and the locales
    \<open>guarded_machine\<close> and \<open>ordered_machine\<close> for components whose operations keep an invariant or
    only move forward. \<open>Ordered_Store\<close>: ordered maps and sets. \<open>Json_Value\<close>: \<open>serde_json::Value\<close> with
    its accessors. \<open>Rust_Float\<close>: \<open>f64\<close>, its comparisons and its rounded arithmetic, which is exact on
    whole numbers below \<open>2^53\<close> and monotone. \<open>Rust_Text\<close>: formatting, also of floats, parsing, trimming
    and splitting of strings.
  \<^item> \<open>Operation_Lifecycle\<close> (\<open>packages/operations/src/lib.rs\<close>): \<open>transition\<close> with its parts for present,
    absent and compacted slots. The inductive relation \<open>phase_step\<close> is the contract of the phases, and
    the transition function refines it: it accepts exactly the events the contract allows under
    the identity, attempt and revision guards. Over every sequence of events an operation is
    dispatched at most once, a settled slot never changes, a dispatched operation settles only
    on evidence, and a slot accepts at most five transitions.
  \<^item> \<open>Request_Reservation\<close> and \<open>Request_Settlement\<close> (\<open>reservation.rs\<close>, \<open>settlement.rs\<close>): the decisions, and
    the locale \<open>request_store\<close> for a store that applies intents atomically or not at all. It is
    interpreted on the in-memory stores of \<open>operations/tests\<close>, with their injected failures; a
    caller that retries reserves once and settles once.
  \<^item> \<open>Receipt_Adapter\<close> (\<open>tool_requests/lifecycle.rs\<close>, \<open>tool_requests/admission.rs\<close>): reading a receipt as a
    slot, writing a decided slot back, and the actions of a receipt. Writing and reading agree, a
    terminal receipt is final, a receipt is claimed once, and a reservation is idempotent.
  \<^item> \<open>Provider_Codec\<close> (\<open>runtime-providers/src/codec.rs\<close>): frames, wire objects, lines. Decoding an encoded
    frame gives it back when the JSON library carries its members (\<open>json_text\<close>: at most 127 nested
    levels, finite floats, UTF-8 strings); a decoded frame survives the wire.
  \<^item> \<open>Pending_Book\<close> (\<open>session.rs\<close>): the book of requests with its bounded memory of settled ids.
    \<open>Provider_Kind\<close> (\<open>provider_kind.rs\<close>, \<open>provider_method_policy.rs\<close>, \<open>initialize.rs\<close>): provider identities
    and the rules that serialize requests of a thread.
  \<^item> \<open>Provider_Session\<close> (\<open>connection.rs\<close>): every operation of \<open>SessionState\<close>. \<open>Session_Ledger\<close> has the
    invariant of the pending requests, the book, the deadline index and the lifecycle, kept by every
    operation; \<open>Session_Outcomes\<close> what a request is answered with: at most one reply for each time it
    is taken up, all that follows a response, an expiry of exactly the overdue requests, a report of
    every request when the transport is lost and after it only replies and inbound frames.
    \<open>Session_Lanes\<close> has the invariant of the thread owners and queues, for runs in which no id is taken
    up again while a queue still holds it, and \<open>Session_Order\<close> what follows from it: waiting requests are
    released and written in order, with the parameters kept for them and at most once, and the session
    never misses a registered request.
  \<^item> \<open>Voice_Session\<close> (\<open>voice/policy.rs\<close>, \<open>voice/provider.rs\<close>, \<open>voice/effects.rs\<close>): an agent has at most one open
    session and an ended session stays ended, when operations do not overlap; every
    overlap of an answer with the end of its session brings the session back, and beside a session
    started since it leaves the agent with two.
  \<^item> \<open>Peer_Frame\<close>, \<open>Peer_Inbound\<close>, \<open>Peer_Outbound\<close>, \<open>Peer_Links\<close> (\<open>frame.rs\<close>, \<open>inbound.rs\<close>, \<open>outbound.rs\<close>,
    \<open>main.rs\<close> and \<open>tls.rs\<close> of the link) and \<open>Peer_Client\<close> (\<open>remote_transport.rs\<close>). Every read, write and
    wait can fail, stall or deliver a part; these are arguments of the handlers. The request
    the backend reads is exactly the validated head and the headers of the link. A response
    head is read the same way however it is cut. The client changes to HTTPS only when no part
    of the link's stream lets the paired server complete the request (after a refused key because QUIC
    gives that server no bytes of a stream), and a complete response within the size limits reaches the
    caller. Open connections have a paired key when operations do not overlap; an
    overlap that keeps a removed key connected is exhibited.
  \<^item> \<open>Rule_Record\<close> (\<open>runtime-schema/src/rule_record.rs\<close>): the stored rule, and \<open>rule_typed\<close> for what its field
    types say. \<open>Rule_Engine\<close> (\<open>rules_engine.rs\<close>): the decisions on a snapshot of a rule and its owner,
    \<open>tick\<close>, \<open>event\<close>, \<open>finish_check\<close> and \<open>recover\<close>. \<open>Rule_Actions\<close> (\<open>rules.rs\<close>, \<open>routes/rules.rs\<close>,
    \<open>managed_status_watch.rs\<close>): the checked save and the two transactions that save, pause, resume and
    delete. \<open>Rule_Driver\<close> (\<open>rules_tick.rs\<close>): the transactions that apply a decision to the table of rules.
  \<^item> \<open>Rule_Decisions\<close> and \<open>Rule_Saves\<close> have the case rules of these operations and what each keeps;
    \<open>Rule_Life\<close> the runs of all of them, each a sequence of replacements of stored rules; \<open>Rule_Runs\<close>
    the invariants of runs. \<open>Rule_Outcomes\<close>: stored rules stay within their types, a check wakes its
    agent at most once, a pause by the user holds, a check reserved by a tick may be submitted, a
    result of an active rule counts after a restart as without it, a rule comes back from the hold of its
    owner through any ticks in between, an alert is not early by exact subtraction and comes once until
    its mark is cleared, and both orders of a save accept the same. Three gaps
    are exhibited: a managed pause that a tick undoes, a probe that a restart leaves behind, and a
    check of an event that is refused while its rule stays in flight.

  \<^bold>\<open>Loops.\<close> No definition uses fuel. Loops over queues, chunks and deadlines are structural
  recursions on the list they consume; the loops on bytes (trimming, body parts, decimal digits)
  are shown to end with a measure. The bounds are those of the sources: 64 KiB for a head, 1 MiB
  for a response body, 256 remembered settled requests.

  \<^bold>\<open>Not modelled.\<close> Tokio tasks and locks are not modelled as such: a handler is one step unless the
  source releases its transaction or lock in between, and then the parts are separate
  definitions. Of the tool requests the HTTP actions, the payload blobs and the table of results
  are left out; of voice the callback actor in front of the notification handler, the outbox
  of stop effects, the stored provider scope, the audio and speech tables and the transcript service; of the rules the reading of file fingerprints, the monitors that run commands,
  the event queue behind a wake, and the request results and outbox rows of the managed tool; of
  the link the QUIC and TLS libraries, process start and the HTTPS client.
  The remaining services, the store with its migrations, the HTTP routes, the generated schemas,
  the version control of \<open>apps/layr\<close>, the clients and the tooling are not modelled: they are mostly
  statements on SQLite, calls of the operating system, of git and of user interfaces.
\<close>

end
